(* ===== verification/Klaytn_Prelude.thy ===== *)
theory Klaytn_Prelude
  imports Main "HOL-Library.Word" "HOL-Library.AList" "HOL-Library.Multiset"
begin

text \<open>
  Shared vocabulary of the development.
  \<^item> Names for the Go types the sources use: \<open>uint64\<close> is \<open>u64\<close>, \<open>common.Address\<close> is
    \<open>address\<close> (its 20 bytes read big-endian), \<open>common.Hash\<close> is \<open>hash\<close>, \<open>[]byte\<close> is
    \<open>bytes\<close>; a \<open>*big.Int\<close> is an \<open>int\<close>, or an \<open>int option\<close> where the code tests it for nil.
  \<^item> Results of fallible code: \<open>Inl\<close> carries the error, \<open>Inr\<close> the value; \<open>rbind\<close> is
    the early return \<^verbatim>\<open>if err != nil { return err }\<close>.
  \<^item> Go maps that are ranged over are association lists with distinct keys; the sums the
    components need over them are collected in \<open>alist_sum\<close>.
  \<^item> The parts of Go's standard library the sources call: \<open>strings.Split\<close> with a one-character
    separator, \<open>strconv.ParseInt\<close> and \<open>strconv.Atoi\<close> in base 10 at 64 bits,
    \<open>big.Int.SetString\<close> in base 10, and signed 64-bit wrap-around.
\<close>

section \<open>Types and automation\<close>

named_theorems result_simps \<open>how a fallible computation can return\<close>
named_theorems wrap_simps \<open>arithmetic on machine integers that does not wrap around\<close>

type_synonym u8 = "8 word"
type_synonym u64 = "64 word"
type_synonym u256 = "256 word"
type_synonym address = "160 word"
type_synonym hash = "256 word"
type_synonym bytes = "8 word list"

section \<open>Results\<close>

definition rbind :: "'e + 'a \<Rightarrow> ('a \<Rightarrow> 'e + 'b) \<Rightarrow> 'e + 'b" where
  "rbind m f = (case m of Inl e \<Rightarrow> Inl e | Inr x \<Rightarrow> f x)"

lemma rbind_Inl [simp]: "rbind (Inl e) f = Inl e"
  by (simp add: rbind_def)

lemma rbind_Inr [simp]: "rbind (Inr x) f = f x"
  by (simp add: rbind_def)

lemma rbind_eq_Inr [result_simps]: "rbind m f = Inr y \<longleftrightarrow> (\<exists>x. m = Inr x \<and> f x = Inr y)"
  by (auto simp: rbind_def split: sum.splits)

lemma rbind_eq_Inl [result_simps]:
  "rbind m f = Inl e \<longleftrightarrow> m = Inl e \<or> (\<exists>x. m = Inr x \<and> f x = Inl e)"
  by (auto simp: rbind_def split: sum.splits)

lemma rbind_cong [fundef_cong]:
  assumes "m = m'" and "\<And>x. m' = Inr x \<Longrightarrow> f x = g x"
  shows "rbind m f = rbind m' g"
  using assms by (auto simp: rbind_def split: sum.splits)

section \<open>Association lists as Go maps\<close>

definition alist_sum :: "('k \<times> int) list \<Rightarrow> int" where
  "alist_sum m = sum_list (map snd m)"

lemma alist_sum_Nil [simp]: "alist_sum [] = 0"
  by (simp add: alist_sum_def)

lemma alist_sum_Cons [simp]: "alist_sum ((k, v) # m) = v + alist_sum m"
  by (simp add: alist_sum_def)

lemma alist_sum_append [simp]: "alist_sum (m @ n) = alist_sum m + alist_sum n"
  by (simp add: alist_sum_def)

lemma alist_sum_update:
  "distinct (map fst m) \<Longrightarrow>
   alist_sum (AList.update k v m) =
     alist_sum m + v - (case map_of m k of None \<Rightarrow> 0 | Some w \<Rightarrow> w)"
  by (induction m) (auto split: option.splits simp del: map_of_eq_Some_iff)

lemma alist_sum_perm: "mset m = mset n \<Longrightarrow> alist_sum m = alist_sum n"
  unfolding alist_sum_def by (metis mset_map sum_mset_sum_list)

lemma alist_sum_nonneg: "(\<And>k v. (k, v) \<in> set m \<Longrightarrow> 0 \<le> v) \<Longrightarrow> 0 \<le> alist_sum m"
  unfolding alist_sum_def by (rule sum_list_nonneg) auto

section \<open>Low 64 bits\<close>

text \<open>\<open>big.Int.Uint64\<close>: the low 64 bits of the absolute value.\<close>

definition big_Uint64 :: "int \<Rightarrow> u64" where
  "big_Uint64 x = word_of_int \<bar>x\<bar>"

section \<open>Signed 64-bit wrap-around\<close>

definition wrap_i64 :: "int \<Rightarrow> int" where
  "wrap_i64 x = (x + 2 ^ 63) mod 2 ^ 64 - 2 ^ 63"

lemma wrap_i64_id [wrap_simps]: "- (2 ^ 63) \<le> x \<Longrightarrow> x < 2 ^ 63 \<Longrightarrow> wrap_i64 x = x"
  by (simp add: wrap_i64_def)

lemma wrap_i64_range: "- (2 ^ 63) \<le> wrap_i64 x \<and> wrap_i64 x < 2 ^ 63"
proof -
  have "0 \<le> (x + 2 ^ 63) mod 2 ^ 64" and "(x + 2 ^ 63) mod 2 ^ 64 < (2 ^ 64 :: int)"
    by (simp_all)
  then show ?thesis by (simp add: wrap_i64_def)
qed

section \<open>Strings\<close>

text \<open>\<open>strings.Split(s, sep)\<close> for a separator of one character.\<close>

fun split_on :: "char \<Rightarrow> string \<Rightarrow> string list" where
  "split_on c [] = [[]]"
| "split_on c (x # xs) =
     (if x = c then [] # split_on c xs
      else (case split_on c xs of [] \<Rightarrow> [[x]] | w # ws \<Rightarrow> (x # w) # ws))"

lemma split_on_nonempty: "split_on c xs \<noteq> []"
  by (cases xs) (auto split: list.splits)

text \<open>A non-empty run of decimal digits, as \<open>strconv.ParseUint\<close> in base 10 scans it.\<close>

definition digit_val :: "char \<Rightarrow> nat option" where
  "digit_val c =
     (let n = of_char c :: nat in if 48 \<le> n \<and> n \<le> 57 then Some (n - 48) else None)"

fun digits_val :: "nat \<Rightarrow> string \<Rightarrow> nat option" where
  "digits_val acc [] = Some acc"
| "digits_val acc (c # cs) =
     (case digit_val c of None \<Rightarrow> None | Some d \<Rightarrow> digits_val (10 * acc + d) cs)"

definition parse_digits :: "string \<Rightarrow> nat option" where
  "parse_digits s = (if s = [] then None else digits_val 0 s)"

text \<open>An optional sign followed by digits: \<open>big.Int.SetString(s, 10)\<close>.\<close>

definition big_SetString10 :: "string \<Rightarrow> int option" where
  "big_SetString10 s =
     (case s of
        [] \<Rightarrow> None
      | c # cs \<Rightarrow>
          if c = CHR ''-'' then map_option (\<lambda>n. - int n) (parse_digits cs)
          else if c = CHR ''+'' then map_option int (parse_digits cs)
          else map_option int (parse_digits s))"

text \<open>
  \<open>strconv.ParseInt(s, 10, 64)\<close>, and \<open>strconv.Atoi\<close>, whose \<open>int\<close> has 64 bits: \<open>None\<close> stands
  for a non-nil error (a syntax error or a value out of range).
\<close>

definition ParseInt64 :: "string \<Rightarrow> int option" where
  "ParseInt64 s =
     (case big_SetString10 s of
        None \<Rightarrow> None
      | Some n \<Rightarrow> if - (2 ^ 63) \<le> n \<and> n < 2 ^ 63 then Some n else None)"

lemma ParseInt64_range: "ParseInt64 s = Some n \<Longrightarrow> - (2 ^ 63) \<le> n \<and> n < 2 ^ 63"
  by (auto simp: ParseInt64_def split: option.splits if_splits)

section \<open>Unsigned 64-bit values\<close>

lemma unat_u64_lt: "unat (x :: u64) < 2 ^ 64"
  by (rule order_less_le_trans [OF unsigned_less]) simp

lemma uint_u64_lt: "uint (x :: u64) < 2 ^ 64"
  using uint_lt2p [of x] by simp

lemma uint_add_no_wrap [wrap_simps]:
  fixes a b :: u64
  assumes "uint a + uint b < 2 ^ 64"
  shows "uint (a + b) = uint a + uint b"
  using assms by (simp add: uint_word_ariths)

lemma uint_sub_no_wrap [wrap_simps]:
  fixes a b :: u64
  assumes "b \<le> a"
  shows "uint (a - b) = uint a - uint b"
  using assms by (simp add: uint_sub_if' word_le_def)

lemma alist_update_subset: "set (AList.update k v al) \<subseteq> insert (k, v) (set al)"
  by (induction al) auto

section \<open>Exchanging two elements\<close>

definition swap_at :: "'a list \<Rightarrow> nat \<Rightarrow> nat \<Rightarrow> 'a list" where
  "swap_at xs i j = xs[i := xs ! j, j := xs ! i]"

lemma length_swap_at [simp]: "length (swap_at xs i j) = length xs"
  by (simp add: swap_at_def)

lemma mset_swap_at [simp]: "i < length xs \<Longrightarrow> j < length xs \<Longrightarrow> mset (swap_at xs i j) = mset xs"
  unfolding swap_at_def by (metis mset_swap)

lemma nth_swap_at:
  "i < length xs \<Longrightarrow> j < length xs \<Longrightarrow> k < length xs \<Longrightarrow>
   swap_at xs i j ! k = (if k = j then xs ! i else if k = i then xs ! j else xs ! k)"
  by (simp add: swap_at_def nth_list_update)

end
