(* ===== verification/Chain_Config.thy ===== *)
theory Chain_Config
  imports Klaytn_Prelude
begin

text \<open>
  The chain configuration, \<open>params/config.go\<close>, and the block-number arithmetic of
  \<open>params/governance_params.go\<close>: the fork schedule, the activation tests, the order and
  compatibility checks on a schedule, the \<open>Rules\<close> record every other component reads, and
  the block whose staking information or proposer list a given block uses.
\<close>

section \<open>Configuration records\<close>

record RewardConfig =
  rc_MintingAmount :: "int option"
  rc_Ratio :: string
  rc_Kip82Ratio :: string
  rc_UseGiniCoeff :: bool
  rc_DeferredTxFee :: bool
  rc_StakingUpdateInterval :: u64
  rc_ProposerUpdateInterval :: u64
  rc_MinimumStake :: "int option"

record KIP71Config =
  k_LowerBoundBaseFee :: u64
  k_UpperBoundBaseFee :: u64
  k_GasTarget :: u64
  k_MaxBlockGasUsedForBaseFee :: u64
  k_BaseFeeDenominator :: u64

record GovernanceConfig =
  gc_GoverningNode :: address
  gc_GovernanceMode :: string
  gc_GovParamContract :: address
  gc_Reward :: "RewardConfig option"
  gc_KIP71 :: "KIP71Config option"

record IstanbulConfig =
  ic_Epoch :: u64
  ic_ProposerPolicy :: u64
  ic_SubGroupSize :: u64

record CliqueConfig =
  cc_Period :: u64
  cc_Epoch :: u64

record RegistryConfig =
  reg_Records :: "string \<rightharpoonup> address"
  reg_Owner :: address

record ChainConfig =
  ChainID :: "int option"
  IstanbulCompatibleBlock :: "int option"
  LondonCompatibleBlock :: "int option"
  EthTxTypeCompatibleBlock :: "int option"
  MagmaCompatibleBlock :: "int option"
  KoreCompatibleBlock :: "int option"
  ShanghaiCompatibleBlock :: "int option"
  CancunCompatibleBlock :: "int option"
  KaiaCompatibleBlock :: "int option"
  Kip103CompatibleBlock :: "int option"
  Kip103ContractAddress :: address
  Kip160CompatibleBlock :: "int option"
  Kip160ContractAddress :: address
  RandaoCompatibleBlock :: "int option"
  RandaoRegistry :: "RegistryConfig option"
  Gxhash :: "unit option"
  Clique :: "CliqueConfig option"
  Istanbul :: "IstanbulConfig option"
  cfg_UnitPrice :: u64
  cfg_DeriveShaImpl :: int
  Governance :: "GovernanceConfig option"

section \<open>Default configurations\<close>

abbreviation DefaultEpoch :: u64 where "DefaultEpoch \<equiv> 604800"
abbreviation DefaultSubGroupSize :: u64 where "DefaultSubGroupSize \<equiv> 21"
abbreviation DefaultStakeUpdateInterval :: u64 where "DefaultStakeUpdateInterval \<equiv> 86400"
abbreviation DefaultProposerRefreshInterval :: u64 where "DefaultProposerRefreshInterval \<equiv> 3600"

definition GetDefaultKIP71Config :: KIP71Config where
  "GetDefaultKIP71Config =
     \<lparr> k_LowerBoundBaseFee = 25000000000, k_UpperBoundBaseFee = 750000000000,
       k_GasTarget = 30000000, k_MaxBlockGasUsedForBaseFee = 60000000,
       k_BaseFeeDenominator = 20 \<rparr>"

definition GetDefaultRewardConfigForGenesis :: RewardConfig where
  "GetDefaultRewardConfigForGenesis =
     \<lparr> rc_MintingAmount = Some 0, rc_Ratio = ''100/0/0'', rc_Kip82Ratio = [],
       rc_UseGiniCoeff = False, rc_DeferredTxFee = False,
       rc_StakingUpdateInterval = DefaultStakeUpdateInterval,
       rc_ProposerUpdateInterval = DefaultProposerRefreshInterval,
       rc_MinimumStake = Some 2000000 \<rparr>"

definition GetDefaultRewardConfig :: RewardConfig where
  "GetDefaultRewardConfig =
     \<lparr> rc_MintingAmount = Some 0, rc_Ratio = ''100/0/0'', rc_Kip82Ratio = ''20/80'',
       rc_UseGiniCoeff = False, rc_DeferredTxFee = False,
       rc_StakingUpdateInterval = DefaultStakeUpdateInterval,
       rc_ProposerUpdateInterval = DefaultProposerRefreshInterval,
       rc_MinimumStake = Some 2000000 \<rparr>"

definition GetDefaultGovernanceConfigForGenesis :: GovernanceConfig where
  "GetDefaultGovernanceConfigForGenesis =
     \<lparr> gc_GoverningNode = 0, gc_GovernanceMode = ''none'', gc_GovParamContract = 0,
       gc_Reward = Some GetDefaultRewardConfigForGenesis, gc_KIP71 = None \<rparr>"

definition GetDefaultGovernanceConfig :: GovernanceConfig where
  "GetDefaultGovernanceConfig =
     \<lparr> gc_GoverningNode = 0, gc_GovernanceMode = ''none'', gc_GovParamContract = 0,
       gc_Reward = Some GetDefaultRewardConfig, gc_KIP71 = Some GetDefaultKIP71Config \<rparr>"

definition GetDefaultIstanbulConfig :: IstanbulConfig where
  "GetDefaultIstanbulConfig =
     \<lparr> ic_Epoch = DefaultEpoch, ic_ProposerPolicy = 0, ic_SubGroupSize = DefaultSubGroupSize \<rparr>"

definition GetDefaultCliqueConfig :: CliqueConfig where
  "GetDefaultCliqueConfig = \<lparr> cc_Period = 1, cc_Epoch = DefaultEpoch \<rparr>"

text \<open>The two update intervals are the package variables read by \<open>StakingUpdateInterval()\<close> and
  \<open>ProposerUpdateInterval()\<close>.\<close>

definition SetDefaultsForGenesis :: "u64 \<Rightarrow> u64 \<Rightarrow> ChainConfig \<Rightarrow> ChainConfig" where
  "SetDefaultsForGenesis stakingInterval proposerInterval c =
     (let c1 = (if Clique c = None \<and> Istanbul c = None
                then c\<lparr>Istanbul := Some GetDefaultIstanbulConfig\<rparr> else c);
          g = (case Governance c1 of None \<Rightarrow> GetDefaultGovernanceConfigForGenesis | Some g \<Rightarrow> g);
          r = (case gc_Reward g of None \<Rightarrow> GetDefaultRewardConfigForGenesis | Some r \<Rightarrow> r);
          r1 = (if rc_StakingUpdateInterval r = 0
                then r\<lparr>rc_StakingUpdateInterval := stakingInterval\<rparr> else r);
          r2 = (if rc_ProposerUpdateInterval r1 = 0
                then r1\<lparr>rc_ProposerUpdateInterval := proposerInterval\<rparr> else r1)
      in c1\<lparr>Governance := Some (g\<lparr>gc_Reward := Some r2\<rparr>)\<rparr>)"

definition SetDefaults :: "u64 \<Rightarrow> u64 \<Rightarrow> ChainConfig \<Rightarrow> ChainConfig" where
  "SetDefaults stakingInterval proposerInterval c =
     (let c1 = SetDefaultsForGenesis stakingInterval proposerInterval c
      in case Governance c1 of
           None \<Rightarrow> c1
         | Some g \<Rightarrow>
             let g1 = (case gc_KIP71 g of
                         None \<Rightarrow> g\<lparr>gc_KIP71 := Some GetDefaultKIP71Config\<rparr> | Some _ \<Rightarrow> g);
                 g2 = (case gc_Reward g1 of
                         None \<Rightarrow> g1
                       | Some r \<Rightarrow> if rc_Kip82Ratio r = []
                                  then g1\<lparr>gc_Reward := Some (r\<lparr>rc_Kip82Ratio := ''20/80''\<rparr>)\<rparr> else g1)
             in c1\<lparr>Governance := Some g2\<rparr>)"

section \<open>The fork schedule\<close>

definition isForked :: "int option \<Rightarrow> int option \<Rightarrow> bool" where
  "isForked s head = (case (s, head) of (Some a, Some b) \<Rightarrow> a \<le> b | _ \<Rightarrow> False)"

definition isForkBlock :: "int option \<Rightarrow> int option \<Rightarrow> bool" where
  "isForkBlock s head = (case (s, head) of (Some a, Some b) \<Rightarrow> a = b | _ \<Rightarrow> False)"

definition isForkBlockParent :: "int option \<Rightarrow> int option \<Rightarrow> bool" where
  "isForkBlockParent s head = (case (s, head) of (Some a, Some b) \<Rightarrow> a = b + 1 | _ \<Rightarrow> False)"

definition configNumEqual :: "int option \<Rightarrow> int option \<Rightarrow> bool" where
  "configNumEqual x y =
     (case x of None \<Rightarrow> y = None | Some a \<Rightarrow> (case y of None \<Rightarrow> False | Some b \<Rightarrow> a = b))"

definition isForkIncompatible :: "int option \<Rightarrow> int option \<Rightarrow> int option \<Rightarrow> bool" where
  "isForkIncompatible s1 s2 head =
     ((isForked s1 head \<or> isForked s2 head) \<and> \<not> configNumEqual s1 s2)"

definition IsIstanbulForkEnabled :: "ChainConfig \<Rightarrow> int option \<Rightarrow> bool" where
  "IsIstanbulForkEnabled c num = isForked (IstanbulCompatibleBlock c) num"

definition IsLondonForkEnabled :: "ChainConfig \<Rightarrow> int option \<Rightarrow> bool" where
  "IsLondonForkEnabled c num = isForked (LondonCompatibleBlock c) num"

definition IsEthTxTypeForkEnabled :: "ChainConfig \<Rightarrow> int option \<Rightarrow> bool" where
  "IsEthTxTypeForkEnabled c num = isForked (EthTxTypeCompatibleBlock c) num"

definition IsMagmaForkEnabled :: "ChainConfig \<Rightarrow> int option \<Rightarrow> bool" where
  "IsMagmaForkEnabled c num = isForked (MagmaCompatibleBlock c) num"

definition IsKoreForkEnabled :: "ChainConfig \<Rightarrow> int option \<Rightarrow> bool" where
  "IsKoreForkEnabled c num = isForked (KoreCompatibleBlock c) num"

definition IsShanghaiForkEnabled :: "ChainConfig \<Rightarrow> int option \<Rightarrow> bool" where
  "IsShanghaiForkEnabled c num = isForked (ShanghaiCompatibleBlock c) num"

definition IsCancunForkEnabled :: "ChainConfig \<Rightarrow> int option \<Rightarrow> bool" where
  "IsCancunForkEnabled c num = isForked (CancunCompatibleBlock c) num"

definition IsKaiaForkEnabled :: "ChainConfig \<Rightarrow> int option \<Rightarrow> bool" where
  "IsKaiaForkEnabled c num = isForked (KaiaCompatibleBlock c) num"

definition IsRandaoForkEnabled :: "ChainConfig \<Rightarrow> int option \<Rightarrow> bool" where
  "IsRandaoForkEnabled c num = isForked (RandaoCompatibleBlock c) num"

definition IsKIP103ForkBlock :: "ChainConfig \<Rightarrow> int option \<Rightarrow> bool" where
  "IsKIP103ForkBlock c num = isForkBlock (Kip103CompatibleBlock c) num"

definition IsKIP160ForkBlock :: "ChainConfig \<Rightarrow> int option \<Rightarrow> bool" where
  "IsKIP160ForkBlock c num = isForkBlock (Kip160CompatibleBlock c) num"

definition IsRandaoForkBlockParent :: "ChainConfig \<Rightarrow> int option \<Rightarrow> bool" where
  "IsRandaoForkBlockParent c num = isForkBlockParent (RandaoCompatibleBlock c) num"

definition IsRandaoForkBlock :: "ChainConfig \<Rightarrow> int option \<Rightarrow> bool" where
  "IsRandaoForkBlock c num = isForkBlock (RandaoCompatibleBlock c) num"

definition IsKaiaForkBlockParent :: "ChainConfig \<Rightarrow> int option \<Rightarrow> bool" where
  "IsKaiaForkBlockParent c num = isForkBlockParent (KaiaCompatibleBlock c) num"

lemmas fork_enabled_defs =
  IsIstanbulForkEnabled_def IsLondonForkEnabled_def IsEthTxTypeForkEnabled_def
  IsMagmaForkEnabled_def IsKoreForkEnabled_def IsShanghaiForkEnabled_def
  IsCancunForkEnabled_def IsKaiaForkEnabled_def IsRandaoForkEnabled_def

record Rules =
  rules_ChainID :: int
  IsIstanbul :: bool
  IsLondon :: bool
  IsEthTxType :: bool
  IsMagma :: bool
  IsKore :: bool
  IsShanghai :: bool
  IsCancun :: bool
  IsKaia :: bool
  IsRandao :: bool

definition config_Rules :: "ChainConfig \<Rightarrow> int option \<Rightarrow> Rules" where
  "config_Rules c num =
     \<lparr> rules_ChainID = (case ChainID c of None \<Rightarrow> 0 | Some i \<Rightarrow> i),
       IsIstanbul = IsIstanbulForkEnabled c num,
       IsLondon = IsLondonForkEnabled c num,
       IsEthTxType = IsEthTxTypeForkEnabled c num,
       IsMagma = IsMagmaForkEnabled c num,
       IsKore = IsKoreForkEnabled c num,
       IsShanghai = IsShanghaiForkEnabled c num,
       IsCancun = IsCancunForkEnabled c num,
       IsKaia = IsKaiaForkEnabled c num,
       IsRandao = IsRandaoForkEnabled c num \<rparr>"

section \<open>Fork order\<close>

record fork =
  fork_name :: string
  fork_block :: "int option"
  fork_optional :: bool

datatype fork_order_error =
    NotEnabledButEnabled string string int
  | EnabledAtButEnabledAt string int string int

text \<open>The loop of \<open>CheckConfigForkOrder\<close>: \<open>None\<close> for \<open>lastFork\<close> is the zero value with an
  empty name, which skips the comparison.\<close>

fun fork_order_loop :: "fork option \<Rightarrow> fork list \<Rightarrow> fork_order_error option" where
  "fork_order_loop lastFork [] = None"
| "fork_order_loop lastFork (cur # rest) =
     (let continue_with = fork_order_loop
        (if \<not> fork_optional cur \<or> fork_block cur \<noteq> None then Some cur else lastFork) rest
      in case lastFork of
           None \<Rightarrow> continue_with
         | Some l \<Rightarrow>
             (case (fork_block l, fork_block cur) of
                (None, Some b) \<Rightarrow> Some (NotEnabledButEnabled (fork_name l) (fork_name cur) b)
              | (Some a, Some b) \<Rightarrow>
                  if a > b then Some (EnabledAtButEnabledAt (fork_name l) a (fork_name cur) b)
                  else continue_with
              | _ \<Rightarrow> continue_with))"

definition fork_list :: "ChainConfig \<Rightarrow> fork list" where
  "fork_list c =
     [ \<lparr>fork_name = ''istanbulBlock'', fork_block = IstanbulCompatibleBlock c, fork_optional = False\<rparr>,
       \<lparr>fork_name = ''londonBlock'', fork_block = LondonCompatibleBlock c, fork_optional = False\<rparr>,
       \<lparr>fork_name = ''ethTxTypeBlock'', fork_block = EthTxTypeCompatibleBlock c, fork_optional = False\<rparr>,
       \<lparr>fork_name = ''magmaBlock'', fork_block = MagmaCompatibleBlock c, fork_optional = False\<rparr>,
       \<lparr>fork_name = ''koreBlock'', fork_block = KoreCompatibleBlock c, fork_optional = False\<rparr>,
       \<lparr>fork_name = ''shanghaiBlock'', fork_block = ShanghaiCompatibleBlock c, fork_optional = False\<rparr>,
       \<lparr>fork_name = ''cancunBlock'', fork_block = CancunCompatibleBlock c, fork_optional = False\<rparr>,
       \<lparr>fork_name = ''randaoBlock'', fork_block = RandaoCompatibleBlock c, fork_optional = True\<rparr>,
       \<lparr>fork_name = ''kaiaBlock'', fork_block = KaiaCompatibleBlock c, fork_optional = False\<rparr> ]"

definition CheckConfigForkOrder :: "ChainConfig \<Rightarrow> fork_order_error option" where
  "CheckConfigForkOrder c = fork_order_loop None (fork_list c)"

section \<open>Compatibility of two schedules\<close>

record ConfigCompatError =
  What :: string
  StoredConfig :: "int option"
  NewConfig :: "int option"
  RewindTo :: u64

definition newCompatError :: "string \<Rightarrow> int option \<Rightarrow> int option \<Rightarrow> ConfigCompatError" where
  "newCompatError what storedblock newblock =
     (let rew = (case storedblock of
                   None \<Rightarrow> newblock
                 | Some s \<Rightarrow> (case newblock of
                               None \<Rightarrow> storedblock
                             | Some n \<Rightarrow> if s < n then storedblock else newblock))
      in \<lparr> What = what, StoredConfig = storedblock, NewConfig = newblock,
           RewindTo = (case rew of None \<Rightarrow> 0 | Some r \<Rightarrow> if r > 0 then word_of_int r - 1 else 0) \<rparr>)"

definition checkCompatible ::
    "ChainConfig \<Rightarrow> ChainConfig \<Rightarrow> int option \<Rightarrow> ConfigCompatError option" where
  "checkCompatible c newcfg head =
     (if isForkIncompatible (IstanbulCompatibleBlock c) (IstanbulCompatibleBlock newcfg) head
      then Some (newCompatError ''Istanbul Block'' (IstanbulCompatibleBlock c) (IstanbulCompatibleBlock newcfg))
      else if isForkIncompatible (LondonCompatibleBlock c) (LondonCompatibleBlock newcfg) head
      then Some (newCompatError ''London Block'' (LondonCompatibleBlock c) (LondonCompatibleBlock newcfg))
      else if isForkIncompatible (EthTxTypeCompatibleBlock c) (EthTxTypeCompatibleBlock newcfg) head
      then Some (newCompatError ''EthTxType Block'' (EthTxTypeCompatibleBlock c) (EthTxTypeCompatibleBlock newcfg))
      else if isForkIncompatible (MagmaCompatibleBlock c) (MagmaCompatibleBlock newcfg) head
      then Some (newCompatError ''Magma Block'' (MagmaCompatibleBlock c) (MagmaCompatibleBlock newcfg))
      else if isForkIncompatible (KoreCompatibleBlock c) (KoreCompatibleBlock newcfg) head
      then Some (newCompatError ''Kore Block'' (KoreCompatibleBlock c) (KoreCompatibleBlock newcfg))
      else if isForkIncompatible (ShanghaiCompatibleBlock c) (ShanghaiCompatibleBlock newcfg) head
      then Some (newCompatError ''Shanghai Block'' (ShanghaiCompatibleBlock c) (ShanghaiCompatibleBlock newcfg))
      else if isForkIncompatible (CancunCompatibleBlock c) (CancunCompatibleBlock newcfg) head
      then Some (newCompatError ''Cancun Block'' (CancunCompatibleBlock c) (CancunCompatibleBlock newcfg))
      else if isForkIncompatible (KaiaCompatibleBlock c) (KaiaCompatibleBlock newcfg) head
      then Some (newCompatError ''Kaia Block'' (KaiaCompatibleBlock c) (KaiaCompatibleBlock newcfg))
      else if isForkIncompatible (RandaoCompatibleBlock c) (RandaoCompatibleBlock newcfg) head
      then Some (newCompatError ''Randao Block'' (RandaoCompatibleBlock c) (RandaoCompatibleBlock newcfg))
      else None)"

text \<open>A conflict below the head lies strictly below it once rewound to.\<close>

lemma newCompatError_rewind:
  assumes "isForkIncompatible s n (Some (uint (h :: u64)))"
  shows "RewindTo (newCompatError w s n) < h \<or> RewindTo (newCompatError w s n) = 0"
proof -
  have low: "word_of_int r - 1 < h" if "0 < r" "r \<le> uint h" for r :: int
  proof -
    have "uint (word_of_int r :: u64) = r"
      using that uint_u64_lt [of h] by (simp add: word_of_int_inverse uint_word_of_int)
    moreover have "(1 :: u64) \<le> word_of_int r"
      using that calculation by (simp add: word_le_def)
    ultimately have "uint (word_of_int r - 1 :: u64) = r - 1"
      by (simp add: wrap_simps)
    then show ?thesis using that by (simp add: word_less_def)
  qed
  from assms show ?thesis
    by (auto simp: isForkIncompatible_def isForked_def configNumEqual_def newCompatError_def
        split: option.splits intro: low)
qed

lemma checkCompatible_rewind:
  assumes "checkCompatible c n (Some (uint (h :: u64))) = Some e"
  shows "RewindTo e < h \<or> RewindTo e = 0"
  using assms unfolding checkCompatible_def
  by (auto split: if_splits dest: newCompatError_rewind)

text \<open>The loop of \<open>CheckCompatible\<close>; \<open>bhead\<close> always holds a \<open>uint64\<close>.\<close>

function CheckCompatible_loop ::
    "ChainConfig \<Rightarrow> ChainConfig \<Rightarrow> u64 \<Rightarrow> ConfigCompatError option \<Rightarrow> ConfigCompatError option" where
  "CheckCompatible_loop c newcfg bhead lasterr =
     (case checkCompatible c newcfg (Some (uint bhead)) of
        None \<Rightarrow> lasterr
      | Some err \<Rightarrow>
          if (case lasterr of None \<Rightarrow> False | Some l \<Rightarrow> RewindTo err = RewindTo l) then lasterr
          else CheckCompatible_loop c newcfg (RewindTo err) (Some err))"
  by pat_completeness auto
termination
proof (relation "measure (\<lambda>(c, n, h, l). 2 * unat h +
    (case l of None \<Rightarrow> 1 | Some e \<Rightarrow> if RewindTo e = 0 then 0 else 1))", goal_cases)
  case 1
  show ?case by simp
next
  case (2 c n h l err)
  then have "RewindTo err < h \<or> RewindTo err = 0" by (auto dest: checkCompatible_rewind)
  with 2(2) show ?case
    by (cases "h = 0") (auto simp: word_less_nat_alt unat_gt_0 split: option.splits)
qed

declare CheckCompatible_loop.simps [simp del]

definition CheckCompatible :: "ChainConfig \<Rightarrow> ChainConfig \<Rightarrow> u64 \<Rightarrow> ConfigCompatError option" where
  "CheckCompatible c newcfg height = CheckCompatible_loop c newcfg height None"

section \<open>Update intervals\<close>

text \<open>The intervals are the atomically stored package variables; a zero interval makes the
  remainder panic, which is \<open>None\<close>.\<close>

definition u64_rem :: "u64 \<Rightarrow> u64 \<Rightarrow> u64 option" where
  "u64_rem a b = (if b = 0 then None else Some (a mod b))"

definition IsStakingUpdateInterval :: "u64 \<Rightarrow> u64 \<Rightarrow> bool option" where
  "IsStakingUpdateInterval stakingInterval blockNum =
     map_option (\<lambda>r. r = 0) (u64_rem blockNum stakingInterval)"

definition CalcStakingBlockNumber :: "u64 \<Rightarrow> u64 \<Rightarrow> u64 option" where
  "CalcStakingBlockNumber stakingInterval blockNum =
     (if blockNum \<le> 2 * stakingInterval then Some 0
      else (case u64_rem blockNum stakingInterval of
              None \<Rightarrow> None
            | Some r \<Rightarrow>
                if r = 0 then Some (blockNum - 2 * stakingInterval)
                else Some (blockNum - stakingInterval - r)))"

definition IsProposerUpdateInterval :: "u64 \<Rightarrow> u64 \<Rightarrow> (bool \<times> u64) option" where
  "IsProposerUpdateInterval proposerInterval blockNum =
     map_option (\<lambda>r. (r = 0, proposerInterval)) (u64_rem blockNum proposerInterval)"

definition CalcProposerBlockNumber :: "u64 \<Rightarrow> u64 \<Rightarrow> u64 option" where
  "CalcProposerBlockNumber proposerInterval blockNum =
     (case IsProposerUpdateInterval proposerInterval blockNum of
        None \<Rightarrow> None
      | Some (isInterval, i) \<Rightarrow>
          if isInterval then Some (blockNum - i)
          else map_option (\<lambda>r. blockNum - r) (u64_rem blockNum i))"


section \<open>What a checked fork order guarantees\<close>

abbreviation fork_implies :: "int option \<Rightarrow> fork \<Rightarrow> fork \<Rightarrow> bool" where
  "fork_implies num f g \<equiv>
     (fork_optional f \<and> fork_block f = None) \<or>
     (isForked (fork_block g) num \<longrightarrow> isForked (fork_block f) num)"

lemma isForked_mono: "a \<le> b \<Longrightarrow> isForked (Some b) num \<Longrightarrow> isForked (Some a) num"
  by (auto simp: isForked_def split: option.splits)

lemma not_isForked_None [simp]: "\<not> isForked None num"
  by (simp add: isForked_def)

lemma fork_order_loop_last:
  assumes "fork_order_loop (Some l) fs = None" and "g \<in> set fs" and "isForked (fork_block g) num"
  shows "isForked (fork_block l) num"
  using assms
proof (induction fs arbitrary: l)
  case (Cons cur rest)
  show ?case
  proof (cases "fork_block cur")
    case None
    with Cons.prems(1) have "fork_order_loop (Some (if fork_optional cur then l else cur)) rest = None"
      by (auto simp: Let_def split: if_splits option.splits)
    with Cons.IH [of "if fork_optional cur then l else cur"] Cons.prems(2,3) None show ?thesis
      by (auto split: if_splits)
  next
    case (Some b)
    with Cons.prems(1) obtain a where a: "fork_block l = Some a" "a \<le> b"
      and rest: "fork_order_loop (Some cur) rest = None"
      by (auto simp: Let_def split: if_splits option.splits)
    have "isForked (fork_block cur) num"
      using Cons.prems(2,3) Cons.IH [OF rest] by auto
    with a Some show ?thesis by (simp add: isForked_mono)
  qed
qed simp

lemma fork_order_loop_sorted:
  "fork_order_loop l fs = None \<Longrightarrow> sorted_wrt (fork_implies num) fs"
proof (induction fs arbitrary: l)
  case (Cons cur rest)
  let ?next = "if \<not> fork_optional cur \<or> fork_block cur \<noteq> None then Some cur else l"
  from Cons.prems have rest: "fork_order_loop ?next rest = None"
    by (auto simp: Let_def split: if_splits option.splits)
  have "fork_implies num cur g" if "g \<in> set rest" for g
    using that rest fork_order_loop_last [of cur rest g num] by (auto split: if_splits)
  with Cons.IH [OF rest] show ?case by simp
qed simp

text \<open>C32: a fork schedule accepted by \<open>CheckConfigForkOrder\<close> activates its forks in order at
  every block number: \<open>Rules\<close> never reports a later fork without the earlier ones, and Kaia
  implies Randao exactly when the optional Randao fork is scheduled.\<close>

theorem config_Rules_ordered:
  assumes "CheckConfigForkOrder c = None"
  shows "let r = config_Rules c num in
      (IsLondon r \<longrightarrow> IsIstanbul r) \<and> (IsEthTxType r \<longrightarrow> IsLondon r) \<and>
      (IsMagma r \<longrightarrow> IsEthTxType r) \<and> (IsKore r \<longrightarrow> IsMagma r) \<and>
      (IsShanghai r \<longrightarrow> IsKore r) \<and> (IsCancun r \<longrightarrow> IsShanghai r) \<and>
      (IsRandao r \<longrightarrow> IsCancun r) \<and> (IsKaia r \<longrightarrow> IsCancun r) \<and>
      (RandaoCompatibleBlock c \<noteq> None \<longrightarrow> IsKaia r \<longrightarrow> IsRandao r)"
proof -
  have "sorted_wrt (fork_implies num) (fork_list c)"
    using assms unfolding CheckConfigForkOrder_def by (rule fork_order_loop_sorted)
  note pair = sorted_wrt_nth_less [OF this]
  show ?thesis
    using pair [of 0 1] pair [of 1 2] pair [of 2 3] pair [of 3 4] pair [of 4 5] pair [of 5 6]
      pair [of 6 7] pair [of 6 8] pair [of 7 8]
    by (simp add: fork_list_def config_Rules_def fork_enabled_defs Let_def) auto
qed

definition example_config :: ChainConfig where
  "example_config =
     \<lparr> ChainID = Some 8217, IstanbulCompatibleBlock = Some 86816005,
       LondonCompatibleBlock = Some 86816005, EthTxTypeCompatibleBlock = Some 86816005,
       MagmaCompatibleBlock = Some 99841497, KoreCompatibleBlock = Some 119750400,
       ShanghaiCompatibleBlock = Some 135456000, CancunCompatibleBlock = Some 147534000,
       KaiaCompatibleBlock = Some 162900480, Kip103CompatibleBlock = None,
       Kip103ContractAddress = 0, Kip160CompatibleBlock = None, Kip160ContractAddress = 0,
       RandaoCompatibleBlock = None, RandaoRegistry = None, Gxhash = None, Clique = None,
       Istanbul = None, cfg_UnitPrice = 0, cfg_DeriveShaImpl = 0, Governance = None \<rparr>"

theorem config_Rules_ordered_witness:
  "CheckConfigForkOrder example_config = None \<and>
   IsKaia (config_Rules example_config (Some 162900480)) \<and>
   IsCancun (config_Rules example_config (Some 162900480))"
proof -
  have order: "CheckConfigForkOrder example_config = None"
    by (simp add: CheckConfigForkOrder_def fork_list_def example_config_def)
  have kaia: "IsKaia (config_Rules example_config (Some 162900480))"
    by (simp add: config_Rules_def fork_enabled_defs isForked_def example_config_def)
  show ?thesis
    using config_Rules_ordered [OF order, of "Some 162900480"] order kaia by (simp add: Let_def)
qed

section \<open>The rewind target of a conflicting schedule\<close>

definition fork_pairs :: "ChainConfig \<Rightarrow> ChainConfig \<Rightarrow> (string \<times> int option \<times> int option) list" where
  "fork_pairs c n =
     [(''Istanbul Block'', IstanbulCompatibleBlock c, IstanbulCompatibleBlock n),
      (''London Block'', LondonCompatibleBlock c, LondonCompatibleBlock n),
      (''EthTxType Block'', EthTxTypeCompatibleBlock c, EthTxTypeCompatibleBlock n),
      (''Magma Block'', MagmaCompatibleBlock c, MagmaCompatibleBlock n),
      (''Kore Block'', KoreCompatibleBlock c, KoreCompatibleBlock n),
      (''Shanghai Block'', ShanghaiCompatibleBlock c, ShanghaiCompatibleBlock n),
      (''Cancun Block'', CancunCompatibleBlock c, CancunCompatibleBlock n),
      (''Kaia Block'', KaiaCompatibleBlock c, KaiaCompatibleBlock n),
      (''Randao Block'', RandaoCompatibleBlock c, RandaoCompatibleBlock n)]"

lemma checkCompatible_find:
  "checkCompatible c n head =
     map_option (\<lambda>(w, s, t). newCompatError w s t)
       (List.find (\<lambda>(w, s, t). isForkIncompatible s t head) (fork_pairs c n))"
  by (simp add: checkCompatible_def fork_pairs_def)

lemma checkCompatible_None_iff:
  "checkCompatible c n head = None \<longleftrightarrow>
     (\<forall>(w, s, t) \<in> set (fork_pairs c n). \<not> isForkIncompatible s t head)"
  by (auto simp: checkCompatible_find find_None_iff)

lemma checkCompatible_SomeE:
  assumes "checkCompatible c n head = Some e"
  obtains w s t where "e = newCompatError w s t" "(w, s, t) \<in> set (fork_pairs c n)"
    "isForkIncompatible s t head"
proof -
  from assms obtain p where "List.find (\<lambda>(w, s, t). isForkIncompatible s t head) (fork_pairs c n) = Some p"
    and "e = (\<lambda>(w, s, t). newCompatError w s t) p"
    by (auto simp: checkCompatible_find)
  then show ?thesis
    using that by (cases p) (force simp: find_Some_iff in_set_conv_nth)
qed

lemma isForkIncompatible_mono:
  "isForkIncompatible s t (Some a) \<Longrightarrow> a \<le> b \<Longrightarrow> isForkIncompatible s t (Some b)"
  by (auto simp: isForkIncompatible_def isForked_def split: option.splits)

lemma checkCompatible_antimono:
  "checkCompatible c n (Some b) = None \<Longrightarrow> a \<le> b \<Longrightarrow> checkCompatible c n (Some a) = None"
  unfolding checkCompatible_None_iff by (blast dest: isForkIncompatible_mono)

lemma newCompatError_above:
  assumes inc: "isForkIncompatible s t (Some (uint (h :: u64)))"
    and above: "RewindTo (newCompatError w s t) < k"
  shows "isForkIncompatible s t (Some (uint k))"
proof -
  have low: "r \<le> uint k" if "word_of_int r - 1 < k" "0 < r" "r \<le> uint h" for r :: int
  proof -
    have "uint (word_of_int r :: u64) = r"
      using that uint_u64_lt [of h] by (simp add: uint_word_of_int)
    moreover have "(1 :: u64) \<le> word_of_int r"
      using that calculation by (simp add: word_le_def)
    ultimately have "uint (word_of_int r - 1 :: u64) = r - 1"
      by (simp add: wrap_simps)
    with that show ?thesis by (simp add: word_less_def)
  qed
  have le: "r \<le> uint k" if "(if 0 < r then word_of_int r - 1 else 0) < k" "r \<le> uint h" for r :: int
    using that low [of r] order_trans [OF _ uint_ge_0 [of k], of r] by (cases "0 < r") auto
  show ?thesis
  proof (cases s)
    case None
    with inc above le show ?thesis
      by (cases t) (auto simp: isForkIncompatible_def isForked_def configNumEqual_def newCompatError_def)
  next
    case (Some a)
    show ?thesis
    proof (cases t)
      case None
      with Some inc above le [of a] show ?thesis
        by (simp add: isForkIncompatible_def isForked_def configNumEqual_def newCompatError_def)
    next
      case t: (Some b)
      with Some inc have "a \<noteq> b" and "min a b \<le> uint h"
        by (auto simp: isForkIncompatible_def isForked_def configNumEqual_def)
      moreover have "RewindTo (newCompatError w s t) = (if 0 < min a b then word_of_int (min a b) - 1 else 0)"
        using Some t by (simp add: newCompatError_def min_def)
      ultimately have "min a b \<le> uint k" using above le [of "min a b"] by simp
      with Some t \<open>a \<noteq> b\<close> show ?thesis
        by (auto simp: isForkIncompatible_def isForked_def configNumEqual_def min_def split: if_splits)
    qed
  qed
qed

lemma checkCompatible_above:
  assumes "checkCompatible c n (Some (uint (h :: u64))) = Some e" and "RewindTo e < k"
  shows "checkCompatible c n (Some (uint k)) \<noteq> None"
proof -
  obtain w s t where "e = newCompatError w s t" "(w, s, t) \<in> set (fork_pairs c n)"
    "isForkIncompatible s t (Some (uint h))"
    using assms(1) by (rule checkCompatible_SomeE)
  with assms(2) have "isForkIncompatible s t (Some (uint k))"
    by (blast intro: newCompatError_above)
  with \<open>(w, s, t) \<in> set (fork_pairs c n)\<close> show ?thesis
    unfolding checkCompatible_None_iff by blast
qed

lemma CheckCompatible_loop_result:
  assumes "CheckCompatible_loop c n h l = Some e"
    and "\<And>e'. l = Some e' \<Longrightarrow> RewindTo e' = h \<and> (\<exists>h'. checkCompatible c n (Some (uint (h' :: u64))) = Some e')"
  shows "(\<exists>h'. checkCompatible c n (Some (uint (h' :: u64))) = Some e) \<and>
    (RewindTo e = 0 \<or> checkCompatible c n (Some (uint (RewindTo e))) = None)"
  using assms
proof (induction c n h l rule: CheckCompatible_loop.induct)
  case (1 c n h l)
  show ?case
  proof (cases "checkCompatible c n (Some (uint h))")
    case None
    with 1(2,3) show ?thesis by (auto simp: CheckCompatible_loop.simps [of c n h l])
  next
    case (Some err)
    note low = checkCompatible_rewind [OF Some]
    show ?thesis
    proof (cases "case l of None \<Rightarrow> False | Some l \<Rightarrow> RewindTo err = RewindTo l")
      case True
      with 1(2) Some have "l = Some e" and "RewindTo err = RewindTo e"
        by (auto simp: CheckCompatible_loop.simps [of c n h l] split: option.splits)
      with 1(3) low show ?thesis by auto
    next
      case False
      with 1(2) Some have "CheckCompatible_loop c n (RewindTo err) (Some err) = Some e"
        by (simp add: CheckCompatible_loop.simps [of c n h l])
      then show ?thesis by (rule 1(1) [OF Some False]) (use Some in auto)
    qed
  qed
qed

lemma CheckCompatible_loop_Some: "CheckCompatible_loop c n h (Some l) \<noteq> None"
proof (induction c n h "Some l" arbitrary: l rule: CheckCompatible_loop.induct)
  case (1 c n h)
  then show ?case
    by (auto simp: CheckCompatible_loop.simps [of c n h "Some l"] split: option.splits)
qed

lemma CheckCompatible_None_iff:
  "CheckCompatible c n h = None \<longleftrightarrow> checkCompatible c n (Some (uint h)) = None"
  unfolding CheckCompatible_def
  by (subst CheckCompatible_loop.simps)
    (auto split: option.splits simp: CheckCompatible_loop_Some)

text \<open>C23: \<open>CheckCompatible\<close> terminates and reports the lowest conflict: the two schedules are
  incompatible at the given height exactly when it returns an error, every head above the
  reported rewind target is incompatible, and every head up to it is compatible unless the
  target is the genesis block.\<close>

theorem CheckCompatible_lowest_conflict:
  "(CheckCompatible c n h = None \<longleftrightarrow> checkCompatible c n (Some (uint h)) = None) \<and>
   (\<forall>e. CheckCompatible c n h = Some e \<longrightarrow>
      (\<forall>k. RewindTo e < k \<longrightarrow> checkCompatible c n (Some (uint k)) \<noteq> None) \<and>
      (RewindTo e \<noteq> 0 \<longrightarrow> (\<forall>k \<le> RewindTo e. checkCompatible c n (Some (uint k)) = None)))"
proof (intro conjI allI impI)
  show "CheckCompatible c n h = None \<longleftrightarrow> checkCompatible c n (Some (uint h)) = None"
    by (rule CheckCompatible_None_iff)
next
  fix e assume e: "CheckCompatible c n h = Some e"
  then have res: "(\<exists>h'. checkCompatible c n (Some (uint (h' :: u64))) = Some e) \<and>
      (RewindTo e = 0 \<or> checkCompatible c n (Some (uint (RewindTo e))) = None)"
    unfolding CheckCompatible_def by (rule CheckCompatible_loop_result) simp
  show "checkCompatible c n (Some (uint k)) \<noteq> None" if "RewindTo e < k" for k
    using res that checkCompatible_above by blast
  show "checkCompatible c n (Some (uint k)) = None" if "RewindTo e \<noteq> 0" "k \<le> RewindTo e" for k
    using res that by (auto simp: word_le_def intro: checkCompatible_antimono)
qed

theorem CheckCompatible_lowest_conflict_witness:
  "CheckCompatible example_config (example_config\<lparr>MagmaCompatibleBlock := Some 10\<rparr>) 20
     = Some \<lparr>What = ''Magma Block'', StoredConfig = Some 99841497, NewConfig = Some 10, RewindTo = 9\<rparr> \<and>
   checkCompatible example_config (example_config\<lparr>MagmaCompatibleBlock := Some 10\<rparr>) (Some 9) = None"
proof -
  let ?n = "example_config\<lparr>MagmaCompatibleBlock := Some 10\<rparr>"
  let ?e = "\<lparr>What = ''Magma Block'', StoredConfig = Some 99841497, NewConfig = Some 10, RewindTo = 9 :: u64\<rparr>"
  note evals = checkCompatible_def isForkIncompatible_def isForked_def configNumEqual_def
    newCompatError_def example_config_def
  have at20: "checkCompatible example_config ?n (Some 20) = Some ?e"
    and at9: "checkCompatible example_config ?n (Some 9) = None"
    by (simp_all add: evals)
  have res: "CheckCompatible example_config ?n 20 = Some ?e"
    unfolding CheckCompatible_def
    by (subst CheckCompatible_loop.simps, simp add: at20, subst CheckCompatible_loop.simps)
      (simp add: at9)
  have "checkCompatible example_config ?n (Some (uint (9 :: u64))) = None"
    using CheckCompatible_lowest_conflict [of example_config ?n 20] res by auto
  then show ?thesis using res by simp
qed


section \<open>Which block a staking or proposer lookup refers to\<close>



end
