(* ===== verification/Block_Types.thy ===== *)
theory Block_Types
  imports Chain_Config
begin

text \<open>
  The block header of \<open>blockchain/types/block.go\<close>, and the fee side of a transaction and a
  receipt (\<open>blockchain/types/transaction.go\<close>, \<open>receipt.go\<close>): the price, tip cap and fee cap
  of the transaction's internal data and the effective tip and price they give.
\<close>

record Header =
  ParentHash :: hash
  Rewardbase :: address
  Root :: hash
  TxHash :: hash
  ReceiptHash :: hash
  Bloom :: "2048 word"
  BlockScore :: int
  Number :: int
  GasUsed :: u64
  Time :: int
  TimeFoS :: u8
  Extra :: bytes
  hdr_Governance :: bytes
  hdr_Vote :: bytes
  BaseFee :: "int option"
  RandomReveal :: bytes
  MixHash :: bytes

text \<open>The fee fields of \<open>TxInternalData\<close>; the two caps are read only when the type is
  \<open>TxTypeEthereumDynamicFee\<close>.\<close>

record Transaction =
  tx_IsDynamicFee :: bool
  tx_Price :: int
  tx_GasTipCap :: int
  tx_GasFeeCap :: int

record Receipt =
  receipt_GasUsed :: u64

definition GasTipCap :: "Transaction \<Rightarrow> int" where
  "GasTipCap tx = (if tx_IsDynamicFee tx then tx_GasTipCap tx else tx_Price tx)"

definition GasFeeCap :: "Transaction \<Rightarrow> int" where
  "GasFeeCap tx = (if tx_IsDynamicFee tx then tx_GasFeeCap tx else tx_Price tx)"

definition EffectiveGasTip :: "Transaction \<Rightarrow> int option \<Rightarrow> int" where
  "EffectiveGasTip tx baseFee =
     (case baseFee of
        Some b \<Rightarrow> (let tip = max 0 (GasFeeCap tx - b) in min (GasTipCap tx) tip)
      | None \<Rightarrow> GasTipCap tx)"

definition EffectiveGasPrice :: "Transaction \<Rightarrow> Header option \<Rightarrow> ChainConfig \<Rightarrow> int" where
  "EffectiveGasPrice tx header config =
     (case header of
        None \<Rightarrow> tx_Price tx
      | Some h \<Rightarrow>
          (case BaseFee h of
             None \<Rightarrow> tx_Price tx
           | Some b \<Rightarrow>
               if IsKaia (config_Rules config (Some (Number h))) then EffectiveGasTip tx (Some b) + b
               else b))"

lemma EffectiveGasTip_bounds:
  assumes "0 \<le> GasTipCap tx"
  shows "0 \<le> EffectiveGasTip tx b \<and> EffectiveGasTip tx b \<le> GasTipCap tx"
  using assms by (auto simp: EffectiveGasTip_def Let_def split: option.splits)

end
