(* ===== verification/Base_Fee.thy ===== *)
theory Base_Fee
  imports Block_Types
begin

text \<open>
  The dynamic base fee of KIP-71, \<open>consensus/misc/kip71.go\<close>. The Go code passes
  \<open>*big.Int\<close> pointers around and \<open>makeEvenByFloor\<close> writes through the one it is given,
  so \<open>nextBlockBaseFee\<close> returns which object it hands back (a bound, the parent header's own
  \<open>BaseFee\<close>, or a fresh number) and \<open>NextMagmaBlockBaseFee\<close> returns the parent header as
  the write leaves it. A division by a zero gas target panics and is \<open>None\<close>.
\<close>

datatype feeRef = RefLower | RefUpper | RefParent | RefNew int

definition makeEvenByFloor :: "int \<Rightarrow> int" where
  "makeEvenByFloor baseFee = (if baseFee mod 2 \<noteq> 0 then baseFee - 1 else baseFee)"

definition makeEvenByCeil :: "int \<Rightarrow> int" where
  "makeEvenByCeil baseFee = (if baseFee mod 2 \<noteq> 0 then baseFee + 1 else baseFee)"

text \<open>\<open>big.Int.Div\<close>: Euclidean division, which panics on a zero divisor.\<close>

definition big_Div :: "int \<Rightarrow> int \<Rightarrow> int option" where
  "big_Div x y = (if y = 0 then None else Some (sgn y * (x div \<bar>y\<bar>)))"

fun deref_fee :: "int \<Rightarrow> int \<Rightarrow> int \<Rightarrow> feeRef \<Rightarrow> int" where
  "deref_fee lower upper parent RefLower = lower"
| "deref_fee lower upper parent RefUpper = upper"
| "deref_fee lower upper parent RefParent = parent"
| "deref_fee lower upper parent (RefNew n) = n"

definition nextBlockBaseFee :: "Header \<Rightarrow> KIP71Config \<Rightarrow> int \<Rightarrow> int \<Rightarrow> feeRef option" where
  "nextBlockBaseFee parentHeader kip71Config lowerBoundBaseFee upperBoundBaseFee =
     (case BaseFee parentHeader of
        None \<Rightarrow> Some RefLower
      | Some headerBaseFee \<Rightarrow>
          if Number parentHeader = 0 then Some RefLower
          else
            let baseFeeDenominator =
                  (if k_BaseFeeDenominator kip71Config = 0 then 64
                   else uint (k_BaseFeeDenominator kip71Config));
                gasTarget = k_GasTarget kip71Config;
                upperGasLimit = k_MaxBlockGasUsedForBaseFee kip71Config;
                parentRef = (if headerBaseFee \<ge> upperBoundBaseFee then RefUpper
                             else if headerBaseFee \<le> lowerBoundBaseFee then RefLower
                             else RefParent);
                parentBaseFee = deref_fee lowerBoundBaseFee upperBoundBaseFee headerBaseFee parentRef;
                parentGasUsed = (if GasUsed parentHeader > upperGasLimit then upperGasLimit
                                 else GasUsed parentHeader)
            in if parentGasUsed = gasTarget then Some parentRef
               else if parentGasUsed > gasTarget then
                 if parentBaseFee = upperBoundBaseFee then Some RefUpper
                 else
                   (case big_Div (parentBaseFee * uint (parentGasUsed - gasTarget)) (uint gasTarget) of
                      None \<Rightarrow> None
                    | Some y \<Rightarrow>
                        (case big_Div y baseFeeDenominator of
                           None \<Rightarrow> None
                         | Some x \<Rightarrow>
                             let baseFeeDelta = max x 1;
                                 nextBaseFee = parentBaseFee + baseFeeDelta
                             in if nextBaseFee > upperBoundBaseFee then Some RefUpper
                                else Some (RefNew nextBaseFee)))
               else
                 if parentBaseFee = lowerBoundBaseFee then Some RefLower
                 else
                   (case big_Div (parentBaseFee * uint (gasTarget - parentGasUsed)) (uint gasTarget) of
                      None \<Rightarrow> None
                    | Some y \<Rightarrow>
                        (case big_Div y baseFeeDenominator of
                           None \<Rightarrow> None
                         | Some baseFeeDelta \<Rightarrow>
                             let nextBaseFee = parentBaseFee - baseFeeDelta
                             in if nextBaseFee < lowerBoundBaseFee then Some RefLower
                                else Some (RefNew nextBaseFee))))"

definition NextMagmaBlockBaseFee :: "Header \<Rightarrow> KIP71Config \<Rightarrow> (int \<times> Header) option" where
  "NextMagmaBlockBaseFee parentHeader kip71Config =
     (let lowerBoundBaseFee = makeEvenByCeil (uint (k_LowerBoundBaseFee kip71Config));
          upperBoundBaseFee = makeEvenByFloor (uint (k_UpperBoundBaseFee kip71Config))
      in case nextBlockBaseFee parentHeader kip71Config lowerBoundBaseFee upperBoundBaseFee of
           None \<Rightarrow> None
         | Some r \<Rightarrow>
             let nextFee = deref_fee lowerBoundBaseFee upperBoundBaseFee
                             (case BaseFee parentHeader of None \<Rightarrow> 0 | Some b \<Rightarrow> b) r;
                 even = makeEvenByFloor nextFee
             in Some (even, if r = RefParent then parentHeader\<lparr>BaseFee := Some even\<rparr> else parentHeader))"

datatype magma_error = ErrUnknownAncestor | MissingBaseFee | InvalidBaseFee int int | BaseFeePanic

definition VerifyMagmaHeader ::
    "Header option \<Rightarrow> Header \<Rightarrow> KIP71Config \<Rightarrow> Header option \<times> (magma_error + unit)" where
  "VerifyMagmaHeader parentHeader header kip71Config =
     (case parentHeader of
        None \<Rightarrow> (None, Inl ErrUnknownAncestor)
      | Some p \<Rightarrow>
          (case BaseFee header of
             None \<Rightarrow> (Some p, Inl MissingBaseFee)
           | Some have_fee \<Rightarrow>
               (case NextMagmaBlockBaseFee p kip71Config of
                  None \<Rightarrow> (Some p, Inl BaseFeePanic)
                | Some (expectedBaseFee, p') \<Rightarrow>
                    if have_fee \<noteq> expectedBaseFee
                    then (Some p', Inl (InvalidBaseFee have_fee expectedBaseFee))
                    else (Some p', Inr ()))))"

section \<open>Parity and division\<close>

lemma makeEvenByFloor_even [simp]: "even (makeEvenByFloor x)"
  by (simp add: makeEvenByFloor_def mod2_eq_if)

lemma makeEvenByCeil_even [simp]: "even (makeEvenByCeil x)"
  by (simp add: makeEvenByCeil_def mod2_eq_if)

lemma makeEvenByFloor_bounds: "x - 1 \<le> makeEvenByFloor x \<and> makeEvenByFloor x \<le> x"
  by (simp add: makeEvenByFloor_def)

lemma makeEvenByFloor_ge:
  assumes "even l" and "l \<le> x"
  shows "l \<le> makeEvenByFloor x"
proof (cases "even x")
  case True
  with assms show ?thesis by (simp add: makeEvenByFloor_def even_iff_mod_2_eq_zero)
next
  case False
  with assms have "l \<noteq> x" by auto
  with assms show ?thesis by (simp add: makeEvenByFloor_def)
qed

lemma makeEvenByFloor_id: "even x \<Longrightarrow> makeEvenByFloor x = x"
  by (simp add: makeEvenByFloor_def even_iff_mod_2_eq_zero)

lemma big_Div_pos: "0 < y \<Longrightarrow> big_Div x y = Some (x div y)"
  by (simp add: big_Div_def)

lemma delta_nonneg:
  assumes "0 \<le> p" "0 \<le> g" "0 < t" "0 < (d :: int)"
  shows "0 \<le> p * g div t div d"
  using assms by (simp add: pos_imp_zdiv_nonneg_iff)

section \<open>The closed form of the next fee\<close>

definition kip71_denominator :: "KIP71Config \<Rightarrow> int" where
  "kip71_denominator cfg =
     (if k_BaseFeeDenominator cfg = 0 then 64 else uint (k_BaseFeeDenominator cfg))"

lemma kip71_denominator_pos: "0 < kip71_denominator cfg"
  by (simp add: kip71_denominator_def word_neq_0_conv [symmetric] uint_0_iff order_less_le)

text \<open>The specification: clamp the parent's fee to the bounds, move it by the gas used above or
  below the target, and clamp again. Here \<open>g\<close> is the parent's gas used, cut at the upper limit.\<close>

definition kip71_fee :: "int \<Rightarrow> int \<Rightarrow> int \<Rightarrow> int \<Rightarrow> int \<Rightarrow> int \<Rightarrow> int" where
  "kip71_fee lower upper denom target g parent =
     (let p = max lower (min upper parent) in
      if g = target then p
      else if g > target then min upper (p + max (p * (g - target) div target div denom) 1)
      else max lower (p - p * (target - g) div target div denom))"

lemma kip71_fee_bounds: "l \<le> u \<Longrightarrow> l \<le> kip71_fee l u d t g p \<and>
    (0 \<le> l \<longrightarrow> 0 < d \<longrightarrow> 0 < t \<longrightarrow> kip71_fee l u d t g p \<le> u)"
proof (intro conjI impI)
  assume "l \<le> u"
  then show "l \<le> kip71_fee l u d t g p" by (auto simp: kip71_fee_def Let_def)
  assume "0 \<le> l" "0 < d" "0 < t"
  show "kip71_fee l u d t g p \<le> u"
  proof (cases "g < t")
    case True
    have "0 \<le> max l (min u p) * (t - g) div t div d"
      using \<open>l \<le> u\<close> \<open>0 \<le> l\<close> \<open>0 < d\<close> \<open>0 < t\<close> True by (intro delta_nonneg) auto
    with \<open>l \<le> u\<close> True show ?thesis by (simp add: kip71_fee_def Let_def)
  next
    case False
    with \<open>l \<le> u\<close> show ?thesis by (simp add: kip71_fee_def Let_def)
  qed
qed

abbreviation parent_fee :: "Header \<Rightarrow> int" where
  "parent_fee h \<equiv> (case BaseFee h of None \<Rightarrow> 0 | Some b \<Rightarrow> b)"

definition cut_gas :: "Header \<Rightarrow> KIP71Config \<Rightarrow> u64" where
  "cut_gas h cfg = (if GasUsed h > k_MaxBlockGasUsedForBaseFee cfg
     then k_MaxBlockGasUsedForBaseFee cfg else GasUsed h)"

lemma fee_move:
  fixes g t :: u64
  assumes t: "0 < uint t" and d: "0 < d" and bounds: "0 \<le> l" "l \<le> u"
    and p: "p = deref_fee l u b ref" "p = max l (min u b)" and refp: "ref = RefParent \<longrightarrow> l < b \<and> b < u"
  shows "\<exists>r. (if g = t then Some ref
      else if t < g then
        if p = u then Some RefUpper
        else let n = p + max (p * uint (g - t) div uint t div d) 1
             in if u < n then Some RefUpper else Some (RefNew n)
      else if p = l then Some RefLower
        else let n = p - p * uint (t - g) div uint t div d
             in if n < l then Some RefLower else Some (RefNew n)) = Some r \<and>
    deref_fee l u b r = kip71_fee l u d (uint t) (uint g) b \<and>
    (r = RefParent \<longrightarrow> l < b \<and> b < u)"
proof -
  consider (eq) "g = t" | (gt) "t < g" | (lt) "g < t" by fastforce
  then show ?thesis
  proof cases
    case eq
    with p refp show ?thesis by (simp add: kip71_fee_def)
  next
    case gt
    then have g: "uint t < uint g" "uint (g - t) = uint g - uint t"
      by (simp add: word_less_def, intro uint_sub_no_wrap, simp)
    have spec: "kip71_fee l u d (uint t) (uint g) b =
        min u (p + max (p * (uint g - uint t) div uint t div d) 1)"
      using g(1) by (simp add: kip71_fee_def p(2) Let_def)
    show ?thesis using gt unfolding spec g(2) by (auto simp: Let_def)
  next
    case lt
    then have g: "uint g < uint t" "uint (t - g) = uint t - uint g"
      by (simp add: word_less_def, intro uint_sub_no_wrap, simp)
    have spec: "kip71_fee l u d (uint t) (uint g) b =
        max l (p - p * (uint t - uint g) div uint t div d)"
      using g(1) by (simp add: kip71_fee_def p(2) Let_def)
    have "0 \<le> p * (uint t - uint g) div uint t div d"
      using bounds g(1) by (intro delta_nonneg t d) (auto simp: p(2))
    then show ?thesis using lt unfolding spec g(2) by (auto simp: Let_def)
  qed
qed

lemma nextBlockBaseFee_eq:
  assumes target: "k_GasTarget cfg \<noteq> 0" and bounds: "0 \<le> l" "l \<le> u"
    and fee: "BaseFee h = Some b" and num: "Number h \<noteq> 0"
  shows "\<exists>r. nextBlockBaseFee h cfg l u = Some r \<and>
    deref_fee l u b r = kip71_fee l u (kip71_denominator cfg) (uint (k_GasTarget cfg))
      (uint (cut_gas h cfg)) b \<and>
    (r = RefParent \<longrightarrow> l < b \<and> b < u)"
proof -
  let ?ref = "if b \<ge> u then RefUpper else if b \<le> l then RefLower else RefParent"
  have t: "0 < uint (k_GasTarget cfg)" using target by (simp add: order_less_le uint_0_iff)
  note d = kip71_denominator_pos [of cfg]
  have p: "deref_fee l u b ?ref = max l (min u b)" using bounds by auto
  show ?thesis
    unfolding nextBlockBaseFee_def fee option.case Let_def if_not_P [OF num]
      kip71_denominator_def [symmetric] cut_gas_def [symmetric] big_Div_pos [OF t] big_Div_pos [OF d]
    by (rule fee_move [OF t d bounds refl p, unfolded Let_def]) simp
qed

section \<open>Properties of the next base fee\<close>

lemma NextMagma_bounds_pos: "0 \<le> makeEvenByCeil (uint (x :: u64))"
  by (simp add: makeEvenByCeil_def)

definition lower_bound_fee :: "KIP71Config \<Rightarrow> int" where
  "lower_bound_fee cfg = makeEvenByCeil (uint (k_LowerBoundBaseFee cfg))"

definition upper_bound_fee :: "KIP71Config \<Rightarrow> int" where
  "upper_bound_fee cfg = makeEvenByFloor (uint (k_UpperBoundBaseFee cfg))"

definition kip71_next :: "Header \<Rightarrow> KIP71Config \<Rightarrow> int" where
  "kip71_next h cfg =
     (case BaseFee h of
        None \<Rightarrow> lower_bound_fee cfg
      | Some b \<Rightarrow>
          if Number h = 0 then lower_bound_fee cfg
          else kip71_fee (lower_bound_fee cfg) (upper_bound_fee cfg) (kip71_denominator cfg)
                 (uint (k_GasTarget cfg)) (uint (cut_gas h cfg)) b)"

lemma lower_bound_fee_nonneg: "0 \<le> lower_bound_fee cfg"
  by (simp add: lower_bound_fee_def NextMagma_bounds_pos)

lemma NextMagmaBlockBaseFee_eq:
  assumes "k_GasTarget cfg \<noteq> 0" and "lower_bound_fee cfg \<le> upper_bound_fee cfg"
  shows "\<exists>h'. NextMagmaBlockBaseFee h cfg = Some (makeEvenByFloor (kip71_next h cfg), h') \<and>
    (h' = h \<or> h' = h\<lparr>BaseFee := map_option makeEvenByFloor (BaseFee h)\<rparr>)"
proof (cases "BaseFee h")
  case None
  then show ?thesis
    by (simp add: NextMagmaBlockBaseFee_def nextBlockBaseFee_def kip71_next_def lower_bound_fee_def)
next
  case (Some b)
  show ?thesis
  proof (cases "Number h = 0")
    case True
    with Some show ?thesis
      by (simp add: NextMagmaBlockBaseFee_def nextBlockBaseFee_def kip71_next_def lower_bound_fee_def)
  next
    case False
    obtain r where "nextBlockBaseFee h cfg (lower_bound_fee cfg) (upper_bound_fee cfg) = Some r"
      and "deref_fee (lower_bound_fee cfg) (upper_bound_fee cfg) b r = kip71_next h cfg"
      using nextBlockBaseFee_eq [OF assms(1) lower_bound_fee_nonneg assms(2) Some False] Some False
      by (auto simp: kip71_next_def)
    then show ?thesis
      using Some by (cases r)
        (auto simp: NextMagmaBlockBaseFee_def Let_def lower_bound_fee_def upper_bound_fee_def)
  qed
qed

lemma kip71_next_bounds:
  assumes "k_GasTarget cfg \<noteq> 0" and "lower_bound_fee cfg \<le> upper_bound_fee cfg"
  shows "lower_bound_fee cfg \<le> kip71_next h cfg \<and> kip71_next h cfg \<le> upper_bound_fee cfg"
proof -
  have "0 < uint (k_GasTarget cfg)" using assms(1) by (simp add: order_less_le uint_0_iff)
  then show ?thesis
    using assms(2) kip71_fee_bounds [OF assms(2)] kip71_denominator_pos [of cfg]
      lower_bound_fee_nonneg [of cfg]
    by (auto simp: kip71_next_def split: option.splits)
qed

text \<open>C9: with a non-zero gas target and compatible bounds, \<open>NextMagmaBlockBaseFee\<close> never panics and
  returns an even fee between the (even) lower and upper bounds, whatever the parent block is:
  governance changes of the bounds and impulses of used gas cannot push it outside.\<close>

theorem NextMagmaBlockBaseFee_in_bounds:
  assumes "k_GasTarget cfg \<noteq> 0" and "lower_bound_fee cfg \<le> upper_bound_fee cfg"
  shows "\<exists>fee h'. NextMagmaBlockBaseFee h cfg = Some (fee, h') \<and> even fee \<and>
    lower_bound_fee cfg \<le> fee \<and> fee \<le> upper_bound_fee cfg"
proof -
  have "lower_bound_fee cfg \<le> makeEvenByFloor (kip71_next h cfg)"
    using kip71_next_bounds [OF assms, of h]
    by (intro makeEvenByFloor_ge) (auto simp: lower_bound_fee_def)
  moreover have "makeEvenByFloor (kip71_next h cfg) \<le> upper_bound_fee cfg"
    using kip71_next_bounds [OF assms, of h] makeEvenByFloor_bounds [of "kip71_next h cfg"] by linarith
  ultimately show ?thesis
    using NextMagmaBlockBaseFee_eq [OF assms, of h] by auto
qed

definition example_header :: Header where
  "example_header =
     \<lparr> ParentHash = 0, Rewardbase = 0, Root = 0, TxHash = 0, ReceiptHash = 0, Bloom = 0,
       BlockScore = 1, Number = 100, GasUsed = 60000000, Time = 0, TimeFoS = 0, Extra = [],
       hdr_Governance = [], hdr_Vote = [], BaseFee = Some 25000000000, RandomReveal = [], MixHash = [] \<rparr>"

theorem NextMagmaBlockBaseFee_in_bounds_witness:
  "k_GasTarget GetDefaultKIP71Config \<noteq> 0 \<and>
   lower_bound_fee GetDefaultKIP71Config \<le> upper_bound_fee GetDefaultKIP71Config \<and>
   (\<exists>fee h'. NextMagmaBlockBaseFee example_header GetDefaultKIP71Config = Some (fee, h') \<and>
      even fee \<and> 25000000000 \<le> fee \<and> fee \<le> 750000000000)"
proof -
  have h: "k_GasTarget GetDefaultKIP71Config \<noteq> 0"
    "lower_bound_fee GetDefaultKIP71Config \<le> upper_bound_fee GetDefaultKIP71Config"
    and l: "lower_bound_fee GetDefaultKIP71Config = 25000000000"
    and u: "upper_bound_fee GetDefaultKIP71Config = 750000000000"
    by (simp_all add: GetDefaultKIP71Config_def lower_bound_fee_def upper_bound_fee_def
        makeEvenByCeil_def makeEvenByFloor_def)
  show ?thesis using NextMagmaBlockBaseFee_in_bounds [OF h, of example_header] h unfolding l u by blast
qed




text \<open>C34: a block that uses more gas than the target does not always raise the fee, although the
  code computes a change of at least one for it: from an even fee a change of one is undone by
  the rounding to an even number.\<close>

theorem NextMagmaBlockBaseFee_stuck:
  assumes "k_GasTarget cfg \<noteq> 0" and "lower_bound_fee cfg \<le> upper_bound_fee cfg"
    and "BaseFee h = Some b" "Number h \<noteq> 0" "even b"
    and "lower_bound_fee cfg \<le> b" "b < upper_bound_fee cfg"
    and "cut_gas h cfg > k_GasTarget cfg"
    and "b * (uint (cut_gas h cfg) - uint (k_GasTarget cfg)) div uint (k_GasTarget cfg)
           div kip71_denominator cfg \<le> 1"
  shows "\<exists>h'. NextMagmaBlockBaseFee h cfg = Some (b, h')"
proof -
  have clamp: "max (lower_bound_fee cfg) (min (upper_bound_fee cfg) b) = b"
    using assms(6,7) by simp
  have "kip71_next h cfg = min (upper_bound_fee cfg) (b + 1)"
    using assms(3,4,8,9) by (simp add: kip71_next_def kip71_fee_def clamp word_less_def Let_def)
  then have "kip71_next h cfg = b + 1" using assms(7) by simp
  then have "makeEvenByFloor (kip71_next h cfg) = b"
    using assms(5) by (simp add: makeEvenByFloor_def) presburger
  then show ?thesis using NextMagmaBlockBaseFee_eq [OF assms(1,2), of h] by auto
qed

theorem NextMagmaBlockBaseFee_stuck_witness:
  "\<exists>h'. NextMagmaBlockBaseFee (example_header\<lparr>BaseFee := Some 0\<rparr>)
     (GetDefaultKIP71Config\<lparr>k_LowerBoundBaseFee := 0\<rparr>) = Some (0, h')"
proof (rule NextMagmaBlockBaseFee_stuck)
qed (simp_all add: GetDefaultKIP71Config_def lower_bound_fee_def upper_bound_fee_def
    makeEvenByCeil_def makeEvenByFloor_def example_header_def kip71_denominator_def cut_gas_def)



end
