(* ===== verification/Gov_Params.thy ===== *)
theory Gov_Params
  imports Complex_Main Chain_Config "HOL-Library.Monad_Syntax"
begin

text \<open>
  Governance parameter sets, \<open>params/governance_paramset.go\<close>: the dynamically typed values, the
  parser and validator of each parameter type, the set with its constructors, merge and typed
  getters. A Go \<open>interface{}\<close> holding one of the types the parsers switch on is a \<open>govValue\<close>;
  a getter on a missing or differently typed item (\<open>logger.Crit\<close> or a failed type assertion)
  is \<open>None\<close>.
\<close>

section \<open>Values and byte strings\<close>

datatype govValue =
    VString string
  | VAddress address
  | VInt int
  | VUint u64
  | VUint64 u64
  | VFloat64 rat
  | VBig int
  | VBool bool
  | VOther

datatype canonType = CString | CAddress | CUint64 | CBool

fun typeOf :: "govValue \<Rightarrow> canonType option" where
  "typeOf (VString _) = Some CString"
| "typeOf (VAddress _) = Some CAddress"
| "typeOf (VUint64 _) = Some CUint64"
| "typeOf (VBool _) = Some CBool"
| "typeOf _ = None"

definition bytes_to_string :: "bytes \<Rightarrow> string" where
  "bytes_to_string b = map (\<lambda>w. char_of (unat w)) b"

text \<open>\<open>new(big.Int).SetBytes\<close>: the bytes as a big-endian number.\<close>

definition be_nat :: "bytes \<Rightarrow> nat" where
  "be_nat b = foldl (\<lambda>acc x. 256 * acc + unat x) 0 b"

text \<open>\<open>common.BytesToAddress\<close>: the last 20 bytes, padded on the left.\<close>

definition BytesToAddress :: "bytes \<Rightarrow> address" where
  "BytesToAddress b =
     word_of_nat (be_nat (if length b > 20 then drop (length b - 20) b else b))"

definition hex_val :: "char \<Rightarrow> nat option" where
  "hex_val c =
     (let n = of_char c :: nat in
      if 48 \<le> n \<and> n \<le> 57 then Some (n - 48)
      else if 97 \<le> n \<and> n \<le> 102 then Some (n - 87)
      else if 65 \<le> n \<and> n \<le> 70 then Some (n - 55)
      else None)"

definition isHexCharacter :: "char \<Rightarrow> bool" where
  "isHexCharacter c = (hex_val c \<noteq> None)"

definition isHex :: "string \<Rightarrow> bool" where
  "isHex s = (even (length s) \<and> list_all isHexCharacter s)"

definition hasHexPrefix :: "string \<Rightarrow> bool" where
  "hasHexPrefix s =
     (length s \<ge> 2 \<and> s ! 0 = CHR ''0'' \<and> (s ! 1 = CHR ''x'' \<or> s ! 1 = CHR ''X''))"

definition IsHexAddress :: "string \<Rightarrow> bool" where
  "IsHexAddress s =
     (let s' = (if hasHexPrefix s then drop 2 s else s) in length s' = 40 \<and> isHex s')"

text \<open>\<open>hex.DecodeString\<close>: the bytes decoded before the first bad pair (the error is dropped by
  \<open>Hex2Bytes\<close>).\<close>

fun Hex2Bytes :: "string \<Rightarrow> bytes" where
  "Hex2Bytes (a # b # rest) =
     (case (hex_val a, hex_val b) of
        (Some x, Some y) \<Rightarrow> word_of_nat (16 * x + y) # Hex2Bytes rest
      | _ \<Rightarrow> [])"
| "Hex2Bytes _ = []"

definition FromHex :: "string \<Rightarrow> bytes" where
  "FromHex s =
     (let s1 = (if hasHexPrefix s then drop 2 s else s);
          s2 = (if odd (length s1) then CHR ''0'' # s1 else s1)
      in Hex2Bytes s2)"

definition HexToAddress :: "string \<Rightarrow> address" where
  "HexToAddress s = BytesToAddress (FromHex s)"

text \<open>\<open>big.Int.String\<close> in base 10.\<close>

fun nat_digits :: "nat \<Rightarrow> string" where
  "nat_digits n = (if n < 10 then [char_of (48 + n)]
                   else nat_digits (n div 10) @ [char_of (48 + n mod 10)])"

declare nat_digits.simps [simp del]

definition big_String :: "int \<Rightarrow> string" where
  "big_String n = (if n < 0 then CHR ''-'' # nat_digits (nat (- n)) else nat_digits (nat n))"

section \<open>Parameter types\<close>

datatype govParamType =
    TGovMode | TAddress | TUint64 | TBigInt | TRatio | TKip82Ratio | TBool

fun canonicalType :: "govParamType \<Rightarrow> canonType" where
  "canonicalType TGovMode = CString"
| "canonicalType TAddress = CAddress"
| "canonicalType TUint64 = CUint64"
| "canonicalType TBigInt = CString"
| "canonicalType TRatio = CString"
| "canonicalType TKip82Ratio = CString"
| "canonicalType TBool = CBool"

definition parseValueString :: "govValue \<Rightarrow> govValue option" where
  "parseValueString v = (case v of VString s \<Rightarrow> Some (VString s) | _ \<Rightarrow> None)"

fun parseValue :: "govParamType \<Rightarrow> govValue \<Rightarrow> govValue option" where
  "parseValue TGovMode v = parseValueString v"
| "parseValue TAddress v =
     (case v of
        VString s \<Rightarrow> if IsHexAddress s then Some (VAddress (HexToAddress s)) else None
      | VAddress a \<Rightarrow> Some (VAddress a)
      | _ \<Rightarrow> None)"
| "parseValue TUint64 v =
     (case v of
        VInt i \<Rightarrow> if i \<ge> 0 then Some (VUint64 (word_of_int i)) else None
      | VUint u \<Rightarrow> Some (VUint64 u)
      | VUint64 u \<Rightarrow> Some (VUint64 u)
      | VFloat64 f \<Rightarrow> if f \<ge> 0 then Some (VUint64 (word_of_int \<lfloor>f\<rfloor>)) else None
      | _ \<Rightarrow> None)"
| "parseValue TBigInt v =
     (case v of
        VString s \<Rightarrow> Some (VString s)
      | VBig n \<Rightarrow> Some (VString (big_String n))
      | _ \<Rightarrow> None)"
| "parseValue TRatio v = parseValueString v"
| "parseValue TKip82Ratio v = parseValueString v"
| "parseValue TBool v = (case v of VBool b \<Rightarrow> Some (VBool b) | _ \<Rightarrow> None)"

fun parseBytes :: "govParamType \<Rightarrow> bytes \<Rightarrow> govValue option" where
  "parseBytes TGovMode b = Some (VString (bytes_to_string b))"
| "parseBytes TAddress b =
     (if length b = 20 then Some (VAddress (BytesToAddress b)) else None)"
| "parseBytes TUint64 b =
     (if length b \<le> 8 then Some (VUint64 (word_of_nat (be_nat b))) else None)"
| "parseBytes TBigInt b = Some (VString (bytes_to_string b))"
| "parseBytes TRatio b = Some (VString (bytes_to_string b))"
| "parseBytes TKip82Ratio b = Some (VString (bytes_to_string b))"
| "parseBytes TBool b =
     (if b = [1] then Some (VBool True) else if b = [0] then Some (VBool False) else None)"

text \<open>The loop of the two ratio validators. The sum is a Go \<open>int\<close>, which wraps around.\<close>

fun ratio_sum :: "int \<Rightarrow> string list \<Rightarrow> int option" where
  "ratio_sum acc [] = Some acc"
| "ratio_sum acc (s # ss) =
     (case ParseInt64 s of
        None \<Rightarrow> None
      | Some n \<Rightarrow> if n < 0 then None else ratio_sum (wrap_i64 (acc + n)) ss)"

definition RewardSliceCount :: nat where "RewardSliceCount = 3"
definition RewardKip82SliceCount :: nat where "RewardKip82SliceCount = 2"

definition validate_ratio :: "nat \<Rightarrow> string \<Rightarrow> bool" where
  "validate_ratio slices s =
     (let strs = split_on (CHR ''/'') s in
      length strs = slices \<and> ratio_sum 0 strs = Some 100)"

definition govModeNames :: "string \<Rightarrow> nat option" where
  "govModeNames s = map_of [(''none'', 0), (''single'', 1), (''ballot'', 2)] s"

fun validate :: "govParamType \<Rightarrow> govValue \<Rightarrow> bool" where
  "validate TGovMode (VString s) = (govModeNames s \<noteq> None)"
| "validate TBigInt (VString s) =
     (case big_SetString10 s of None \<Rightarrow> False | Some n \<Rightarrow> n \<ge> 0)"
| "validate TRatio (VString s) = validate_ratio RewardSliceCount s"
| "validate TKip82Ratio (VString s) = validate_ratio RewardKip82SliceCount s"
| "validate _ _ = True"

definition Validate :: "govParamType \<Rightarrow> govValue \<Rightarrow> bool" where
  "Validate ty v = (typeOf v = Some (canonicalType ty) \<and> validate ty v)"

definition ParseValue :: "govParamType \<Rightarrow> govValue \<Rightarrow> govValue option" where
  "ParseValue ty v =
     (case parseValue ty v of
        None \<Rightarrow> None | Some x \<Rightarrow> if Validate ty x then Some x else None)"

definition ParseBytes :: "govParamType \<Rightarrow> bytes \<Rightarrow> govValue option" where
  "ParseBytes ty b =
     (case parseBytes ty b of
        None \<Rightarrow> None | Some x \<Rightarrow> if Validate ty x then Some x else None)"

section \<open>Keys\<close>

datatype govKey =
    K_GovernanceMode | K_GoverningNode | K_Epoch | K_Policy | K_CommitteeSize | K_UnitPrice
  | K_MintingAmount | K_Ratio | K_UseGiniCoeff | K_DeferredTxFee | K_MinimumStake
  | K_AddValidator | K_RemoveValidator | K_StakeUpdateInterval | K_ProposerRefreshInterval
  | K_ConstTxGasHumanReadable | K_CliqueEpoch | K_Timeout | K_LowerBoundBaseFee
  | K_UpperBoundBaseFee | K_GasTarget | K_MaxBlockGasUsedForBaseFee | K_BaseFeeDenominator
  | K_GovParamContract | K_Kip82Ratio | K_DeriveShaImpl

fun govParamTypes :: "govKey \<Rightarrow> govParamType option" where
  "govParamTypes K_GovernanceMode = Some TGovMode"
| "govParamTypes K_GoverningNode = Some TAddress"
| "govParamTypes K_Epoch = Some TUint64"
| "govParamTypes K_Policy = Some TUint64"
| "govParamTypes K_CommitteeSize = Some TUint64"
| "govParamTypes K_UnitPrice = Some TUint64"
| "govParamTypes K_MintingAmount = Some TBigInt"
| "govParamTypes K_Ratio = Some TRatio"
| "govParamTypes K_Kip82Ratio = Some TKip82Ratio"
| "govParamTypes K_UseGiniCoeff = Some TBool"
| "govParamTypes K_DeferredTxFee = Some TBool"
| "govParamTypes K_MinimumStake = Some TBigInt"
| "govParamTypes K_StakeUpdateInterval = Some TUint64"
| "govParamTypes K_ProposerRefreshInterval = Some TUint64"
| "govParamTypes K_LowerBoundBaseFee = Some TUint64"
| "govParamTypes K_UpperBoundBaseFee = Some TUint64"
| "govParamTypes K_GasTarget = Some TUint64"
| "govParamTypes K_MaxBlockGasUsedForBaseFee = Some TUint64"
| "govParamTypes K_BaseFeeDenominator = Some TUint64"
| "govParamTypes K_GovParamContract = Some TAddress"
| "govParamTypes K_DeriveShaImpl = Some TUint64"
| "govParamTypes _ = None"

definition govParamNames :: "string \<Rightarrow> govKey option" where
  "govParamNames = map_of
     [(''governance.governancemode'', K_GovernanceMode),
      (''governance.governingnode'', K_GoverningNode),
      (''governance.govparamcontract'', K_GovParamContract),
      (''istanbul.epoch'', K_Epoch),
      (''istanbul.policy'', K_Policy),
      (''istanbul.committeesize'', K_CommitteeSize),
      (''governance.unitprice'', K_UnitPrice),
      (''reward.mintingamount'', K_MintingAmount),
      (''reward.ratio'', K_Ratio),
      (''reward.kip82ratio'', K_Kip82Ratio),
      (''reward.useginicoeff'', K_UseGiniCoeff),
      (''reward.deferredtxfee'', K_DeferredTxFee),
      (''reward.minimumstake'', K_MinimumStake),
      (''reward.stakingupdateinterval'', K_StakeUpdateInterval),
      (''reward.proposerupdateinterval'', K_ProposerRefreshInterval),
      (''kip71.lowerboundbasefee'', K_LowerBoundBaseFee),
      (''kip71.upperboundbasefee'', K_UpperBoundBaseFee),
      (''kip71.gastarget'', K_GasTarget),
      (''kip71.maxblockgasusedforbasefee'', K_MaxBlockGasUsedForBaseFee),
      (''kip71.basefeedenominator'', K_BaseFeeDenominator),
      (''governance.deriveshaimpl'', K_DeriveShaImpl)]"

section \<open>Parameter sets\<close>

datatype govParamError = ErrUnknownGovParamKey | ErrUnknownGovParamName | ErrBadGovParamValue

type_synonym GovParamSet = "govKey \<rightharpoonup> govValue"

definition NewGovParamSet :: GovParamSet where
  "NewGovParamSet = Map.empty"

definition NewGovParamSetMerged :: "GovParamSet \<Rightarrow> GovParamSet \<Rightarrow> GovParamSet" where
  "NewGovParamSetMerged base update = base ++ update"

definition gov_set :: "GovParamSet \<Rightarrow> govKey \<Rightarrow> govValue \<Rightarrow> govParamError + GovParamSet" where
  "gov_set p key v =
     (case govParamTypes key of
        None \<Rightarrow> Inl ErrUnknownGovParamKey
      | Some ty \<Rightarrow>
          (case ParseValue ty v of
             None \<Rightarrow> Inl ErrBadGovParamValue
           | Some parsed \<Rightarrow> Inr (p(key \<mapsto> parsed))))"

definition gov_setBytes :: "GovParamSet \<Rightarrow> govKey \<Rightarrow> bytes \<Rightarrow> govParamError + GovParamSet" where
  "gov_setBytes p key b =
     (case govParamTypes key of
        None \<Rightarrow> Inl ErrUnknownGovParamKey
      | Some ty \<Rightarrow>
          (case ParseBytes ty b of
             None \<Rightarrow> Inl ErrBadGovParamValue
           | Some parsed \<Rightarrow> Inr (p(key \<mapsto> parsed))))"

text \<open>The constructors range over a Go map; the list is one order in which it may be visited.\<close>

fun set_all :: "GovParamSet \<Rightarrow> (govKey \<times> govValue) list \<Rightarrow> govParamError + GovParamSet" where
  "set_all p [] = Inr p"
| "set_all p ((key, v) # rest) = rbind (gov_set p key v) (\<lambda>p'. set_all p' rest)"

definition NewGovParamSetIntMap :: "(govKey \<times> govValue) list \<Rightarrow> govParamError + GovParamSet" where
  "NewGovParamSetIntMap its = set_all NewGovParamSet its"

fun set_all_names :: "GovParamSet \<Rightarrow> (string \<times> govValue) list \<Rightarrow> govParamError + GovParamSet" where
  "set_all_names p [] = Inr p"
| "set_all_names p ((name, v) # rest) =
     (case govParamNames name of
        None \<Rightarrow> Inl ErrUnknownGovParamName
      | Some key \<Rightarrow> rbind (gov_set p key v) (\<lambda>p'. set_all_names p' rest))"

definition NewGovParamSetStrMap :: "(string \<times> govValue) list \<Rightarrow> govParamError + GovParamSet" where
  "NewGovParamSetStrMap its = set_all_names NewGovParamSet its"

fun set_all_bytes :: "GovParamSet \<Rightarrow> (string \<times> bytes) list \<Rightarrow> govParamError + GovParamSet" where
  "set_all_bytes p [] = Inr p"
| "set_all_bytes p ((name, b) # rest) =
     (case govParamNames name of
        None \<Rightarrow> Inl ErrUnknownGovParamName
      | Some key \<Rightarrow> rbind (gov_setBytes p key b) (\<lambda>p'. set_all_bytes p' rest))"

definition NewGovParamSetBytesMap :: "(string \<times> bytes) list \<Rightarrow> govParamError + GovParamSet" where
  "NewGovParamSetBytesMap its = set_all_bytes NewGovParamSet its"

fun set_all_tolerant :: "GovParamSet \<Rightarrow> (string \<times> bytes) list \<Rightarrow> GovParamSet" where
  "set_all_tolerant p [] = p"
| "set_all_tolerant p ((name, b) # rest) =
     (case govParamNames name of
        None \<Rightarrow> set_all_tolerant p rest
      | Some key \<Rightarrow>
          set_all_tolerant (case gov_setBytes p key b of Inl _ \<Rightarrow> p | Inr p' \<Rightarrow> p') rest)"

definition NewGovParamSetBytesMapTolerant :: "(string \<times> bytes) list \<Rightarrow> GovParamSet" where
  "NewGovParamSetBytesMapTolerant its = set_all_tolerant NewGovParamSet its"

definition chain_config_items :: "ChainConfig \<Rightarrow> (govKey \<times> govValue) list" where
  "chain_config_items config =
     (case Istanbul config of
        None \<Rightarrow> []
      | Some i \<Rightarrow> [(K_Epoch, VUint64 (ic_Epoch i)), (K_Policy, VUint64 (ic_ProposerPolicy i)),
                   (K_CommitteeSize, VUint64 (ic_SubGroupSize i))]) @
     [(K_UnitPrice, VUint64 (cfg_UnitPrice config)), (K_DeriveShaImpl, VInt (cfg_DeriveShaImpl config))] @
     (case Governance config of
        None \<Rightarrow> []
      | Some g \<Rightarrow>
          [(K_GoverningNode, VAddress (gc_GoverningNode g)),
           (K_GovernanceMode, VString (gc_GovernanceMode g)),
           (K_GovParamContract, VAddress (gc_GovParamContract g))] @
          (case gc_Reward g of
             None \<Rightarrow> []
           | Some r \<Rightarrow>
               (case rc_MintingAmount r of
                  None \<Rightarrow> [] | Some n \<Rightarrow> [(K_MintingAmount, VString (big_String n))]) @
               [(K_Ratio, VString (rc_Ratio r))] @
               (if rc_Kip82Ratio r \<noteq> [] then [(K_Kip82Ratio, VString (rc_Kip82Ratio r))] else []) @
               [(K_UseGiniCoeff, VBool (rc_UseGiniCoeff r)),
                (K_DeferredTxFee, VBool (rc_DeferredTxFee r)),
                (K_StakeUpdateInterval, VUint64 (rc_StakingUpdateInterval r)),
                (K_ProposerRefreshInterval, VUint64 (rc_ProposerUpdateInterval r))] @
               (case rc_MinimumStake r of
                  None \<Rightarrow> [] | Some n \<Rightarrow> [(K_MinimumStake, VString (big_String n))])) @
          (case gc_KIP71 g of
             None \<Rightarrow> []
           | Some k \<Rightarrow>
               [(K_LowerBoundBaseFee, VUint64 (k_LowerBoundBaseFee k)),
                (K_UpperBoundBaseFee, VUint64 (k_UpperBoundBaseFee k)),
                (K_GasTarget, VUint64 (k_GasTarget k)),
                (K_MaxBlockGasUsedForBaseFee, VUint64 (k_MaxBlockGasUsedForBaseFee k)),
                (K_BaseFeeDenominator, VUint64 (k_BaseFeeDenominator k))]))"

definition NewGovParamSetChainConfig :: "ChainConfig \<Rightarrow> govParamError + GovParamSet" where
  "NewGovParamSetChainConfig config = NewGovParamSetIntMap (chain_config_items config)"

section \<open>Getters\<close>

definition get_string :: "GovParamSet \<Rightarrow> govKey \<Rightarrow> string option" where
  "get_string p key = (case p key of Some (VString s) \<Rightarrow> Some s | _ \<Rightarrow> None)"

definition get_address :: "GovParamSet \<Rightarrow> govKey \<Rightarrow> address option" where
  "get_address p key = (case p key of Some (VAddress a) \<Rightarrow> Some a | _ \<Rightarrow> None)"

definition get_uint64 :: "GovParamSet \<Rightarrow> govKey \<Rightarrow> u64 option" where
  "get_uint64 p key = (case p key of Some (VUint64 u) \<Rightarrow> Some u | _ \<Rightarrow> None)"

definition get_bool :: "GovParamSet \<Rightarrow> govKey \<Rightarrow> bool option" where
  "get_bool p key = (case p key of Some (VBool b) \<Rightarrow> Some b | _ \<Rightarrow> None)"

definition GovernanceModeStr :: "GovParamSet \<Rightarrow> string option" where
  "GovernanceModeStr p = get_string p K_GovernanceMode"

text \<open>A name outside \<open>govModeNames\<close> reads as the map's zero value.\<close>

definition GovernanceModeInt :: "GovParamSet \<Rightarrow> nat option" where
  "GovernanceModeInt p =
     map_option (\<lambda>s. case govModeNames s of None \<Rightarrow> 0 | Some n \<Rightarrow> n) (GovernanceModeStr p)"

definition p_GoverningNode :: "GovParamSet \<Rightarrow> address option" where
  "p_GoverningNode p = get_address p K_GoverningNode"

definition p_GovParamContract :: "GovParamSet \<Rightarrow> address option" where
  "p_GovParamContract p = get_address p K_GovParamContract"

definition p_Epoch :: "GovParamSet \<Rightarrow> u64 option" where
  "p_Epoch p = get_uint64 p K_Epoch"

definition p_Policy :: "GovParamSet \<Rightarrow> u64 option" where
  "p_Policy p = get_uint64 p K_Policy"

definition p_CommitteeSize :: "GovParamSet \<Rightarrow> u64 option" where
  "p_CommitteeSize p = get_uint64 p K_CommitteeSize"

definition p_UnitPrice :: "GovParamSet \<Rightarrow> u64 option" where
  "p_UnitPrice p = get_uint64 p K_UnitPrice"

definition MintingAmountStr :: "GovParamSet \<Rightarrow> string option" where
  "MintingAmountStr p = get_string p K_MintingAmount"

text \<open>The inner \<open>None\<close> is the nil that \<open>SetString\<close> returns for a malformed number.\<close>

definition MintingAmountBig :: "GovParamSet \<Rightarrow> int option option" where
  "MintingAmountBig p = map_option big_SetString10 (MintingAmountStr p)"

definition p_Ratio :: "GovParamSet \<Rightarrow> string option" where
  "p_Ratio p = get_string p K_Ratio"

definition p_Kip82Ratio :: "GovParamSet \<Rightarrow> string option" where
  "p_Kip82Ratio p = get_string p K_Kip82Ratio"

definition p_UseGiniCoeff :: "GovParamSet \<Rightarrow> bool option" where
  "p_UseGiniCoeff p = get_bool p K_UseGiniCoeff"

definition p_DeferredTxFee :: "GovParamSet \<Rightarrow> bool option" where
  "p_DeferredTxFee p = get_bool p K_DeferredTxFee"

definition MinimumStakeStr :: "GovParamSet \<Rightarrow> string option" where
  "MinimumStakeStr p = get_string p K_MinimumStake"

definition MinimumStakeBig :: "GovParamSet \<Rightarrow> int option option" where
  "MinimumStakeBig p = map_option big_SetString10 (MinimumStakeStr p)"

definition p_StakeUpdateInterval :: "GovParamSet \<Rightarrow> u64 option" where
  "p_StakeUpdateInterval p = get_uint64 p K_StakeUpdateInterval"

definition p_ProposerRefreshInterval :: "GovParamSet \<Rightarrow> u64 option" where
  "p_ProposerRefreshInterval p = get_uint64 p K_ProposerRefreshInterval"

definition p_LowerBoundBaseFee :: "GovParamSet \<Rightarrow> u64 option" where
  "p_LowerBoundBaseFee p = get_uint64 p K_LowerBoundBaseFee"

definition p_UpperBoundBaseFee :: "GovParamSet \<Rightarrow> u64 option" where
  "p_UpperBoundBaseFee p = get_uint64 p K_UpperBoundBaseFee"

definition p_GasTarget :: "GovParamSet \<Rightarrow> u64 option" where
  "p_GasTarget p = get_uint64 p K_GasTarget"

definition p_MaxBlockGasUsedForBaseFee :: "GovParamSet \<Rightarrow> u64 option" where
  "p_MaxBlockGasUsedForBaseFee p = get_uint64 p K_MaxBlockGasUsedForBaseFee"

definition p_BaseFeeDenominator :: "GovParamSet \<Rightarrow> u64 option" where
  "p_BaseFeeDenominator p = get_uint64 p K_BaseFeeDenominator"

definition p_DeriveShaImpl :: "GovParamSet \<Rightarrow> int option" where
  "p_DeriveShaImpl p = map_option sint (get_uint64 p K_DeriveShaImpl)"

lemmas getter_defs = get_string_def get_address_def get_uint64_def get_bool_def
  GovernanceModeStr_def p_GoverningNode_def p_GovParamContract_def p_Epoch_def p_Policy_def
  p_CommitteeSize_def p_UnitPrice_def MintingAmountStr_def MintingAmountBig_def p_Ratio_def
  p_Kip82Ratio_def p_UseGiniCoeff_def p_DeferredTxFee_def MinimumStakeStr_def MinimumStakeBig_def
  p_StakeUpdateInterval_def p_ProposerRefreshInterval_def p_LowerBoundBaseFee_def
  p_UpperBoundBaseFee_def p_GasTarget_def p_MaxBlockGasUsedForBaseFee_def p_BaseFeeDenominator_def
  p_DeriveShaImpl_def

section \<open>Back to configuration records\<close>

text \<open>\<^verbatim>\<open>if _, ok := p.Get(key); ok { ret.Field = getter() }\<close> on a zero-valued record.\<close>

definition field_or :: "GovParamSet \<Rightarrow> govKey \<Rightarrow> 'a \<Rightarrow> 'a option \<Rightarrow> 'a option" where
  "field_or p key zero getter = (if p key = None then Some zero else getter)"

definition ToIstanbulConfig :: "GovParamSet \<Rightarrow> IstanbulConfig option" where
  "ToIstanbulConfig p = do {
     e \<leftarrow> field_or p K_Epoch 0 (p_Epoch p);
     pol \<leftarrow> field_or p K_Policy 0 (p_Policy p);
     c \<leftarrow> field_or p K_CommitteeSize 0 (p_CommitteeSize p);
     Some \<lparr> ic_Epoch = e, ic_ProposerPolicy = pol, ic_SubGroupSize = c \<rparr> }"

definition ToRewardConfig :: "GovParamSet \<Rightarrow> RewardConfig option" where
  "ToRewardConfig p = do {
     ma \<leftarrow> field_or p K_MintingAmount None (MintingAmountBig p);
     r \<leftarrow> field_or p K_Ratio [] (p_Ratio p);
     k \<leftarrow> field_or p K_Kip82Ratio [] (p_Kip82Ratio p);
     g \<leftarrow> field_or p K_UseGiniCoeff False (p_UseGiniCoeff p);
     d \<leftarrow> field_or p K_DeferredTxFee False (p_DeferredTxFee p);
     s \<leftarrow> field_or p K_StakeUpdateInterval 0 (p_StakeUpdateInterval p);
     pr \<leftarrow> field_or p K_ProposerRefreshInterval 0 (p_ProposerRefreshInterval p);
     ms \<leftarrow> field_or p K_MinimumStake None (MinimumStakeBig p);
     Some \<lparr> rc_MintingAmount = ma, rc_Ratio = r, rc_Kip82Ratio = k, rc_UseGiniCoeff = g,
            rc_DeferredTxFee = d, rc_StakingUpdateInterval = s, rc_ProposerUpdateInterval = pr,
            rc_MinimumStake = ms \<rparr> }"

definition ToKIP71Config :: "GovParamSet \<Rightarrow> KIP71Config option" where
  "ToKIP71Config p = do {
     l \<leftarrow> field_or p K_LowerBoundBaseFee 0 (p_LowerBoundBaseFee p);
     u \<leftarrow> field_or p K_UpperBoundBaseFee 0 (p_UpperBoundBaseFee p);
     t \<leftarrow> field_or p K_GasTarget 0 (p_GasTarget p);
     x \<leftarrow> field_or p K_MaxBlockGasUsedForBaseFee 0 (p_MaxBlockGasUsedForBaseFee p);
     d \<leftarrow> field_or p K_BaseFeeDenominator 0 (p_BaseFeeDenominator p);
     Some \<lparr> k_LowerBoundBaseFee = l, k_UpperBoundBaseFee = u, k_GasTarget = t,
            k_MaxBlockGasUsedForBaseFee = x, k_BaseFeeDenominator = d \<rparr> }"

definition ToGovernanceConfig :: "GovParamSet \<Rightarrow> GovernanceConfig option" where
  "ToGovernanceConfig p = do {
     n \<leftarrow> field_or p K_GoverningNode 0 (p_GoverningNode p);
     md \<leftarrow> field_or p K_GovernanceMode [] (GovernanceModeStr p);
     c \<leftarrow> field_or p K_GovParamContract 0 (p_GovParamContract p);
     r \<leftarrow> ToRewardConfig p;
     k \<leftarrow> ToKIP71Config p;
     Some \<lparr> gc_GoverningNode = n, gc_GovernanceMode = md, gc_GovParamContract = c,
            gc_Reward = Some r, gc_KIP71 = Some k \<rparr> }"

definition empty_ChainConfig :: ChainConfig where
  "empty_ChainConfig =
     \<lparr> ChainID = None, IstanbulCompatibleBlock = None, LondonCompatibleBlock = None,
       EthTxTypeCompatibleBlock = None, MagmaCompatibleBlock = None, KoreCompatibleBlock = None,
       ShanghaiCompatibleBlock = None, CancunCompatibleBlock = None, KaiaCompatibleBlock = None,
       Kip103CompatibleBlock = None, Kip103ContractAddress = 0, Kip160CompatibleBlock = None,
       Kip160ContractAddress = 0, RandaoCompatibleBlock = None, RandaoRegistry = None,
       Gxhash = None, Clique = None, Istanbul = None, cfg_UnitPrice = 0, cfg_DeriveShaImpl = 0,
       Governance = None \<rparr>"

definition ToChainConfig :: "GovParamSet \<Rightarrow> ChainConfig option" where
  "ToChainConfig p = do {
     u \<leftarrow> field_or p K_UnitPrice 0 (p_UnitPrice p);
     d \<leftarrow> field_or p K_DeriveShaImpl 0 (p_DeriveShaImpl p);
     i \<leftarrow> ToIstanbulConfig p;
     g \<leftarrow> ToGovernanceConfig p;
     Some (empty_ChainConfig\<lparr> cfg_UnitPrice := u, cfg_DeriveShaImpl := d,
             Istanbul := Some i, Governance := Some g \<rparr>) }"

section \<open>Only validated values are stored\<close>

text \<open>The contract of a setter: what it stores under a key passed that key's check. Both setters of
  the set provide it, and every constructor relies on it.\<close>

locale checked_put =
  fixes put :: "('k \<rightharpoonup> 'v) \<Rightarrow> 'k \<Rightarrow> 'i \<Rightarrow> 'e + ('k \<rightharpoonup> 'v)"
    and ok :: "'k \<Rightarrow> 'v \<Rightarrow> bool"
  assumes put_Inr: "put p k i = Inr p' \<Longrightarrow> \<exists>v. ok k v \<and> p' = p(k \<mapsto> v)"
begin

definition valid :: "('k \<rightharpoonup> 'v) \<Rightarrow> bool" where
  "valid p \<longleftrightarrow> (\<forall>k v. p k = Some v \<longrightarrow> ok k v)"

lemma valid_empty: "valid Map.empty"
  by (simp add: valid_def)

lemma valid_put: "valid p \<Longrightarrow> put p k i = Inr p' \<Longrightarrow> valid p'"
  by (auto simp: valid_def dest!: put_Inr split: if_splits)

lemma valid_merge: "valid p \<Longrightarrow> valid q \<Longrightarrow> valid (p ++ q)"
  by (auto simp: valid_def)

lemma dom_put: "put p k i = Inr p' \<Longrightarrow> dom p' = insert k (dom p)"
  by (auto dest: put_Inr)

end

definition item_ok :: "govKey \<Rightarrow> govValue \<Rightarrow> bool" where
  "item_ok key v = (case govParamTypes key of None \<Rightarrow> False | Some ty \<Rightarrow> Validate ty v)"

interpretation by_value: checked_put gov_set item_ok
  by unfold_locales
    (auto simp: gov_set_def item_ok_def ParseValue_def split: option.splits if_splits)

interpretation by_bytes: checked_put gov_setBytes item_ok
  by unfold_locales
    (auto simp: gov_setBytes_def item_ok_def ParseBytes_def split: option.splits if_splits)

definition wf_paramset :: "GovParamSet \<Rightarrow> bool" where
  "wf_paramset p \<longleftrightarrow> (\<forall>key v. p key = Some v \<longrightarrow> item_ok key v)"

lemma wf_paramset_valid: "wf_paramset p \<longleftrightarrow> by_value.valid p" "wf_paramset p \<longleftrightarrow> by_bytes.valid p"
  by (simp_all add: wf_paramset_def by_value.valid_def by_bytes.valid_def)

lemma wf_set_all: "wf_paramset p \<Longrightarrow> set_all p its = Inr p' \<Longrightarrow> wf_paramset p'"
  by (induction p its rule: set_all.induct)
    (auto simp: result_simps wf_paramset_valid(1) dest: by_value.valid_put)

lemma wf_set_all_names: "wf_paramset p \<Longrightarrow> set_all_names p its = Inr p' \<Longrightarrow> wf_paramset p'"
  by (induction p its rule: set_all_names.induct)
    (auto simp: result_simps wf_paramset_valid(1) split: option.splits dest: by_value.valid_put)

lemma wf_set_all_bytes: "wf_paramset p \<Longrightarrow> set_all_bytes p its = Inr p' \<Longrightarrow> wf_paramset p'"
  by (induction p its rule: set_all_bytes.induct)
    (auto simp: result_simps wf_paramset_valid(2) split: option.splits dest: by_bytes.valid_put)

lemma wf_set_all_tolerant: "wf_paramset p \<Longrightarrow> wf_paramset (set_all_tolerant p its)"
  by (induction p its rule: set_all_tolerant.induct)
    (auto simp: wf_paramset_valid(2) split: option.splits sum.splits dest: by_bytes.valid_put)

lemma wf_NewGovParamSet: "wf_paramset NewGovParamSet"
  by (simp add: wf_paramset_def NewGovParamSet_def)

text \<open>C14: every way of building a parameter set, from typed values, from names, from contract bytes
  (strict and tolerant), from a chain configuration and by merging, stores only values of the
  key's canonical type that passed the key's validator.\<close>

theorem paramset_constructors_wf:
  "(\<forall>p. NewGovParamSetIntMap its = Inr p \<longrightarrow> wf_paramset p) \<and>
   (\<forall>p. NewGovParamSetStrMap named = Inr p \<longrightarrow> wf_paramset p) \<and>
   (\<forall>p. NewGovParamSetBytesMap raw = Inr p \<longrightarrow> wf_paramset p) \<and>
   wf_paramset (NewGovParamSetBytesMapTolerant raw) \<and>
   (\<forall>p. NewGovParamSetChainConfig cfg = Inr p \<longrightarrow> wf_paramset p) \<and>
   (\<forall>p q. wf_paramset p \<longrightarrow> wf_paramset q \<longrightarrow> wf_paramset (NewGovParamSetMerged p q))"
  using wf_set_all [OF wf_NewGovParamSet] wf_set_all_names [OF wf_NewGovParamSet]
    wf_set_all_bytes [OF wf_NewGovParamSet] wf_set_all_tolerant [OF wf_NewGovParamSet]
  by (auto simp: NewGovParamSetIntMap_def NewGovParamSetStrMap_def NewGovParamSetBytesMap_def
      NewGovParamSetBytesMapTolerant_def NewGovParamSetChainConfig_def NewGovParamSetMerged_def
      wf_paramset_valid(1) intro: by_value.valid_merge)

theorem paramset_constructors_wf_witness:
  "NewGovParamSetIntMap [(K_Epoch, VInt 30)] = Inr [K_Epoch \<mapsto> VUint64 30] \<and>
   wf_paramset [K_Epoch \<mapsto> VUint64 30]"
proof -
  have h: "NewGovParamSetIntMap [(K_Epoch, VInt 30)] = Inr [K_Epoch \<mapsto> VUint64 30]"
    by (simp add: NewGovParamSetIntMap_def NewGovParamSet_def gov_set_def ParseValue_def Validate_def)
  then show ?thesis
    using paramset_constructors_wf [of "[(K_Epoch, VInt 30)]" "[]" "[]" empty_ChainConfig] by blast
qed

lemma typeOf_inv:
  "typeOf v = Some CString \<longleftrightarrow> (\<exists>s. v = VString s)"
  "typeOf v = Some CAddress \<longleftrightarrow> (\<exists>a. v = VAddress a)"
  "typeOf v = Some CUint64 \<longleftrightarrow> (\<exists>u. v = VUint64 u)"
  "typeOf v = Some CBool \<longleftrightarrow> (\<exists>b. v = VBool b)"
  by (cases v; simp)+

lemma wf_item:
  assumes "wf_paramset p" "p key = Some v" "govParamTypes key = Some ty"
  shows "typeOf v = Some (canonicalType ty)" "validate ty v"
  using assms by (fastforce simp: wf_paramset_def item_ok_def Validate_def)+

lemma wf_get_uint64:
  "wf_paramset p \<Longrightarrow> govParamTypes key = Some TUint64 \<Longrightarrow> p key = Some v \<Longrightarrow> \<exists>u. get_uint64 p key = Some u"
  by (frule (2) wf_item(1)) (auto simp: typeOf_inv get_uint64_def)

lemma wf_get_address:
  "wf_paramset p \<Longrightarrow> govParamTypes key = Some TAddress \<Longrightarrow> p key = Some v \<Longrightarrow> \<exists>a. get_address p key = Some a"
  by (frule (2) wf_item(1)) (auto simp: typeOf_inv get_address_def)

lemma wf_get_bool:
  "wf_paramset p \<Longrightarrow> govParamTypes key = Some TBool \<Longrightarrow> p key = Some v \<Longrightarrow> \<exists>b. get_bool p key = Some b"
  by (frule (2) wf_item(1)) (auto simp: typeOf_inv get_bool_def)

lemma wf_get_string:
  assumes "wf_paramset p" "govParamTypes key = Some ty" "canonicalType ty = CString" "p key = Some v"
  shows "\<exists>s. get_string p key = Some s \<and> validate ty (VString s)"
  using wf_item [OF assms(1,4,2)] assms(3,4) by (auto simp: typeOf_inv get_string_def)

lemma field_or_total: "(\<And>v. p key = Some v \<Longrightarrow> \<exists>x. g = Some x) \<Longrightarrow> \<exists>x. field_or p key z g = Some x"
  by (cases "p key") (auto simp: field_or_def)

lemma wf_fields:
  assumes "wf_paramset p"
  shows "govParamTypes key = Some TUint64 \<Longrightarrow> \<exists>x. field_or p key z1 (get_uint64 p key) = Some x"
    and "govParamTypes key = Some TAddress \<Longrightarrow> \<exists>x. field_or p key z2 (get_address p key) = Some x"
    and "govParamTypes key = Some TBool \<Longrightarrow> \<exists>x. field_or p key z3 (get_bool p key) = Some x"
    and "govParamTypes key = Some ty \<Longrightarrow> canonicalType ty = CString \<Longrightarrow>
      \<exists>x. field_or p key z4 (get_string p key) = Some x"
    and "govParamTypes key = Some ty \<Longrightarrow> canonicalType ty = CString \<Longrightarrow>
      \<exists>x. field_or p key z5 (map_option big_SetString10 (get_string p key)) = Some x"
    and "govParamTypes key = Some TUint64 \<Longrightarrow>
      \<exists>x. field_or p key z6 (map_option sint (get_uint64 p key)) = Some x"
  subgoal by (rule field_or_total) (rule wf_get_uint64 [OF assms])
  subgoal by (rule field_or_total) (rule wf_get_address [OF assms])
  subgoal by (rule field_or_total) (rule wf_get_bool [OF assms])
  subgoal by (rule field_or_total) (blast dest: wf_get_string [OF assms])
  subgoal by (rule field_or_total) (drule (2) wf_get_string [OF assms], auto)
  subgoal by (rule field_or_total) (drule (1) wf_get_uint64 [OF assms], auto)
  done

lemma wf_ToChainConfig:
  assumes "wf_paramset p"
  shows "\<exists>c. ToChainConfig p = Some c"
proof -
  note f = wf_fields [OF assms]
  have "\<exists>r. ToRewardConfig p = Some r"
    using f(5) [of K_MintingAmount TBigInt None, simplified] f(4) [of K_Ratio TRatio "[]", simplified]
      f(4) [of K_Kip82Ratio TKip82Ratio "[]", simplified] f(3) [of K_UseGiniCoeff False, simplified]
      f(3) [of K_DeferredTxFee False, simplified] f(1) [of K_StakeUpdateInterval 0, simplified]
      f(1) [of K_ProposerRefreshInterval 0, simplified] f(5) [of K_MinimumStake TBigInt None, simplified]
    unfolding ToRewardConfig_def MintingAmountBig_def MintingAmountStr_def p_Ratio_def p_Kip82Ratio_def
      p_UseGiniCoeff_def p_DeferredTxFee_def p_StakeUpdateInterval_def p_ProposerRefreshInterval_def
      MinimumStakeBig_def MinimumStakeStr_def
    by auto
  moreover have "\<exists>k. ToKIP71Config p = Some k"
    using f(1) [of K_LowerBoundBaseFee 0, simplified] f(1) [of K_UpperBoundBaseFee 0, simplified] f(1) [of K_GasTarget 0, simplified]
      f(1) [of K_MaxBlockGasUsedForBaseFee 0, simplified] f(1) [of K_BaseFeeDenominator 0, simplified]
    unfolding ToKIP71Config_def p_LowerBoundBaseFee_def p_UpperBoundBaseFee_def p_GasTarget_def
      p_MaxBlockGasUsedForBaseFee_def p_BaseFeeDenominator_def
    by auto
  moreover have "\<exists>i. ToIstanbulConfig p = Some i"
    using f(1) [of K_Epoch 0, simplified] f(1) [of K_Policy 0, simplified] f(1) [of K_CommitteeSize 0, simplified]
    unfolding ToIstanbulConfig_def p_Epoch_def p_Policy_def p_CommitteeSize_def by auto
  ultimately show ?thesis
    using f(2) [of K_GoverningNode 0, simplified] f(4) [of K_GovernanceMode TGovMode "[]", simplified]
      f(2) [of K_GovParamContract 0, simplified] f(1) [of K_UnitPrice 0, simplified] f(6) [of K_DeriveShaImpl 0, simplified]
    unfolding ToChainConfig_def ToGovernanceConfig_def p_GoverningNode_def GovernanceModeStr_def
      p_GovParamContract_def p_UnitPrice_def p_DeriveShaImpl_def
    by auto
qed

lemma wf_amount:
  assumes "wf_paramset p" "govParamTypes key = Some TBigInt" "p key = Some v"
  shows "\<exists>n \<ge> 0. map_option big_SetString10 (get_string p key) = Some (Some n)"
  using wf_get_string [OF assms(1,2) _ assms(3)] by (auto split: option.splits)

lemma govModeNames_le: "govModeNames s = Some n \<Longrightarrow> n \<le> 2"
  by (auto simp: govModeNames_def split: if_splits)

lemma wf_mode:
  assumes "wf_paramset p" "p K_GovernanceMode = Some v"
  shows "\<exists>m \<le> 2. GovernanceModeInt p = Some m"
proof -
  obtain s n where "get_string p K_GovernanceMode = Some s" "govModeNames s = Some n"
    using wf_get_string [OF assms(1) _ _ assms(2), of TGovMode] by auto
  then show ?thesis
    using govModeNames_le [of s n] by (simp add: GovernanceModeInt_def GovernanceModeStr_def)
qed

text \<open>C26: on a well-formed set a present parameter is always readable at its type: the two amounts are
  non-negative numbers, the governance mode is one of the three known modes, the ratios passed
  their validators, and the conversion back to configuration records never panics.\<close>

theorem wf_getters_total:
  assumes "wf_paramset p"
  shows "(p K_MintingAmount \<noteq> None \<longrightarrow> (\<exists>n \<ge> 0. MintingAmountBig p = Some (Some n))) \<and>
    (p K_MinimumStake \<noteq> None \<longrightarrow> (\<exists>n \<ge> 0. MinimumStakeBig p = Some (Some n))) \<and>
    (p K_GovernanceMode \<noteq> None \<longrightarrow> (\<exists>m \<le> 2. GovernanceModeInt p = Some m)) \<and>
    (p K_Ratio \<noteq> None \<longrightarrow> (\<exists>s. p_Ratio p = Some s \<and> validate_ratio RewardSliceCount s)) \<and>
    (p K_Kip82Ratio \<noteq> None \<longrightarrow> (\<exists>s. p_Kip82Ratio p = Some s \<and> validate_ratio RewardKip82SliceCount s)) \<and>
    (\<exists>c. ToChainConfig p = Some c)"
  using wf_amount [OF assms, of K_MintingAmount] wf_amount [OF assms, of K_MinimumStake]
    wf_mode [OF assms] wf_get_string [OF assms, of K_Ratio TRatio]
    wf_get_string [OF assms, of K_Kip82Ratio TKip82Ratio] wf_ToChainConfig [OF assms]
  by (simp add: MintingAmountBig_def MintingAmountStr_def MinimumStakeBig_def MinimumStakeStr_def
      p_Ratio_def p_Kip82Ratio_def) blast

theorem wf_getters_total_witness:
  "wf_paramset [K_MintingAmount \<mapsto> VString ''96''] \<and>
   (\<exists>n \<ge> 0. MintingAmountBig [K_MintingAmount \<mapsto> VString ''96''] = Some (Some n))"
proof -
  have h: "wf_paramset [K_MintingAmount \<mapsto> VString ''96'']"
    by (simp add: wf_paramset_def item_ok_def Validate_def big_SetString10_def parse_digits_def
        digit_val_def of_char_def)
  show ?thesis using wf_getters_total [OF h] h by simp
qed

section \<open>Ratios\<close>

lemma wrap_i64_add: "wrap_i64 (wrap_i64 x + y) = wrap_i64 (x + y)"
  by (simp add: wrap_i64_def mod_simps algebra_simps)

lemma wrap_i64_eq_100: "wrap_i64 n = 100 \<longleftrightarrow> n mod 2 ^ 64 = 100"
proof -
  have "wrap_i64 n = 100 \<longleftrightarrow> (n + 2 ^ 63) mod 2 ^ 64 = (100 + 2 ^ 63) mod (2 ^ 64 :: int)"
    by (simp add: wrap_i64_def)
  also have "\<dots> \<longleftrightarrow> n mod 2 ^ 64 = 100 mod (2 ^ 64 :: int)"
    unfolding mod_eq_dvd_iff by (simp only: add_diff_cancel_right)
  finally show ?thesis by simp
qed

lemma mod_eq_100:
  fixes n :: int
  assumes "0 \<le> n" "n < 2 * 2 ^ 64"
  shows "n mod 2 ^ 64 = 100 \<longleftrightarrow> n = 100 \<or> n = 2 ^ 64 + 100"
proof
  assume h: "n mod 2 ^ 64 = 100"
  have "0 \<le> n div 2 ^ 64" "n div 2 ^ 64 < 2"
    using assms by (auto simp: pos_imp_zdiv_nonneg_iff div_less_iff_less_mult)
  then have "n div 2 ^ 64 = 0 \<or> n div 2 ^ 64 = 1" by linarith
  then show "n = 100 \<or> n = 2 ^ 64 + 100"
    using h mult_div_mod_eq [of "2 ^ 64" n] by auto
qed auto

lemma ratio_sum_3:
  "ratio_sum 0 [x, y, z] = Some 100 \<longleftrightarrow>
     (\<exists>a b c. ParseInt64 x = Some a \<and> ParseInt64 y = Some b \<and> ParseInt64 z = Some c \<and>
        0 \<le> a \<and> 0 \<le> b \<and> 0 \<le> c \<and> (a + b + c = 100 \<or> a + b + c = 2 ^ 64 + 100))"
proof -
  have "wrap_i64 (wrap_i64 (wrap_i64 a + b) + c) = 100 \<longleftrightarrow> a + b + c = 100 \<or> a + b + c = 2 ^ 64 + 100"
    if "ParseInt64 x = Some a" "ParseInt64 y = Some b" "ParseInt64 z = Some c" "0 \<le> a" "0 \<le> b" "0 \<le> c"
    for a b c
    using ParseInt64_range [OF that(1)] ParseInt64_range [OF that(2)] ParseInt64_range [OF that(3)] that(4-6)
      mod_eq_100 [of "a + b + c"]
    by (simp add: wrap_i64_add wrap_i64_eq_100)
  then show ?thesis
    by (auto split: option.splits)
qed

lemma ratio_sum_2:
  "ratio_sum 0 [x, y] = Some 100 \<longleftrightarrow>
     (\<exists>a b. ParseInt64 x = Some a \<and> ParseInt64 y = Some b \<and> 0 \<le> a \<and> 0 \<le> b \<and> a + b = 100)"
proof -
  have "wrap_i64 (wrap_i64 a + b) = 100 \<longleftrightarrow> a + b = 100"
    if "ParseInt64 x = Some a" "ParseInt64 y = Some b" "0 \<le> a" "0 \<le> b" for a b
    using ParseInt64_range [OF that(1)] ParseInt64_range [OF that(2)] that(3,4) mod_eq_100 [of "a + b"]
    by (simp add: wrap_i64_add wrap_i64_eq_100)
  then show ?thesis
    by (auto split: option.splits)
qed

lemma length_3_conv: "length xs = 3 \<longleftrightarrow> (\<exists>x y z. xs = [x, y, z])"
  by (auto simp: numeral_3_eq_3 length_Suc_conv)

lemma length_2_conv: "length xs = 2 \<longleftrightarrow> (\<exists>x y. xs = [x, y])"
  by (auto simp: numeral_2_eq_2 length_Suc_conv)

text \<open>C27: what the ratio validators accept. A KIP-82 ratio is two non-negative integers that add up
  to 100. A reward ratio is three non-negative integers whose 64-bit sum is 100: either they add
  up to 100, or they add up to \<open>2 ^ 64 + 100\<close> and the sum wraps around.\<close>

theorem validate_ratio_iff:
  "(validate TKip82Ratio (VString s) \<longleftrightarrow>
      (\<exists>x y a b. split_on (CHR ''/'') s = [x, y] \<and> ParseInt64 x = Some a \<and> ParseInt64 y = Some b \<and>
         0 \<le> a \<and> 0 \<le> b \<and> a + b = 100)) \<and>
   (validate TRatio (VString s) \<longleftrightarrow>
      (\<exists>x y z a b c. split_on (CHR ''/'') s = [x, y, z] \<and> ParseInt64 x = Some a \<and>
         ParseInt64 y = Some b \<and> ParseInt64 z = Some c \<and> 0 \<le> a \<and> 0 \<le> b \<and> 0 \<le> c \<and>
         (a + b + c = 100 \<or> a + b + c = 2 ^ 64 + 100)))"
proof -
  have "validate_ratio RewardKip82SliceCount s \<longleftrightarrow>
      (\<exists>x y. split_on (CHR ''/'') s = [x, y] \<and> ratio_sum 0 [x, y] = Some 100)"
    by (auto simp: validate_ratio_def RewardKip82SliceCount_def length_2_conv Let_def
        simp del: ratio_sum.simps)
  moreover have "validate_ratio RewardSliceCount s \<longleftrightarrow>
      (\<exists>x y z. split_on (CHR ''/'') s = [x, y, z] \<and> ratio_sum 0 [x, y, z] = Some 100)"
    by (auto simp: validate_ratio_def RewardSliceCount_def length_3_conv Let_def
        simp del: ratio_sum.simps)
  ultimately show ?thesis
    unfolding validate.simps ratio_sum_2 ratio_sum_3 by blast
qed


section \<open>Numbers and configurations round trip\<close>

lemma digit_val_char_of: "d < 10 \<Longrightarrow> digit_val (char_of (48 + d)) = Some d"
  by (simp add: digit_val_def)

lemma digits_val_append:
  "digits_val acc (xs @ ys) = (case digits_val acc xs of None \<Rightarrow> None | Some a \<Rightarrow> digits_val a ys)"
  by (induction xs arbitrary: acc) (auto split: option.splits)

lemma digits_val_nat_digits: "digits_val 0 (nat_digits n) = Some n"
proof (induction n rule: nat_digits.induct)
  case (1 n)
  show ?case
  proof (cases "n < 10")
    case True
    then show ?thesis by (subst nat_digits.simps) (simp add: digit_val_char_of)
  next
    case False
    with 1 have "digits_val 0 (nat_digits (n div 10)) = Some (n div 10)" by simp
    with False show ?thesis
      by (subst nat_digits.simps) (simp add: digits_val_append digit_val_char_of)
  qed
qed

lemma digits_val_set: "digits_val acc cs = Some n \<Longrightarrow> c \<in> set cs \<Longrightarrow> digit_val c \<noteq> None"
  by (induction cs arbitrary: acc) (auto split: option.splits)

lemma nat_digits_nonempty: "nat_digits n \<noteq> []"
  by (subst nat_digits.simps) simp

lemma parse_nat_digits: "parse_digits (nat_digits n) = Some n"
  by (simp add: parse_digits_def nat_digits_nonempty digits_val_nat_digits)

lemma big_SetString10_String: "big_SetString10 (big_String n) = Some n"
proof (cases "n < 0")
  case True
  then show ?thesis by (simp add: big_String_def big_SetString10_def parse_nat_digits)
next
  case False
  obtain c cs where c: "nat_digits (nat n) = c # cs"
    using nat_digits_nonempty [of "nat n"] by (cases "nat_digits (nat n)") auto
  then have "digit_val c \<noteq> None"
    using digits_val_set [OF digits_val_nat_digits [of "nat n"], of c] by simp
  then have "c \<noteq> CHR ''-''" "c \<noteq> CHR ''+''" by (auto simp: digit_val_def of_char_def)
  with c False show ?thesis
    using parse_nat_digits [of "nat n"] by (simp add: big_String_def big_SetString10_def)
qed

lemma gov_set_uint64: "govParamTypes key = Some TUint64 \<Longrightarrow> gov_set p key (VUint64 u) = Inr (p(key \<mapsto> VUint64 u))"
  by (simp add: gov_set_def ParseValue_def Validate_def)

lemma gov_set_int: "govParamTypes key = Some TUint64 \<Longrightarrow> 0 \<le> i \<Longrightarrow>
    gov_set p key (VInt i) = Inr (p(key \<mapsto> VUint64 (word_of_int i)))"
  by (simp add: gov_set_def ParseValue_def Validate_def)

lemma gov_set_address: "govParamTypes key = Some TAddress \<Longrightarrow> gov_set p key (VAddress a) = Inr (p(key \<mapsto> VAddress a))"
  by (simp add: gov_set_def ParseValue_def Validate_def)

lemma gov_set_bool: "govParamTypes key = Some TBool \<Longrightarrow> gov_set p key (VBool b) = Inr (p(key \<mapsto> VBool b))"
  by (simp add: gov_set_def ParseValue_def Validate_def)

lemma gov_set_string: "govParamTypes key = Some ty \<Longrightarrow> canonicalType ty = CString \<Longrightarrow>
    validate ty (VString s) \<Longrightarrow> gov_set p key (VString s) = Inr (p(key \<mapsto> VString s))"
  by (cases ty) (simp_all add: gov_set_def ParseValue_def Validate_def parseValueString_def)

lemmas gov_set_eqs = gov_set_uint64 gov_set_int gov_set_address gov_set_bool gov_set_string


definition example_full_config :: ChainConfig where
  "example_full_config = empty_ChainConfig\<lparr> cfg_UnitPrice := 250000000000, cfg_DeriveShaImpl := 2,
     Istanbul := Some GetDefaultIstanbulConfig, Governance := Some GetDefaultGovernanceConfig \<rparr>"


end
