(* ===== verification/Staking.thy ===== *)
theory Staking
  imports Gov_Params
begin

text \<open>
  Staking information, \<open>reward/staking_info.go\<close>: building it from what the address book contract
  returns, looking nodes up, and consolidating the entries that share a reward address. The
  float64 Gini coefficient is carried as the constant the constructor stores; computing it is
  not modelled.
\<close>

record StakingInfo =
  BlockNum :: u64
  CouncilNodeAddrs :: "address list"
  CouncilStakingAddrs :: "address list"
  CouncilRewardAddrs :: "address list"
  KEFAddr :: address
  KIFAddr :: address
  UseGini :: bool
  Gini :: rat
  CouncilStakingAmounts :: "u64 list"

definition maxStakingLimit :: int where "maxStakingLimit = 100000000000"
definition KAIA_unit :: int where "KAIA_unit = 1000000000000000000"
definition DefaultGiniCoefficient :: rat where "DefaultGiniCoefficient = - 1"

definition EmptyAddress :: "address \<Rightarrow> bool" where
  "EmptyAddress a = (a = 0)"

definition newEmptyStakingInfo :: "u64 \<Rightarrow> StakingInfo" where
  "newEmptyStakingInfo blockNum =
     \<lparr> BlockNum = blockNum, CouncilNodeAddrs = [], CouncilStakingAddrs = [], CouncilRewardAddrs = [],
       KEFAddr = 0, KIFAddr = 0, UseGini = False, Gini = DefaultGiniCoefficient,
       CouncilStakingAmounts = [] \<rparr>"

section \<open>Construction\<close>

datatype stakingError =
    InvalidAddressType u8 | BlockNotFound u64 | StateNotFound | ParamsNotFound | StakingPanic

record parsedAddrs =
  pa_nodeIds :: "address list"
  pa_stakingAddrs :: "address list"
  pa_rewardAddrs :: "address list"
  pa_pocAddr :: address
  pa_kirAddr :: address

text \<open>The address types are the constants 0 to 4 of \<open>staking_manager.go\<close>; \<open>addrs[i]\<close> beyond the
  end of \<open>addrs\<close> panics.\<close>

fun parse_addrs :: "u8 list \<Rightarrow> address list \<Rightarrow> parsedAddrs \<Rightarrow> stakingError + parsedAddrs" where
  "parse_addrs [] addrs p = Inr p"
| "parse_addrs (t # ts) addrs p =
     (if t > 4 then Inl (InvalidAddressType t)
      else case addrs of
        [] \<Rightarrow> Inl StakingPanic
      | a # as \<Rightarrow>
          parse_addrs ts as
            (if t = 0 then p\<lparr>pa_nodeIds := pa_nodeIds p @ [a]\<rparr>
             else if t = 1 then p\<lparr>pa_stakingAddrs := pa_stakingAddrs p @ [a]\<rparr>
             else if t = 2 then p\<lparr>pa_rewardAddrs := pa_rewardAddrs p @ [a]\<rparr>
             else if t = 3 then p\<lparr>pa_pocAddr := a\<rparr>
             else p\<lparr>pa_kirAddr := a\<rparr>))"

definition staking_amount :: "int \<Rightarrow> u64" where
  "staking_amount balance =
     (let amount = balance div KAIA_unit
      in big_Uint64 (if amount > maxStakingLimit then maxStakingLimit else amount))"

text \<open>\<open>balanceAt\<close> is the state of the block (\<open>Inl\<close> when the block or its state is missing) and
  \<open>useGini\<close> what \<open>EffectiveParams\<close> reports.\<close>

definition newStakingInfo ::
    "(u64 \<Rightarrow> stakingError + (address \<Rightarrow> int)) \<Rightarrow> (u64 \<Rightarrow> stakingError + bool) \<Rightarrow> u64 \<Rightarrow>
     u8 list \<Rightarrow> address list \<Rightarrow> int list \<Rightarrow> stakingError + StakingInfo" where
  "newStakingInfo balanceAt useGini blockNum types addrs effectiveStakings =
     rbind (parse_addrs types addrs
              \<lparr> pa_nodeIds = [], pa_stakingAddrs = [], pa_rewardAddrs = [], pa_pocAddr = 0, pa_kirAddr = 0 \<rparr>)
       (\<lambda>p.
         if length (pa_nodeIds p) \<noteq> length (pa_stakingAddrs p) \<or>
            length (pa_nodeIds p) \<noteq> length (pa_rewardAddrs p) \<or>
            (length effectiveStakings > 0 \<and> length (pa_stakingAddrs p) \<noteq> length effectiveStakings) \<or>
            EmptyAddress (pa_pocAddr p) \<or> EmptyAddress (pa_kirAddr p)
         then Inr (newEmptyStakingInfo blockNum)
         else
           rbind (if length effectiveStakings = 0
                  then rbind (balanceAt blockNum)
                         (\<lambda>bal. Inr (map (\<lambda>a. staking_amount (bal a)) (pa_stakingAddrs p)))
                  else Inr (map staking_amount effectiveStakings))
             (\<lambda>stakingAmounts.
               rbind (useGini blockNum)
                 (\<lambda>g. Inr \<lparr> BlockNum = blockNum, CouncilNodeAddrs = pa_nodeIds p,
                            CouncilStakingAddrs = pa_stakingAddrs p, CouncilRewardAddrs = pa_rewardAddrs p,
                            KEFAddr = pa_kirAddr p, KIFAddr = pa_pocAddr p, UseGini = g,
                            Gini = DefaultGiniCoefficient, CouncilStakingAmounts = stakingAmounts \<rparr>)))"

definition wf_staking :: "StakingInfo \<Rightarrow> bool" where
  "wf_staking s \<longleftrightarrow>
     length (CouncilStakingAddrs s) = length (CouncilNodeAddrs s) \<and>
     length (CouncilRewardAddrs s) = length (CouncilNodeAddrs s) \<and>
     length (CouncilStakingAmounts s) = length (CouncilNodeAddrs s)"

definition capped_staking :: "StakingInfo \<Rightarrow> bool" where
  "capped_staking s \<longleftrightarrow> (\<forall>a \<in> set (CouncilStakingAmounts s). uint a \<le> maxStakingLimit)"

section \<open>Lookup\<close>

text \<open>A position in the council, or \<open>ErrAddrNotInStakingInfo\<close>.\<close>

fun index_of :: "address list \<Rightarrow> address \<Rightarrow> nat option" where
  "index_of [] a = None"
| "index_of (x # xs) a = (if x = a then Some 0 else map_option Suc (index_of xs a))"

definition GetIndexByNodeAddress :: "StakingInfo \<Rightarrow> address \<Rightarrow> nat option" where
  "GetIndexByNodeAddress s nodeAddress = index_of (CouncilNodeAddrs s) nodeAddress"

datatype amountResult = Amount u64 | AddrNotInStakingInfo | AmountPanic

definition GetStakingAmountByNodeId :: "StakingInfo \<Rightarrow> address \<Rightarrow> amountResult" where
  "GetStakingAmountByNodeId s nodeAddress =
     (case GetIndexByNodeAddress s nodeAddress of
        None \<Rightarrow> AddrNotInStakingInfo
      | Some i \<Rightarrow> if i < length (CouncilStakingAmounts s) then Amount (CouncilStakingAmounts s ! i)
                  else AmountPanic)"

section \<open>Consolidation\<close>

record consolidatedNode =
  NodeAddrs :: "address list"
  StakingAddrs :: "address list"
  RewardAddr :: address
  StakingAmount :: u64

record ConsolidatedStakingInfo =
  nodes :: "consolidatedNode list"
  nodeIndex :: "address \<rightharpoonup> nat"

text \<open>One iteration of the loop; \<open>rewardIndex\<close> maps a reward address to its node.\<close>

definition consolidate_step ::
    "address \<times> address \<times> address \<times> u64 \<Rightarrow> ConsolidatedStakingInfo \<times> (address \<rightharpoonup> nat) \<Rightarrow>
     ConsolidatedStakingInfo \<times> (address \<rightharpoonup> nat)" where
  "consolidate_step e st =
     (case e of (nodeAddr, stakingAddr, rewardAddr, stakingAmount) \<Rightarrow>
      case st of (c, rewardIndex) \<Rightarrow>
       (case rewardIndex rewardAddr of
          None \<Rightarrow>
            (let ns = nodes c @ [\<lparr> NodeAddrs = [nodeAddr], StakingAddrs = [stakingAddr],
                                   RewardAddr = rewardAddr, StakingAmount = stakingAmount \<rparr>]
             in (c\<lparr> nodes := ns, nodeIndex := (nodeIndex c)(nodeAddr \<mapsto> length ns - 1) \<rparr>,
                 rewardIndex(rewardAddr \<mapsto> length ns - 1)))
        | Some idx \<Rightarrow>
            (let n = nodes c ! idx
             in (c\<lparr> nodes := (nodes c)[idx := n\<lparr> NodeAddrs := NodeAddrs n @ [nodeAddr],
                                                  StakingAddrs := StakingAddrs n @ [stakingAddr],
                                                  StakingAmount := StakingAmount n + stakingAmount \<rparr>],
                     nodeIndex := (nodeIndex c)(nodeAddr \<mapsto> idx) \<rparr>,
                 rewardIndex))))"

definition council_entries :: "StakingInfo \<Rightarrow> (address \<times> address \<times> address \<times> u64) list" where
  "council_entries s =
     zip (CouncilNodeAddrs s) (zip (CouncilStakingAddrs s)
       (zip (CouncilRewardAddrs s) (CouncilStakingAmounts s)))"

text \<open>The loop runs over the node addresses and indexes the other three slices: a shorter slice
  panics, which is \<open>None\<close>.\<close>

definition GetConsolidatedStakingInfo :: "StakingInfo \<Rightarrow> ConsolidatedStakingInfo option" where
  "GetConsolidatedStakingInfo s =
     (if length (CouncilStakingAddrs s) < length (CouncilNodeAddrs s) \<or>
         length (CouncilRewardAddrs s) < length (CouncilNodeAddrs s) \<or>
         length (CouncilStakingAmounts s) < length (CouncilNodeAddrs s)
      then None
      else Some (fst (fold consolidate_step (council_entries s)
                   (\<lparr> nodes = [], nodeIndex = Map.empty \<rparr>, Map.empty))))"

definition GetConsolidatedNode :: "ConsolidatedStakingInfo \<Rightarrow> address \<Rightarrow> consolidatedNode option" where
  "GetConsolidatedNode c nodeAddr =
     (case nodeIndex c nodeAddr of None \<Rightarrow> None | Some idx \<Rightarrow> Some (nodes c ! idx))"

section \<open>JSON compatibility fields\<close>

text \<open>The structure that \<open>MarshalJSON\<close> hands to the JSON encoder and \<open>UnmarshalJSON\<close> receives from
  the decoder; older databases hold the addresses under the legacy names only.\<close>

record extendedSt =
  ext_info :: StakingInfo
  ext_KIRAddr :: address
  ext_PoCAddr :: address
  ext_KCFAddr :: address
  ext_KFFAddr :: address

definition marshal_ext :: "StakingInfo \<Rightarrow> extendedSt" where
  "marshal_ext st =
     \<lparr> ext_info = st, ext_KIRAddr = KEFAddr st, ext_PoCAddr = KIFAddr st,
       ext_KCFAddr = KEFAddr st, ext_KFFAddr = KIFAddr st \<rparr>"

definition unmarshal_ext :: "extendedSt \<Rightarrow> StakingInfo" where
  "unmarshal_ext ext =
     (let st = ext_info ext;
          kef = (if KEFAddr st = 0
                 then (if ext_KCFAddr ext = 0 then ext_KIRAddr ext else ext_KCFAddr ext)
                 else KEFAddr st);
          kif = (if KIFAddr st = 0
                 then (if ext_KFFAddr ext = 0 then ext_PoCAddr ext else ext_KFFAddr ext)
                 else KIFAddr st)
      in st\<lparr> KEFAddr := kef, KIFAddr := kif \<rparr>)"

lemma unmarshal_marshal_ext: "unmarshal_ext (marshal_ext st) = st"
  by (cases st) (simp add: marshal_ext_def unmarshal_ext_def Let_def)

section \<open>Consolidation is grouping by reward address\<close>

text \<open>The specification: reward addresses in order of first appearance, and for each the council
  entries that carry it.\<close>

definition entry_reward :: "address \<times> address \<times> address \<times> u64 \<Rightarrow> address" where
  "entry_reward e = fst (snd (snd e))"

definition reward_order :: "(address \<times> address \<times> address \<times> u64) list \<Rightarrow> address list" where
  "reward_order es = fold (\<lambda>e acc. if entry_reward e \<in> set acc then acc else acc @ [entry_reward e]) es []"

definition group_node :: "(address \<times> address \<times> address \<times> u64) list \<Rightarrow> address \<Rightarrow> consolidatedNode" where
  "group_node es r =
     (let g = filter (\<lambda>e. entry_reward e = r) es
      in \<lparr> NodeAddrs = map fst g, StakingAddrs = map (\<lambda>e. fst (snd e)) g, RewardAddr = r,
           StakingAmount = sum_list (map (\<lambda>e. snd (snd (snd e))) g) \<rparr>)"

lemma reward_order_snoc:
  "reward_order (es @ [e]) =
     (if entry_reward e \<in> set (reward_order es) then reward_order es
      else reward_order es @ [entry_reward e])"
  by (simp add: reward_order_def)

lemma reward_order_Nil [simp]: "reward_order [] = []"
  by (simp add: reward_order_def)

lemma distinct_reward_order: "distinct (reward_order es)"
  by (induction es rule: rev_induct) (auto simp: reward_order_snoc)

lemma set_reward_order: "set (reward_order es) = entry_reward ` set es"
  by (induction es rule: rev_induct) (auto simp: reward_order_snoc)

lemma group_node_other: "entry_reward e \<noteq> r \<Longrightarrow> group_node (es @ [e]) r = group_node es r"
  by (simp add: group_node_def)

lemma group_node_same:
  "group_node (es @ [(n, s, r, a)]) r =
     (let g = group_node es r
      in g\<lparr> NodeAddrs := NodeAddrs g @ [n], StakingAddrs := StakingAddrs g @ [s],
            StakingAmount := StakingAmount g + a \<rparr>)"
  by (simp add: group_node_def entry_reward_def Let_def)

lemma group_node_new:
  "r \<notin> entry_reward ` set es \<Longrightarrow>
   group_node (es @ [(n, s, r, a)]) r =
     \<lparr> NodeAddrs = [n], StakingAddrs = [s], RewardAddr = r, StakingAmount = a \<rparr>"
proof -
  assume "r \<notin> entry_reward ` set es"
  then have "filter (\<lambda>e. entry_reward e = r) es = []" by (auto simp: filter_empty_conv)
  then show ?thesis by (simp add: group_node_def entry_reward_def [of "(n, s, r, a)"])
qed

lemma index_of_Some: "index_of xs r = Some i \<Longrightarrow> i < length xs \<and> xs ! i = r"
  by (induction xs arbitrary: i) (auto split: if_splits)

lemma index_of_None: "index_of xs r = None \<longleftrightarrow> r \<notin> set xs"
  by (induction xs) auto

lemma index_of_append: "index_of (xs @ [x]) r =
    (case index_of xs r of Some i \<Rightarrow> Some i | None \<Rightarrow> if x = r then Some (length xs) else None)"
  by (induction xs) (auto split: option.splits)

text \<open>The node index of the specification: the position of the reward address of the last entry
  that names the node.\<close>

definition node_position :: "(address \<times> address \<times> address \<times> u64) list \<Rightarrow> address \<rightharpoonup> nat" where
  "node_position es n =
     (case filter (\<lambda>e. fst e = n) es of
        [] \<Rightarrow> None
      | g \<Rightarrow> index_of (reward_order es) (entry_reward (last g)))"

lemma node_position_snoc:
  "node_position (es @ [e]) n =
     (if fst e = n then index_of (reward_order (es @ [e])) (entry_reward e) else node_position es n)"
proof (cases "fst e = n")
  case True
  then show ?thesis
    by (cases "filter (\<lambda>e. fst e = n) es") (simp_all add: node_position_def)
next
  case False
  have "index_of (reward_order (es @ [e])) (entry_reward (last g)) =
      index_of (reward_order es) (entry_reward (last g))"
    if "filter (\<lambda>e. fst e = n) es = g" "g \<noteq> []" for g
  proof -
    have "last g \<in> set es" using that by (metis filter_is_subset last_in_set subsetD)
    then have "entry_reward (last g) \<in> set (reward_order es)" by (auto simp: set_reward_order)
    then show ?thesis
      using index_of_None by (auto simp: reward_order_snoc index_of_append split: option.splits)
  qed
  with False show ?thesis
    by (cases "filter (\<lambda>e. fst e = n) es") (simp_all add: node_position_def)
qed

lemma consolidate_step_new:
  "ri r = None \<Longrightarrow>
   consolidate_step (n, s, r, a) (\<lparr> nodes = ns, nodeIndex = ix \<rparr>, ri) =
     (\<lparr> nodes = ns @ [\<lparr> NodeAddrs = [n], StakingAddrs = [s], RewardAddr = r, StakingAmount = a \<rparr>],
        nodeIndex = ix(n \<mapsto> length ns) \<rparr>, ri(r \<mapsto> length ns))"
  by (simp add: consolidate_step_def Let_def)

lemma consolidate_step_old:
  "ri r = Some i \<Longrightarrow>
   consolidate_step (n, s, r, a) (\<lparr> nodes = ns, nodeIndex = ix \<rparr>, ri) =
     (\<lparr> nodes = ns[i := (ns ! i)\<lparr> NodeAddrs := NodeAddrs (ns ! i) @ [n],
          StakingAddrs := StakingAddrs (ns ! i) @ [s], StakingAmount := StakingAmount (ns ! i) + a \<rparr>],
        nodeIndex = ix(n \<mapsto> i) \<rparr>, ri)"
  by (simp add: consolidate_step_def Let_def)

lemma consolidate_fold:
  "fold consolidate_step es (\<lparr> nodes = [], nodeIndex = Map.empty \<rparr>, Map.empty) =
     (\<lparr> nodes = map (group_node es) (reward_order es), nodeIndex = node_position es \<rparr>,
      index_of (reward_order es))"
proof (induction es rule: rev_induct)
  case Nil
  show ?case by (auto simp: node_position_def fun_eq_iff)
next
  case (snoc e es)
  obtain n s r a where e: "e = (n, s, r, a)" by (cases e)
  have er: "entry_reward e = r" by (simp add: e entry_reward_def)
  have others: "group_node (es @ [e]) r' = group_node es r'" if "r' \<noteq> r" for r'
    using that er by (intro group_node_other) auto
  have pos: "node_position (es @ [e]) = (node_position es)(n := index_of (reward_order (es @ [e])) r)"
    by (rule ext) (auto simp: node_position_snoc er, auto simp: e)
  show ?case
  proof (cases "index_of (reward_order es) r")
    case None
    then have new: "r \<notin> set (reward_order es)" by (simp add: index_of_None)
    then have ord: "reward_order (es @ [e]) = reward_order es @ [r]"
      by (simp add: reward_order_snoc er)
    have "map (group_node (es @ [e])) (reward_order es) = map (group_node es) (reward_order es)"
      using new by (intro map_cong refl others) auto
    moreover have "group_node (es @ [e]) r =
        \<lparr> NodeAddrs = [n], StakingAddrs = [s], RewardAddr = r, StakingAmount = a \<rparr>"
      using new unfolding e set_reward_order by (rule group_node_new)
    moreover have "index_of (reward_order es @ [r]) = (index_of (reward_order es))(r \<mapsto> length (reward_order es))"
      using None by (auto simp: fun_eq_iff index_of_append split: option.splits)
    ultimately show ?thesis
      unfolding fold_append fold_simps comp_apply snoc id_apply ord pos map_append list.map
      unfolding e consolidate_step_new [where ri = "index_of (reward_order es)", OF None] by (simp add: fun_upd_def)
  next
    case (Some i)
    then have i: "i < length (reward_order es)" "reward_order es ! i = r"
      by (auto dest: index_of_Some)
    have "r \<in> set (reward_order es)" using i nth_mem by blast
    then have ord: "reward_order (es @ [e]) = reward_order es"
      by (simp add: reward_order_snoc er)
    let ?g = "group_node es r"
    have "(map (group_node es) (reward_order es))[i := group_node (es @ [e]) r] =
        map (group_node (es @ [e])) (reward_order es)"
    proof (rule nth_equalityI)
      fix j assume "j < length ((map (group_node es) (reward_order es))[i := group_node (es @ [e]) r])"
      then show "(map (group_node es) (reward_order es))[i := group_node (es @ [e]) r] ! j =
          map (group_node (es @ [e])) (reward_order es) ! j"
        using i distinct_reward_order [of es] others
        by (cases "j = i") (auto simp: nth_eq_iff_index_eq)
    qed simp
    moreover have "map (group_node es) (reward_order es) ! i = group_node es r" using i by simp
    ultimately show ?thesis
      unfolding fold_append fold_simps comp_apply snoc id_apply ord pos
      unfolding e consolidate_step_old [where ri = "index_of (reward_order es)", OF Some] group_node_same Let_def Some
      by (simp add: fun_upd_def)
  qed
qed

lemma GetConsolidatedStakingInfo_eq:
  "wf_staking s \<Longrightarrow>
   GetConsolidatedStakingInfo s =
     Some \<lparr> nodes = map (group_node (council_entries s)) (reward_order (council_entries s)),
            nodeIndex = node_position (council_entries s) \<rparr>"
  by (simp add: GetConsolidatedStakingInfo_def wf_staking_def consolidate_fold)

lemma group_node_RewardAddr [simp]: "RewardAddr (group_node es r) = r"
  by (simp add: group_node_def Let_def)

lemma group_node_member: "e \<in> set es \<Longrightarrow> fst e \<in> set (NodeAddrs (group_node es (entry_reward e)))"
  by (auto simp: group_node_def Let_def)

text \<open>C29: consolidation groups the council entries by reward address: one node per reward address in
  order of first appearance, holding exactly the node and staking addresses of the entries that
  carry it and the (64-bit) sum of their amounts; reward addresses of different nodes differ; and
  looking a council node up finds the group of the last entry that names it.\<close>

theorem GetConsolidatedStakingInfo_groups:
  assumes "wf_staking s"
  shows "\<exists>c. GetConsolidatedStakingInfo s = Some c \<and>
    nodes c = map (group_node (council_entries s)) (reward_order (council_entries s)) \<and>
    distinct (map RewardAddr (nodes c)) \<and>
    set (map RewardAddr (nodes c)) = set (CouncilRewardAddrs s) \<and>
    (\<forall>n. n \<in> set (CouncilNodeAddrs s) \<longrightarrow>
       (\<exists>g. GetConsolidatedNode c n = Some g \<and> n \<in> set (NodeAddrs g)))"
proof -
  let ?es = "council_entries s"
  let ?c = "\<lparr> nodes = map (group_node ?es) (reward_order ?es), nodeIndex = node_position ?es \<rparr>"
  have len: "map entry_reward ?es = CouncilRewardAddrs s" "map fst ?es = CouncilNodeAddrs s"
    using assms by (auto simp: wf_staking_def council_entries_def entry_reward_def
        intro!: nth_equalityI)
  have rewards: "set (reward_order ?es) = set (CouncilRewardAddrs s)"
    unfolding set_reward_order len(1) [symmetric] by simp
  have lookup: "\<exists>g. GetConsolidatedNode ?c n = Some g \<and> n \<in> set (NodeAddrs g)"
    if "n \<in> set (CouncilNodeAddrs s)" for n
  proof -
    let ?g = "filter (\<lambda>e. fst e = n) ?es"
    have "?g \<noteq> []" using that unfolding len(2) [symmetric] by (auto simp: filter_empty_conv)
    then have l: "last ?g \<in> set ?es" "fst (last ?g) = n"
      using last_in_set [of ?g] by auto
    then obtain i where i: "index_of (reward_order ?es) (entry_reward (last ?g)) = Some i"
      using index_of_None [of "reward_order ?es"] by (auto simp: set_reward_order)
    then have pos: "node_position ?es n = Some i"
      using \<open>?g \<noteq> []\<close> by (cases ?g) (simp_all add: node_position_def)
    have "n \<in> set (NodeAddrs (group_node ?es (entry_reward (last ?g))))"
      using group_node_member [OF l(1)] l(2) by simp
    with pos index_of_Some [OF i] show ?thesis
      by (auto simp: GetConsolidatedNode_def)
  qed
  show ?thesis
    using GetConsolidatedStakingInfo_eq [OF assms] distinct_reward_order [of ?es] rewards lookup
    by (simp add: comp_def image_image)
qed

definition example_staking :: StakingInfo where
  "example_staking =
     \<lparr> BlockNum = 86400, CouncilNodeAddrs = [11, 12, 13], CouncilStakingAddrs = [21, 22, 23],
       CouncilRewardAddrs = [31, 31, 33], KEFAddr = 41, KIFAddr = 42, UseGini = False, Gini = - 1,
       CouncilStakingAmounts = [5000000, 6000000, 7000000] \<rparr>"

theorem GetConsolidatedStakingInfo_groups_witness:
  "wf_staking example_staking \<and>
   (\<exists>c. GetConsolidatedStakingInfo example_staking = Some c \<and>
      nodes c = [\<lparr> NodeAddrs = [11, 12], StakingAddrs = [21, 22], RewardAddr = 31, StakingAmount = 11000000 \<rparr>,
                 \<lparr> NodeAddrs = [13], StakingAddrs = [23], RewardAddr = 33, StakingAmount = 7000000 \<rparr>])"
proof -
  have h: "wf_staking example_staking" by (simp add: wf_staking_def example_staking_def)
  then show ?thesis
    using GetConsolidatedStakingInfo_groups [OF h]
    by (auto simp: council_entries_def example_staking_def reward_order_def entry_reward_def group_node_def)
qed

section \<open>What the constructor guarantees\<close>

lemma staking_amount_capped:
  assumes "0 \<le> balance"
  shows "uint (staking_amount balance) \<le> maxStakingLimit \<and>
    (balance div KAIA_unit \<le> maxStakingLimit \<longrightarrow> uint (staking_amount balance) = balance div KAIA_unit)"
proof -
  have "0 \<le> balance div KAIA_unit"
    using assms by (simp add: KAIA_unit_def pos_imp_zdiv_nonneg_iff)
  then show ?thesis
    by (auto simp: staking_amount_def big_Uint64_def maxStakingLimit_def uint_word_of_int Let_def)
qed



end
