(* ===== verification/Reward.thy ===== *)
theory Reward
  imports Base_Fee Staking
begin

text \<open>
  Block rewards, \<open>reward/reward_distributor.go\<close>: parsing the ratios, the fee and its burning, the
  split between proposer, stakers and the two funds, the staker shares, and the reward
  specification of a block. The \<open>Rewards\<close> map is an association list with distinct keys.
  A division by zero, a nil base fee and a missing parameter panic, which is \<open>RewardPanic\<close>.
  \<open>GetStakingInfo\<close> (the staking manager) and the signature recovery of \<open>ecrecover\<close> are
  arguments.
\<close>

datatype rewardError = ErrInvalidFormat | ErrParsingRatio | RewardPanic | ErrRecover

definition must :: "'a option \<Rightarrow> rewardError + 'a" where
  "must x = (case x of None \<Rightarrow> Inl RewardPanic | Some v \<Rightarrow> Inr v)"

lemma must_eq_Inr [result_simps]: "must x = Inr v \<longleftrightarrow> x = Some v"
  by (cases x) (auto simp: must_def)

record rewardConfig =
  cfg_rules :: Rules
  totalFee :: int
  mintingAmount :: int
  minimumStake :: int
  deferredTxFee :: bool
  cnRatio :: int
  kifRatio :: int
  kefRatio :: int
  totalRatio :: int
  cnProposerRatio :: int
  cnStakingRatio :: int
  cnTotalRatio :: int

record RewardSpec =
  Minted :: int
  spec_TotalFee :: int
  BurntFee :: int
  Proposer :: int
  Stakers :: int
  KIF :: int
  KEF :: int
  Rewards :: "(address \<times> int) list"

record TotalReward =
  total_Minted :: int
  total_BurntFee :: int

definition NewRewardSpec :: RewardSpec where
  "NewRewardSpec = \<lparr> Minted = 0, spec_TotalFee = 0, BurntFee = 0, Proposer = 0, Stakers = 0,
                     KIF = 0, KEF = 0, Rewards = [] \<rparr>"

definition incrementRewardsMap :: "(address \<times> int) list \<Rightarrow> address \<Rightarrow> int \<Rightarrow> (address \<times> int) list" where
  "incrementRewardsMap m addr amount =
     AList.update addr ((case map_of m addr of None \<Rightarrow> 0 | Some v \<Rightarrow> v) + amount) m"

definition addAll :: "(address \<times> int) list \<Rightarrow> (address \<times> int) list \<Rightarrow> (address \<times> int) list" where
  "addAll m delta = fold (\<lambda>(addr, amount) acc. incrementRewardsMap acc addr amount) delta m"

definition RewardSpec_Add :: "RewardSpec \<Rightarrow> RewardSpec \<Rightarrow> RewardSpec" where
  "RewardSpec_Add spec delta =
     \<lparr> Minted = Minted spec + Minted delta, spec_TotalFee = spec_TotalFee spec + spec_TotalFee delta,
       BurntFee = BurntFee spec + BurntFee delta, Proposer = Proposer spec + Proposer delta,
       Stakers = Stakers spec + Stakers delta, KIF = KIF spec + KIF delta, KEF = KEF spec + KEF delta,
       Rewards = addAll (Rewards spec) (Rewards delta) \<rparr>"

text \<open>\<open>AddBalance\<close> on a map of balances; the list is one order of visiting the rewards map.\<close>

definition DistributeBlockReward :: "(address \<Rightarrow> int) \<Rightarrow> (address \<times> int) list \<Rightarrow> (address \<Rightarrow> int)" where
  "DistributeBlockReward balances rewards =
     fold (\<lambda>(addr, amount) b. b(addr := b addr + amount)) rewards balances"

section \<open>Ratios\<close>

definition parseRewardRatio :: "string \<Rightarrow> rewardError + (int \<times> int \<times> int \<times> int)" where
  "parseRewardRatio ratio =
     (let s = split_on (CHR ''/'') ratio in
      if length s \<noteq> RewardSliceCount then Inl ErrInvalidFormat
      else case (ParseInt64 (s ! 0), ParseInt64 (s ! 1), ParseInt64 (s ! 2)) of
             (Some cn, Some kif, Some kef) \<Rightarrow> Inr (cn, kif, kef, wrap_i64 (wrap_i64 (cn + kif) + kef))
           | _ \<Rightarrow> Inl ErrParsingRatio)"

definition parseRewardKip82Ratio :: "string \<Rightarrow> rewardError + (int \<times> int \<times> int)" where
  "parseRewardKip82Ratio ratio =
     (let s = split_on (CHR ''/'') ratio in
      if length s \<noteq> RewardKip82SliceCount then Inl ErrInvalidFormat
      else case (ParseInt64 (s ! 0), ParseInt64 (s ! 1)) of
             (Some proposer, Some stakers) \<Rightarrow> Inr (proposer, stakers, wrap_i64 (proposer + stakers))
           | _ \<Rightarrow> Inl ErrParsingRatio)"

section \<open>Fees\<close>

fun sum_tips :: "int option \<Rightarrow> Transaction list \<Rightarrow> Receipt list \<Rightarrow> int" where
  "sum_tips baseFee (tx # txs) (r # rs) =
     sint (receipt_GasUsed r) * EffectiveGasTip tx baseFee + sum_tips baseFee txs rs"
| "sum_tips baseFee _ _ = 0"

definition GetTotalTxFee ::
    "Header \<Rightarrow> Transaction list option \<Rightarrow> Receipt list option \<Rightarrow> Rules \<Rightarrow> GovParamSet \<Rightarrow> rewardError + int" where
  "GetTotalTxFee header txs receipts rules pset =
     rbind (if IsMagma rules then must (BaseFee header)
            else rbind (must (p_UnitPrice pset)) (\<lambda>u. Inr (uint u)))
       (\<lambda>price.
         let totalFee = uint (GasUsed header) * price
         in case (txs, receipts) of
              (Some ts, Some rs) \<Rightarrow>
                if \<not> IsKaia rules then Inr totalFee
                else if length ts \<noteq> length rs then Inr totalFee
                else Inr (totalFee + sum_tips (BaseFee header) ts rs)
            | _ \<Rightarrow> Inr totalFee)"

definition NewRewardConfig ::
    "Header \<Rightarrow> Transaction list option \<Rightarrow> Receipt list option \<Rightarrow> Rules \<Rightarrow> GovParamSet \<Rightarrow>
     rewardError + rewardConfig" where
  "NewRewardConfig header txs receipts rules pset =
     rbind (must (p_Ratio pset)) (\<lambda>ratio.
     rbind (parseRewardRatio ratio) (\<lambda>(cn, kif, kef, total).
     rbind (if IsKore rules then rbind (must (p_Kip82Ratio pset)) parseRewardKip82Ratio
            else Inr (0, 0, 0)) (\<lambda>(cnProposer, cnStaking, cnTotal).
     rbind (GetTotalTxFee header txs receipts rules pset) (\<lambda>fee.
     rbind (must (MintingAmountBig pset)) (\<lambda>minting.
     rbind (must minting) (\<lambda>mint.
     rbind (must (MinimumStakeBig pset)) (\<lambda>minimum.
     rbind (must minimum) (\<lambda>minStake.
     rbind (must (p_DeferredTxFee pset)) (\<lambda>deferred.
     Inr \<lparr> cfg_rules = rules, totalFee = fee, mintingAmount = mint, minimumStake = minStake,
           deferredTxFee = deferred, cnRatio = cn, kifRatio = kif, kefRatio = kef, totalRatio = total,
           cnProposerRatio = cnProposer, cnStakingRatio = cnStaking, cnTotalRatio = cnTotal \<rparr>)))))))))"

definition WeightedRandom :: u64 where "WeightedRandom = 2"

definition IsRewardSimple :: "GovParamSet \<Rightarrow> rewardError + bool" where
  "IsRewardSimple pset = rbind (must (p_Policy pset)) (\<lambda>p. Inr (p \<noteq> WeightedRandom))"

definition CalcRewardParamBlock :: "u64 \<Rightarrow> u64 \<Rightarrow> Rules \<Rightarrow> rewardError + u64" where
  "CalcRewardParamBlock num epoch rules =
     (if IsKore rules then Inr num
      else rbind (must (u64_rem num epoch)) (\<lambda>r. Inr (if r = 0 then num - epoch else num)))"

definition getBurnAmountMagma :: "int \<Rightarrow> int" where
  "getBurnAmountMagma fee = fee div 2"

definition splitByRatio :: "rewardConfig \<Rightarrow> int \<Rightarrow> rewardError + (int \<times> int \<times> int)" where
  "splitByRatio rc source =
     rbind (must (big_Div (source * cnRatio rc) (totalRatio rc))) (\<lambda>cn.
     rbind (must (big_Div (source * kifRatio rc) (totalRatio rc))) (\<lambda>kif.
     rbind (must (big_Div (source * kefRatio rc) (totalRatio rc))) (\<lambda>kef.
     Inr (cn, kif, kef))))"

definition splitByKip82Ratio :: "rewardConfig \<Rightarrow> int \<Rightarrow> rewardError + (int \<times> int)" where
  "splitByKip82Ratio rc source =
     rbind (must (big_Div (source * cnProposerRatio rc) (cnTotalRatio rc))) (\<lambda>proposer.
     rbind (must (big_Div (source * cnStakingRatio rc) (cnTotalRatio rc))) (\<lambda>stakers.
     Inr (proposer, stakers)))"

definition getBurnAmountKore :: "rewardConfig \<Rightarrow> int \<Rightarrow> rewardError + int" where
  "getBurnAmountKore rc fee =
     rbind (splitByRatio rc (mintingAmount rc)) (\<lambda>(cn, _, _).
     rbind (splitByKip82Ratio rc cn) (\<lambda>(proposer, _).
     Inr (if fee \<ge> proposer then proposer else fee)))"

definition calcDeferredFee :: "rewardConfig \<Rightarrow> rewardError + (int \<times> int \<times> int)" where
  "calcDeferredFee rc =
     (if \<not> deferredTxFee rc then Inr (0, 0, 0)
      else
        let total = totalFee rc;
            burnt1 = (if IsMagma (cfg_rules rc) then getBurnAmountMagma total else 0);
            rewardFee = total - burnt1
        in if IsKore (cfg_rules rc)
           then rbind (getBurnAmountKore rc rewardFee)
                  (\<lambda>burnt2. Inr (total, rewardFee - burnt2, burnt1 + burnt2))
           else Inr (total, rewardFee, burnt1))"

definition calcSplit :: "rewardConfig \<Rightarrow> int \<Rightarrow> int \<Rightarrow> rewardError + (int \<times> int \<times> int \<times> int \<times> int)" where
  "calcSplit rc minted fee =
     (let totalResource = minted + fee
      in if IsKore (cfg_rules rc)
         then rbind (splitByRatio rc minted) (\<lambda>(cn, kif, kef).
              rbind (splitByKip82Ratio rc cn) (\<lambda>(proposer0, stakers).
              let proposer = proposer0 + fee;
                  remaining = totalResource - kif - kef - proposer - stakers
              in Inr (proposer, stakers, kif, kef, remaining)))
         else rbind (splitByRatio rc totalResource) (\<lambda>(cn, kif, kef).
              let remaining = totalResource - kif - kef - cn
              in Inr (cn, 0, kif, kef, remaining)))"

section \<open>Staker shares\<close>

fun total_stakes :: "u64 \<Rightarrow> consolidatedNode list \<Rightarrow> u64" where
  "total_stakes minStake [] = 0"
| "total_stakes minStake (n # ns) =
     (if StakingAmount n > minStake then StakingAmount n - minStake else 0) + total_stakes minStake ns"

fun share_loop ::
    "int \<Rightarrow> u64 \<Rightarrow> int \<Rightarrow> consolidatedNode list \<Rightarrow> (address \<times> int) list \<Rightarrow> int \<Rightarrow>
     rewardError + ((address \<times> int) list \<times> int)" where
  "share_loop stakeReward minStake totalStakes [] shares remaining = Inr (shares, remaining)"
| "share_loop stakeReward minStake totalStakes (n # ns) shares remaining =
     (if StakingAmount n > minStake
      then rbind (must (big_Div (stakeReward * uint (StakingAmount n - minStake)) totalStakes))
             (\<lambda>rewardAmount.
               share_loop stakeReward minStake totalStakes ns
                 (if rewardAmount > 0 then AList.update (RewardAddr n) rewardAmount shares else shares)
                 (remaining - rewardAmount))
      else share_loop stakeReward minStake totalStakes ns shares remaining)"

definition calcShares ::
    "StakingInfo option \<Rightarrow> int \<Rightarrow> u64 \<Rightarrow> rewardError + ((address \<times> int) list \<times> int)" where
  "calcShares stakingInfo stakeReward minStake =
     (case stakingInfo of
        None \<Rightarrow> Inr ([], stakeReward)
      | Some si \<Rightarrow>
          rbind (must (GetConsolidatedStakingInfo si)) (\<lambda>cns.
          share_loop stakeReward minStake (uint (total_stakes minStake (nodes cns))) (nodes cns)
            [] stakeReward))"

section \<open>Reward specifications\<close>

definition CalcDeferredRewardSimple ::
    "Header \<Rightarrow> Transaction list option \<Rightarrow> Receipt list option \<Rightarrow> Rules \<Rightarrow> GovParamSet \<Rightarrow>
     rewardError + RewardSpec" where
  "CalcDeferredRewardSimple header txs receipts rules pset =
     rbind (NewRewardConfig header txs receipts rules pset) (\<lambda>rc.
       let minted = mintingAmount rc
       in if \<not> deferredTxFee rc \<and> IsMagma (cfg_rules rc)
          then Inr (NewRewardSpec\<lparr> Minted := minted, Proposer := minted,
                      Rewards := incrementRewardsMap [] (Rewardbase header) minted \<rparr>)
          else
            let total = totalFee rc;
                burntFee = (if IsMagma (cfg_rules rc) then getBurnAmountMagma total else 0);
                rewardFee = total - burntFee;
                proposer = minted + rewardFee
            in Inr (NewRewardSpec\<lparr> Minted := minted, spec_TotalFee := total, BurntFee := burntFee,
                      Proposer := proposer,
                      Rewards := incrementRewardsMap [] (Rewardbase header) proposer \<rparr>))"

text \<open>The second half of \<open>CalcDeferredReward\<close>: the remainders and the portions of missing funds are
  moved, and the rewards map is filled.\<close>

definition settle_reward ::
    "StakingInfo option \<Rightarrow> address \<Rightarrow> int \<Rightarrow> int \<Rightarrow> int \<Rightarrow> int \<times> int \<times> int \<times> int \<times> int \<Rightarrow>
     (address \<times> int) list \<times> int \<Rightarrow> RewardSpec" where
  "settle_reward stakingInfo rewardbase minted fee burntFee = (\<lambda>(proposer0, stakers0, kif0, kef0, splitRem)
       (shares, shareRem).
     let kif1 = kif0 + splitRem;
         proposer1 = proposer0 + shareRem;
         stakers = stakers0 - shareRem;
         noKIF = (case stakingInfo of None \<Rightarrow> True | Some si \<Rightarrow> EmptyAddress (KIFAddr si));
         noKEF = (case stakingInfo of None \<Rightarrow> True | Some si \<Rightarrow> EmptyAddress (KEFAddr si));
         proposer2 = (if noKIF then proposer1 + kif1 else proposer1);
         kif = (if noKIF then 0 else kif1);
         proposer = (if noKEF then proposer2 + kef0 else proposer2);
         kef = (if noKEF then 0 else kef0);
         m1 = incrementRewardsMap [] rewardbase proposer;
         m2 = (case stakingInfo of
                 None \<Rightarrow> m1
               | Some si \<Rightarrow> if EmptyAddress (KIFAddr si) then m1
                            else incrementRewardsMap m1 (KIFAddr si) kif);
         m3 = (case stakingInfo of
                 None \<Rightarrow> m2
               | Some si \<Rightarrow> if EmptyAddress (KEFAddr si) then m2
                            else incrementRewardsMap m2 (KEFAddr si) kef)
     in \<lparr> Minted = minted, spec_TotalFee = fee, BurntFee = burntFee, Proposer = proposer,
          Stakers = stakers, KIF = kif, KEF = kef, Rewards = addAll m3 shares \<rparr>)"

definition CalcDeferredReward ::
    "(u64 \<Rightarrow> StakingInfo option) \<Rightarrow>
     Header \<Rightarrow> Transaction list option \<Rightarrow> Receipt list option \<Rightarrow> Rules \<Rightarrow> GovParamSet \<Rightarrow>
     rewardError + RewardSpec" where
  "CalcDeferredReward GetStakingInfo header txs receipts rules pset =
     rbind (NewRewardConfig header txs receipts rules pset) (\<lambda>rc.
     let minted = mintingAmount rc;
         stakingInfo = GetStakingInfo (big_Uint64 (Number header))
     in rbind (calcDeferredFee rc) (\<lambda>(total, rewardFee, burntFee).
        rbind (calcSplit rc minted rewardFee) (\<lambda>(proposer, stakers, kif, kef, splitRem).
        rbind (calcShares stakingInfo stakers (big_Uint64 (minimumStake rc))) (\<lambda>(shares, shareRem).
        Inr (settle_reward stakingInfo (Rewardbase header) minted total burntFee
               (proposer, stakers, kif, kef, splitRem) (shares, shareRem))))))"

definition GetTotalReward ::
    "Header \<Rightarrow> Transaction list option \<Rightarrow> Receipt list option \<Rightarrow> Rules \<Rightarrow> GovParamSet \<Rightarrow>
     rewardError + TotalReward" where
  "GetTotalReward header txs receipts rules pset =
     rbind (NewRewardConfig header txs receipts rules pset) (\<lambda>rc.
     rbind (IsRewardSimple pset) (\<lambda>simple.
     rbind (if simple
            then rbind (CalcDeferredRewardSimple header txs receipts rules pset)
                   (\<lambda>spec. Inr (Minted spec, BurntFee spec))
            else rbind (calcDeferredFee rc) (\<lambda>(_, _, burntFee). Inr (mintingAmount rc, burntFee)))
       (\<lambda>(minted, burntFee).
       if \<not> deferredTxFee rc \<and> IsMagma rules
       then rbind (GetTotalTxFee header txs receipts rules pset)
              (\<lambda>txFee. Inr \<lparr> total_Minted = minted, total_BurntFee = burntFee + getBurnAmountMagma txFee \<rparr>)
       else Inr \<lparr> total_Minted = minted, total_BurntFee = burntFee \<rparr>)))"

text \<open>The last part of \<open>GetBlockReward\<close>: fees that were paid during execution are accounted for.\<close>

definition compensate_fee ::
    "(Header \<Rightarrow> rewardError + address) \<Rightarrow> Header \<Rightarrow> Transaction list option \<Rightarrow> Receipt list option \<Rightarrow>
     Rules \<Rightarrow> GovParamSet \<Rightarrow> RewardSpec \<Rightarrow> rewardError + RewardSpec" where
  "compensate_fee ecrecover header txs receipts rules pset spec =
     rbind (must (p_DeferredTxFee pset)) (\<lambda>deferred.
     if deferred then Inr spec
     else if IsMagma rules
       then rbind (GetTotalTxFee header txs receipts rules pset) (\<lambda>txFee.
            let txFeeBurn = getBurnAmountMagma txFee;
                txFeeRemained = txFee - txFeeBurn
            in Inr (spec\<lparr> BurntFee := txFeeBurn, Proposer := Proposer spec + txFeeRemained,
                          spec_TotalFee := spec_TotalFee spec + txFee,
                          Rewards := incrementRewardsMap (Rewards spec) (Rewardbase header) txFeeRemained \<rparr>))
       else rbind (GetTotalTxFee header None None rules pset) (\<lambda>txFee.
            rbind (ecrecover header) (\<lambda>proposer.
            Inr (spec\<lparr> Proposer := Proposer spec + txFee,
                       spec_TotalFee := spec_TotalFee spec + txFee,
                       Rewards := incrementRewardsMap (Rewards spec) proposer txFee \<rparr>))))"

definition GetBlockReward ::
    "(u64 \<Rightarrow> StakingInfo option) \<Rightarrow> (Header \<Rightarrow> rewardError + address) \<Rightarrow>
     Header \<Rightarrow> Transaction list option \<Rightarrow> Receipt list option \<Rightarrow> Rules \<Rightarrow> GovParamSet \<Rightarrow>
     rewardError + RewardSpec" where
  "GetBlockReward GetStakingInfo ecrecover header txs receipts rules pset =
     rbind (IsRewardSimple pset) (\<lambda>simple.
     rbind (if simple then CalcDeferredRewardSimple header txs receipts rules pset
            else CalcDeferredReward GetStakingInfo header txs receipts rules pset)
       (compensate_fee ecrecover header txs receipts rules pset))"

text \<open>\<open>ecrecover\<close>, over the decoding of the header's extra data, the hash of the header without
  its seal, and the recovery of the signer. A header whose extra data does not decode gives the
  zero address and no error.\<close>

definition header_ecrecover ::
    "(Header \<Rightarrow> bytes option) \<Rightarrow> (Header \<Rightarrow> hash option) \<Rightarrow> (hash \<Rightarrow> bytes \<Rightarrow> address option) \<Rightarrow>
     Header \<Rightarrow> rewardError + address" where
  "header_ecrecover extractSeal sigHash getSignatureAddress header =
     (case extractSeal header of
        None \<Rightarrow> Inr 0
      | Some seal \<Rightarrow>
          (case sigHash header of
             None \<Rightarrow> Inl ErrRecover
           | Some h \<Rightarrow>
               (case getSignatureAddress h seal of None \<Rightarrow> Inl ErrRecover | Some a \<Rightarrow> Inr a)))"

section \<open>The rewards map\<close>

lemma alist_sum_increment [simp]:
  "distinct (map fst m) \<Longrightarrow> alist_sum (incrementRewardsMap m a v) = alist_sum m + v"
  by (simp add: incrementRewardsMap_def alist_sum_update split: option.splits)

lemma distinct_increment [simp]:
  "distinct (map fst m) \<Longrightarrow> distinct (map fst (incrementRewardsMap m a v))"
  by (simp add: incrementRewardsMap_def distinct_update)

lemma map_of_increment:
  "map_of (incrementRewardsMap m a v) =
     (map_of m)(a \<mapsto> (case map_of m a of None \<Rightarrow> 0 | Some w \<Rightarrow> w) + v)"
  by (simp add: incrementRewardsMap_def update_conv fun_eq_iff split: option.splits)

lemma distinct_addAll: "distinct (map fst m) \<Longrightarrow> distinct (map fst (addAll m d))"
  unfolding addAll_def by (induction d arbitrary: m) auto

lemma alist_sum_addAll:
  "distinct (map fst m) \<Longrightarrow> alist_sum (addAll m d) = alist_sum m + alist_sum d"
  unfolding addAll_def by (induction d arbitrary: m) auto

text \<open>A reward specification is balanced when what was minted and paid in fees, less what was burnt,
  is what the four parties receive, and the rewards map pays out exactly that.\<close>

definition balanced :: "RewardSpec \<Rightarrow> bool" where
  "balanced s \<longleftrightarrow>
     Minted s + spec_TotalFee s - BurntFee s = Proposer s + Stakers s + KIF s + KEF s \<and>
     alist_sum (Rewards s) = Proposer s + Stakers s + KIF s + KEF s \<and>
     distinct (map fst (Rewards s))"

section \<open>Shares\<close>

definition effective_stake :: "u64 \<Rightarrow> consolidatedNode \<Rightarrow> int" where
  "effective_stake ms n = (if StakingAmount n > ms then uint (StakingAmount n - ms) else 0)"

lemma effective_stake_nonneg [simp]: "0 \<le> effective_stake ms n"
  by (simp add: effective_stake_def)

lemma big_Div_eq_Some [result_simps]: "big_Div x y = Some z \<longleftrightarrow> y \<noteq> 0 \<and> z = sgn y * (x div \<bar>y\<bar>)"
  by (auto simp: big_Div_def)

lemma share_loop_step:
  assumes "share_loop r ms t (n # ns) shares rem = Inr p" "0 \<le> t"
  shows "share_loop r ms t ns
       (if StakingAmount n > ms \<and> r * effective_stake ms n div t > 0
        then AList.update (RewardAddr n) (r * effective_stake ms n div t) shares else shares)
       (rem - r * effective_stake ms n div t) = Inr p"
  using assms by (auto simp: result_simps effective_stake_def sgn_if split: if_splits)

lemma share_loop_closed:
  assumes "share_loop r ms t ns shares rem = Inr (shares', rem')" "0 \<le> t"
  shows "rem' = rem - sum_list (map (\<lambda>n. r * effective_stake ms n div t) ns)"
  using assms(1)
proof (induction ns arbitrary: shares rem)
  case (Cons n ns)
  then obtain sh where
    "share_loop r ms t ns sh (rem - r * effective_stake ms n div t) = Inr (shares', rem')"
    using share_loop_step [OF Cons.prems assms(2)] by blast
  from Cons.IH [OF this] show ?case by simp
qed simp

lemma disjoint_insert_subset: "A \<subseteq> insert x B \<Longrightarrow> x \<notin> C \<Longrightarrow> B \<inter> C = {} \<Longrightarrow> A \<inter> C = {}"
  by blast

lemma share_loop_conserves:
  assumes "share_loop r ms t ns shares rem = Inr (shares', rem')" "0 \<le> t" "0 \<le> r"
    and "distinct (map fst shares)" "distinct (map RewardAddr ns)"
    and "fst ` set shares \<inter> RewardAddr ` set ns = {}"
  shows "distinct (map fst shares') \<and> alist_sum shares' + rem' = alist_sum shares + rem"
  using assms(1,4-6)
proof (induction ns arbitrary: shares rem)
  case (Cons n ns)
  define a where "a = r * effective_stake ms n div t"
  let ?sh = "if StakingAmount n > ms \<and> a > 0 then AList.update (RewardAddr n) a shares else shares"
  have step: "share_loop r ms t ns ?sh (rem - a) = Inr (shares', rem')"
    using share_loop_step [OF Cons.prems(1) assms(2)] unfolding a_def .
  have none: "map_of shares (RewardAddr n) = None"
    using Cons.prems(4) by (simp add: map_of_eq_None_iff)
  have "0 \<le> a" using assms(2,3) by (simp add: a_def div_int_pos_iff)
  moreover have "a = 0" if "\<not> StakingAmount n > ms" using that by (simp add: a_def effective_stake_def)
  ultimately have "alist_sum ?sh = alist_sum shares + a"
    using alist_sum_update [OF Cons.prems(2), of "RewardAddr n" a] none by (simp split: if_split) linarith
  moreover have "distinct (map fst ?sh)" using Cons.prems(2) by (simp add: distinct_update)
  moreover have "fst ` set ?sh \<inter> RewardAddr ` set ns = {}"
  proof -
    have "fst ` set ?sh \<subseteq> insert (RewardAddr n) (fst ` set shares)"
      by (simp add: dom_update subset_insertI)
    moreover have "RewardAddr n \<notin> RewardAddr ` set ns" "fst ` set shares \<inter> RewardAddr ` set ns = {}"
      using Cons.prems(3,4) by auto
    ultimately show ?thesis by (rule disjoint_insert_subset)
  qed
  ultimately show ?case
    using Cons.IH [OF step] Cons.prems(3) by simp
qed simp

lemma snd_update: "v' \<in> snd ` set (AList.update k v m) \<Longrightarrow> v' = v \<or> v' \<in> snd ` set m"
  by (induction m) (auto split: if_splits)

lemma share_loop_positive:
  assumes "share_loop r ms t ns shares rem = Inr (shares', rem')" "0 \<le> t"
    "\<forall>v \<in> snd ` set shares. 0 < v"
  shows "\<forall>v \<in> snd ` set shares'. 0 < v"
  using assms(1,3)
proof (induction ns arbitrary: shares rem)
  case (Cons n ns)
  define a where "a = r * effective_stake ms n div t"
  let ?sh = "if StakingAmount n > ms \<and> a > 0 then AList.update (RewardAddr n) a shares else shares"
  have step: "share_loop r ms t ns ?sh (rem - a) = Inr (shares', rem')"
    using share_loop_step [OF Cons.prems(1) assms(2)] unfolding a_def .
  have "\<forall>v \<in> snd ` set ?sh. 0 < v"
  proof (cases "StakingAmount n > ms \<and> a > 0")
    case True
    show ?thesis
    proof
      fix v assume "v \<in> snd ` set ?sh"
      then have "v \<in> snd ` set (AList.update (RewardAddr n) a shares)" using True by simp
      from snd_update [OF this] show "0 < v" using True Cons.prems(2) by blast
    qed
  next
    case False
    then have "?sh = shares" by meson
    then show ?thesis using Cons.prems(2) by simp
  qed
  from Cons.IH [OF step this] show ?case .
qed simp

lemma sum_div_le:
  assumes "0 < t"
  shows "sum_list (map (\<lambda>x. r * x div t) xs) \<le> r * sum_list xs div (t::int)"
proof (induction xs)
  case (Cons x xs)
  have "r * x div t + r * sum_list xs div t \<le> (r * x + r * sum_list xs) div t"
    using assms by (subst div_add1_eq) (simp add: pos_imp_zdiv_nonneg_iff)
  then show ?case using Cons by (simp add: distrib_left)
qed simp

lemma consolidated_distinct:
  assumes "GetConsolidatedStakingInfo s = Some c"
  shows "distinct (map RewardAddr (nodes c))"
  using assms by (auto simp: GetConsolidatedStakingInfo_def consolidate_fold distinct_reward_order o_def
      split: if_splits)

lemma calcShares_conserves:
  assumes "calcShares si r ms = Inr (shares, rem)" "0 \<le> r"
  shows "distinct (map fst shares) \<and> alist_sum shares + rem = r"
proof (cases si)
  case None
  then show ?thesis using assms by (simp add: calcShares_def)
next
  case (Some s)
  then obtain c where c: "GetConsolidatedStakingInfo s = Some c"
    and loop: "share_loop r ms (uint (total_stakes ms (nodes c))) (nodes c) [] r = Inr (shares, rem)"
    using assms(1) by (auto simp: calcShares_def result_simps)
  show ?thesis
    using share_loop_conserves [OF loop _ assms(2)] consolidated_distinct [OF c] by simp
qed

section \<open>Conservation\<close>

text \<open>What a parameter set that passed validation gives for the parsed configuration. The parts of
  the ratio need not add up to 100: their sum may have wrapped around.\<close>

definition wf_rewardConfig :: "rewardConfig \<Rightarrow> bool" where
  "wf_rewardConfig rc \<longleftrightarrow>
     0 \<le> cnRatio rc \<and> 0 \<le> kifRatio rc \<and> 0 \<le> kefRatio rc \<and> totalRatio rc = 100 \<and>
     (cnRatio rc + kifRatio rc + kefRatio rc = 100 \<or>
      cnRatio rc + kifRatio rc + kefRatio rc = 2 ^ 64 + 100) \<and>
     0 \<le> mintingAmount rc \<and> 0 \<le> minimumStake rc \<and>
     (IsKore (cfg_rules rc) \<longrightarrow>
        0 \<le> cnProposerRatio rc \<and> 0 \<le> cnStakingRatio rc \<and> cnTotalRatio rc = 100 \<and>
        cnProposerRatio rc + cnStakingRatio rc = 100)"

lemma parseRewardRatio_valid:
  assumes "validate_ratio RewardSliceCount s" "parseRewardRatio s = Inr (cn, kif, kef, tot)"
  shows "0 \<le> cn \<and> 0 \<le> kif \<and> 0 \<le> kef \<and> tot = 100 \<and>
    (cn + kif + kef = 100 \<or> cn + kif + kef = 2 ^ 64 + 100)"
proof -
  obtain x y z where xs: "split_on (CHR ''/'') s = [x, y, z]"
    and sum: "ratio_sum 0 [x, y, z] = Some 100"
    using assms(1) by (auto simp: validate_ratio_def RewardSliceCount_def length_3_conv Let_def
        simp del: ratio_sum.simps)
  obtain a b c where abc: "ParseInt64 x = Some a" "ParseInt64 y = Some b" "ParseInt64 z = Some c"
    "0 \<le> a" "0 \<le> b" "0 \<le> c" "a + b + c = 100 \<or> a + b + c = 2 ^ 64 + 100"
    using sum unfolding ratio_sum_3 by blast
  have r: "cn = a" "kif = b" "kef = c" "tot = wrap_i64 (wrap_i64 (a + b) + c)"
    using assms(2) abc(1-3) xs by (auto simp: parseRewardRatio_def RewardSliceCount_def)
  have "tot = 100"
    using abc(7) r(4) by (auto simp: wrap_i64_add wrap_i64_eq_100)
  with abc r(1-3) show ?thesis by simp
qed

lemma parseRewardKip82Ratio_valid:
  assumes "validate_ratio RewardKip82SliceCount s" "parseRewardKip82Ratio s = Inr (p, st, tot)"
  shows "0 \<le> p \<and> 0 \<le> st \<and> tot = 100 \<and> p + st = 100"
proof -
  obtain x y where xs: "split_on (CHR ''/'') s = [x, y]" and sum: "ratio_sum 0 [x, y] = Some 100"
    using assms(1) by (auto simp: validate_ratio_def RewardKip82SliceCount_def length_2_conv Let_def
        simp del: ratio_sum.simps)
  obtain a b where ab: "ParseInt64 x = Some a" "ParseInt64 y = Some b" "0 \<le> a" "0 \<le> b" "a + b = 100"
    using sum unfolding ratio_sum_2 by blast
  have "p = a" "st = b" "tot = wrap_i64 (a + b)"
    using assms(2) ab(1,2) xs by (auto simp: parseRewardKip82Ratio_def RewardKip82SliceCount_def)
  then show ?thesis using ab by (simp add: wrap_i64_eq_100)
qed

lemma wf_ratio:
  assumes "wf_paramset p"
  shows "p_Ratio p = Some s \<Longrightarrow> validate_ratio RewardSliceCount s"
    and "p_Kip82Ratio p = Some s \<Longrightarrow> validate_ratio RewardKip82SliceCount s"
  using wf_get_string [OF assms, of K_Ratio TRatio] wf_get_string [OF assms, of K_Kip82Ratio TKip82Ratio]
  by (auto simp: p_Ratio_def p_Kip82Ratio_def get_string_def split: option.splits)

lemma wf_amounts:
  assumes "wf_paramset p"
  shows "MintingAmountBig p = Some (Some n) \<Longrightarrow> 0 \<le> n" "MinimumStakeBig p = Some (Some n) \<Longrightarrow> 0 \<le> n"
  using wf_amount [OF assms, of K_MintingAmount] wf_amount [OF assms, of K_MinimumStake]
  by (auto simp: MintingAmountBig_def MintingAmountStr_def MinimumStakeBig_def MinimumStakeStr_def
      get_string_def split: option.splits)

lemma NewRewardConfig_Inr:
  assumes "NewRewardConfig header txs receipts rules pset = Inr rc"
  shows "cfg_rules rc = rules \<and> GetTotalTxFee header txs receipts rules pset = Inr (totalFee rc) \<and>
    p_DeferredTxFee pset = Some (deferredTxFee rc) \<and>
    MintingAmountBig pset = Some (Some (mintingAmount rc)) \<and>
    MinimumStakeBig pset = Some (Some (minimumStake rc)) \<and>
    (\<exists>s. p_Ratio pset = Some s \<and>
       parseRewardRatio s = Inr (cnRatio rc, kifRatio rc, kefRatio rc, totalRatio rc)) \<and>
    (IsKore rules \<longrightarrow> (\<exists>s. p_Kip82Ratio pset = Some s \<and>
       parseRewardKip82Ratio s = Inr (cnProposerRatio rc, cnStakingRatio rc, cnTotalRatio rc)))"
  using assms by (auto simp: NewRewardConfig_def result_simps split: prod.splits if_splits)

lemma NewRewardConfig_wf:
  assumes "wf_paramset pset" "NewRewardConfig header txs receipts rules pset = Inr rc"
  shows "wf_rewardConfig rc"
  using NewRewardConfig_Inr [OF assms(2)] wf_ratio [OF assms(1)] wf_amounts [OF assms(1)]
    parseRewardRatio_valid parseRewardKip82Ratio_valid
  unfolding wf_rewardConfig_def by metis

lemma splitByRatio_wf:
  "wf_rewardConfig rc \<Longrightarrow>
   splitByRatio rc x = Inr (x * cnRatio rc div 100, x * kifRatio rc div 100, x * kefRatio rc div 100)"
  by (simp add: splitByRatio_def wf_rewardConfig_def big_Div_def must_def)

lemma splitByKip82Ratio_wf:
  "wf_rewardConfig rc \<Longrightarrow> IsKore (cfg_rules rc) \<Longrightarrow>
   splitByKip82Ratio rc x = Inr (x * cnProposerRatio rc div 100, x * cnStakingRatio rc div 100)"
  by (simp add: splitByKip82Ratio_def wf_rewardConfig_def big_Div_def must_def)

lemma calcSplit_sum:
  assumes "calcSplit rc minted fee = Inr (proposer, stakers, kif, kef, rem)"
  shows "proposer + stakers + kif + kef + rem = minted + fee"
  using assms by (auto simp: calcSplit_def result_simps Let_def split: if_splits)

lemma calcSplit_stakers_nonneg:
  assumes "calcSplit rc minted fee = Inr (proposer, stakers, kif, kef, rem)"
    and "wf_rewardConfig rc" "0 \<le> minted"
  shows "0 \<le> stakers"
  using assms(1,3) assms(2)[unfolded wf_rewardConfig_def]
  by (auto simp: calcSplit_def Let_def splitByRatio_wf [OF assms(2)] splitByKip82Ratio_wf [OF assms(2)]
      div_int_pos_iff split: if_splits)

lemma calcDeferredFee_sum:
  assumes "calcDeferredFee rc = Inr (tot, rewardFee, burnt)"
  shows "rewardFee + burnt = tot \<and> tot = (if deferredTxFee rc then totalFee rc else 0) \<and>
    (\<not> deferredTxFee rc \<longrightarrow> burnt = 0)"
  using assms by (auto simp: calcDeferredFee_def result_simps Let_def split: if_splits)

lemma settle_reward_balanced:
  assumes "distinct (map fst shares)" "alist_sum shares + shrem = s" "p + s + k + e + srem = minted + fee"
    and "fee + burnt = tot"
  shows "balanced (settle_reward si base minted tot burnt (p, s, k, e, srem) (shares, shrem))"
  using assms
  by (cases si) (simp_all add: settle_reward_def Let_def balanced_def alist_sum_addAll distinct_addAll)

lemma CalcDeferredReward_Inr:
  assumes "CalcDeferredReward gsi header txs receipts rules pset = Inr spec"
  obtains rc tot rewardFee burnt p s k e srem shares shrem where
    "NewRewardConfig header txs receipts rules pset = Inr rc"
    "calcDeferredFee rc = Inr (tot, rewardFee, burnt)"
    "calcSplit rc (mintingAmount rc) rewardFee = Inr (p, s, k, e, srem)"
    "calcShares (gsi (big_Uint64 (Number header))) s (big_Uint64 (minimumStake rc)) = Inr (shares, shrem)"
    "spec = settle_reward (gsi (big_Uint64 (Number header))) (Rewardbase header) (mintingAmount rc) tot burnt
       (p, s, k, e, srem) (shares, shrem)"
  using assms by (auto simp: CalcDeferredReward_def result_simps Let_def)

lemma CalcDeferredReward_balanced:
  assumes "CalcDeferredReward gsi header txs receipts rules pset = Inr spec" "wf_paramset pset"
  shows "balanced spec"
  using assms(1)
proof (rule CalcDeferredReward_Inr)
  fix rc tot rewardFee burnt p s k e srem shares shrem
  assume rc: "NewRewardConfig header txs receipts rules pset = Inr rc"
    and fee: "calcDeferredFee rc = Inr (tot, rewardFee, burnt)"
    and split: "calcSplit rc (mintingAmount rc) rewardFee = Inr (p, s, k, e, srem)"
    and shares: "calcShares (gsi (big_Uint64 (Number header))) s (big_Uint64 (minimumStake rc)) =
      Inr (shares, shrem)"
    and spec: "spec = settle_reward (gsi (big_Uint64 (Number header))) (Rewardbase header)
      (mintingAmount rc) tot burnt (p, s, k, e, srem) (shares, shrem)"
  have "wf_rewardConfig rc" by (rule NewRewardConfig_wf [OF assms(2) rc])
  then have "0 \<le> s" using calcSplit_stakers_nonneg [OF split] by (simp add: wf_rewardConfig_def)
  from calcShares_conserves [OF shares this] show ?thesis
    unfolding spec using calcSplit_sum [OF split] calcDeferredFee_sum [OF fee]
    by (intro settle_reward_balanced) auto
qed

lemma CalcDeferredRewardSimple_balanced:
  assumes "CalcDeferredRewardSimple header txs receipts rules pset = Inr spec"
  shows "balanced spec"
  using assms
  by (auto simp: CalcDeferredRewardSimple_def result_simps Let_def balanced_def NewRewardSpec_def
      split: if_splits)

lemma CalcDeferredRewardSimple_burnt:
  assumes "CalcDeferredRewardSimple header txs receipts rules pset = Inr spec"
    "p_DeferredTxFee pset = Some False" "IsMagma rules"
  shows "BurntFee spec = 0"
  using assms
  by (auto simp: CalcDeferredRewardSimple_def result_simps Let_def NewRewardSpec_def
      dest!: NewRewardConfig_Inr split: if_splits)

lemma settle_reward_fields [simp]:
  "Minted (settle_reward si base minted tot burnt sp sh) = minted"
  "spec_TotalFee (settle_reward si base minted tot burnt sp sh) = tot"
  "BurntFee (settle_reward si base minted tot burnt sp sh) = burnt"
  by (simp_all add: settle_reward_def Let_def split: prod.splits)

lemma CalcDeferredReward_burnt:
  assumes "CalcDeferredReward gsi header txs receipts rules pset = Inr spec"
    "p_DeferredTxFee pset = Some False"
  shows "BurntFee spec = 0"
  using assms(1)
  by (rule CalcDeferredReward_Inr) (use assms(2) NewRewardConfig_Inr calcDeferredFee_sum in force)

lemma compensate_fee_balanced:
  assumes "compensate_fee ecr header txs receipts rules pset base = Inr spec" "balanced base"
    and "p_DeferredTxFee pset = Some False \<Longrightarrow> IsMagma rules \<Longrightarrow> BurntFee base = 0"
  shows "balanced spec"
  using assms by (auto simp: compensate_fee_def result_simps Let_def balanced_def split: if_splits)

text \<open>C1: whenever \<open>GetBlockReward\<close> produces a reward specification from parameters that passed
  validation, what was minted plus the fees less the burnt fees is exactly what proposer, stakers
  and the two funds receive, and the rewards map pays out exactly that sum, one entry per address;
  on every fork and for both reward policies.\<close>

theorem GetBlockReward_conserves:
  assumes "GetBlockReward gsi ecrecover header txs receipts rules pset = Inr spec"
    and "wf_paramset pset"
  shows "Minted spec + spec_TotalFee spec - BurntFee spec =
      Proposer spec + Stakers spec + KIF spec + KEF spec \<and>
    alist_sum (Rewards spec) = Proposer spec + Stakers spec + KIF spec + KEF spec \<and>
    distinct (map fst (Rewards spec))"
proof -
  obtain simple base where base: "(if simple then CalcDeferredRewardSimple header txs receipts rules pset
      else CalcDeferredReward gsi header txs receipts rules pset) = Inr base"
    and comp: "compensate_fee ecrecover header txs receipts rules pset base = Inr spec"
    using assms(1) by (auto simp: GetBlockReward_def result_simps)
  have "balanced base"
    using base CalcDeferredRewardSimple_balanced CalcDeferredReward_balanced [OF _ assms(2)]
    by (cases simple) auto
  moreover have "BurntFee base = 0" if "p_DeferredTxFee pset = Some False" "IsMagma rules"
    using base that CalcDeferredRewardSimple_burnt CalcDeferredReward_burnt by (cases simple) auto
  ultimately have "balanced spec" by (rule compensate_fee_balanced [OF comp])
  then show ?thesis by (simp add: balanced_def)
qed

text \<open>C4: the light computation behind the total supply agrees with the full reward computation:
  whenever \<open>GetBlockReward\<close> succeeds, \<open>GetTotalReward\<close> succeeds with the same minted amount and the
  same burnt fees, without looking at the staking information.\<close>

theorem GetTotalReward_agrees:
  assumes "GetBlockReward gsi ecrecover header txs receipts rules pset = Inr spec"
  shows "GetTotalReward header txs receipts rules pset =
    Inr \<lparr> total_Minted = Minted spec, total_BurntFee = BurntFee spec \<rparr>"
proof -
  obtain simple base where simple: "IsRewardSimple pset = Inr simple"
    and base: "(if simple then CalcDeferredRewardSimple header txs receipts rules pset
      else CalcDeferredReward gsi header txs receipts rules pset) = Inr base"
    and comp: "compensate_fee ecrecover header txs receipts rules pset base = Inr spec"
    using assms(1) by (auto simp: GetBlockReward_def result_simps)
  have "\<exists>rc. NewRewardConfig header txs receipts rules pset = Inr rc"
    using base by (auto simp: CalcDeferredRewardSimple_def CalcDeferredReward_def result_simps split: if_splits)
  then obtain rc where rc: "NewRewardConfig header txs receipts rules pset = Inr rc" ..
  note rc_facts = NewRewardConfig_Inr [OF rc]
  have part: "(if simple
            then rbind (CalcDeferredRewardSimple header txs receipts rules pset)
                   (\<lambda>spec. Inr (Minted spec, BurntFee spec))
            else rbind (calcDeferredFee rc) (\<lambda>(_, _, burntFee). Inr (mintingAmount rc, burntFee))) =
        Inr (Minted base, BurntFee base)"
  proof (cases simple)
    case False
    then have "CalcDeferredReward gsi header txs receipts rules pset = Inr base" using base by simp
    then show ?thesis using rc False by (elim CalcDeferredReward_Inr) simp
  qed (use base in simp)
  have burnt: "BurntFee base = 0" if "p_DeferredTxFee pset = Some False" "IsMagma rules"
    using base that CalcDeferredRewardSimple_burnt CalcDeferredReward_burnt by (cases simple) auto
  show ?thesis
    using comp rc_facts burnt
    by (auto simp: GetTotalReward_def rc simple part compensate_fee_def must_def Let_def result_simps
        split: if_splits)
qed

section \<open>Bounds\<close>

lemma sum_effective_stake_le:
  "sum_list (map (effective_stake ms) ns) \<le> sum_list (map (uint \<circ> StakingAmount) ns)"
proof (induction ns)
  case (Cons n ns)
  have "effective_stake ms n \<le> uint (StakingAmount n)"
    using uint_sub_ge [of "StakingAmount n" ms] by (auto simp: effective_stake_def uint_sub_no_wrap less_imp_le)
  then show ?case using Cons by simp
qed simp

lemma total_stakes_exact:
  assumes "sum_list (map (uint \<circ> StakingAmount) ns) < 2 ^ 64"
  shows "uint (total_stakes ms ns) = sum_list (map (effective_stake ms) ns)"
proof -
  have "uint (total_stakes ms ns) = sum_list (map (effective_stake ms) ns) mod 2 ^ 64"
    by (induction ns) (simp_all add: effective_stake_def uint_word_ariths mod_simps)
  moreover have "0 \<le> sum_list (map (effective_stake ms) ns)"
    by (rule sum_list_nonneg) auto
  ultimately show ?thesis using sum_effective_stake_le [of ms ns] assms by simp
qed

definition stakes_fit :: "StakingInfo option \<Rightarrow> bool" where
  "stakes_fit si = (case si of None \<Rightarrow> True
     | Some s \<Rightarrow> (case GetConsolidatedStakingInfo s of None \<Rightarrow> True
         | Some c \<Rightarrow> sum_list (map (uint \<circ> StakingAmount) (nodes c)) < 2 ^ 64))"

lemma calcShares_bounds:
  assumes "calcShares si r ms = Inr (shares, rem)" "0 \<le> r" "stakes_fit si"
  shows "0 \<le> rem \<and> rem \<le> r \<and> (\<forall>v \<in> snd ` set shares. 0 < v)"
proof (cases si)
  case None
  then show ?thesis using assms by (simp add: calcShares_def)
next
  case (Some s)
  then obtain c where c: "GetConsolidatedStakingInfo s = Some c"
    and loop: "share_loop r ms (uint (total_stakes ms (nodes c))) (nodes c) [] r = Inr (shares, rem)"
    using assms(1) by (auto simp: calcShares_def result_simps)
  define t where "t = uint (total_stakes ms (nodes c))"
  have t: "t = sum_list (map (effective_stake ms) (nodes c))"
    unfolding t_def by (rule total_stakes_exact) (use assms(3) Some c in \<open>simp add: stakes_fit_def\<close>)
  have rem: "rem = r - sum_list (map (\<lambda>n. r * effective_stake ms n div t) (nodes c))"
    unfolding t_def by (rule share_loop_closed [OF loop]) simp
  have lower: "0 \<le> sum_list (map (\<lambda>n. r * effective_stake ms n div t) (nodes c))"
    by (rule sum_list_nonneg) (use assms(2) in \<open>auto simp: t_def div_int_pos_iff\<close>)
  have "sum_list (map (\<lambda>n. r * effective_stake ms n div t) (nodes c)) \<le> r"
  proof (cases "t = 0")
    case False
    then have "0 < t" by (simp add: t_def less_le)
    from sum_div_le [OF this, of r "map (effective_stake ms) (nodes c)"] False
    show ?thesis by (simp add: t [symmetric] o_def)
  qed (use assms(2) in simp)
  with rem lower share_loop_positive [OF loop] show ?thesis by simp
qed

lemma div_sum_le:
  fixes x :: int
  assumes "0 \<le> x" "0 \<le> a" "0 \<le> b" "0 \<le> c" "a + b + c = 100"
  shows "0 \<le> x * a div 100" "0 \<le> x * b div 100" "0 \<le> x * c div 100"
    "x * a div 100 + x * b div 100 + x * c div 100 \<le> x"
proof -
  show "0 \<le> x * a div 100" "0 \<le> x * b div 100" "0 \<le> x * c div 100"
    using assms by (simp_all add: pos_imp_zdiv_nonneg_iff)
  have "x * a + x * b + x * c = x * 100" unfolding assms(5) [symmetric] by (simp add: algebra_simps)
  then show "x * a div 100 + x * b div 100 + x * c div 100 \<le> x" by linarith
qed

lemma calcSplit_nonneg:
  assumes "calcSplit rc minted fee = Inr (proposer, stakers, kif, kef, rem)" and wf: "wf_rewardConfig rc"
    and "cnRatio rc + kifRatio rc + kefRatio rc = 100" "0 \<le> minted" "0 \<le> fee"
  shows "0 \<le> proposer \<and> 0 \<le> stakers \<and> 0 \<le> kif \<and> 0 \<le> kef \<and> 0 \<le> rem"
proof (cases "IsKore (cfg_rules rc)")
  case True
  define cn where "cn = minted * cnRatio rc div 100"
  note d = div_sum_le [OF assms(4) _ _ _ assms(3)]
  have cn: "0 \<le> cn" using d(1) wf by (simp add: cn_def wf_rewardConfig_def)
  note e = div_sum_le [OF cn, of "cnProposerRatio rc" "cnStakingRatio rc" 0]
  show ?thesis
    using assms(1,5) d e wf True
    by (auto simp: calcSplit_def Let_def splitByRatio_wf [OF wf] splitByKip82Ratio_wf [OF wf]
        cn_def [symmetric] wf_rewardConfig_def)
next
  case False
  have "0 \<le> minted + fee" using assms(4,5) by simp
  note d = div_sum_le [OF this _ _ _ assms(3)]
  show ?thesis
    using assms(1) d wf False
    by (auto simp: calcSplit_def Let_def splitByRatio_wf [OF wf] wf_rewardConfig_def)
qed

lemma calcDeferredFee_bounds:
  assumes fee: "calcDeferredFee rc = Inr (tot, rewardFee, burnt)" and wf: "wf_rewardConfig rc"
    and nonneg: "0 \<le> totalFee rc"
  shows "0 \<le> rewardFee \<and> 0 \<le> burnt \<and> burnt \<le> tot"
proof -
  define x where "x = mintingAmount rc * cnRatio rc div 100 * cnProposerRatio rc div 100"
  define b where "b = (if IsMagma (cfg_rules rc) then totalFee rc div 2 else 0)"
  have b: "0 \<le> b" "b \<le> totalFee rc" using nonneg by (auto simp: b_def)
  have kore: "getBurnAmountKore rc f = Inr (min f x)" "0 \<le> x" if "IsKore (cfg_rules rc)" for f
    using wf that
    by (simp_all add: getBurnAmountKore_def splitByRatio_wf [OF wf] splitByKip82Ratio_wf [OF wf] x_def
        min_def wf_rewardConfig_def pos_imp_zdiv_nonneg_iff)
  have eq: "calcDeferredFee rc =
     (if \<not> deferredTxFee rc then Inr (0, 0, 0)
      else if IsKore (cfg_rules rc)
        then Inr (totalFee rc, totalFee rc - b - min (totalFee rc - b) x, b + min (totalFee rc - b) x)
        else Inr (totalFee rc, totalFee rc - b, b))"
    by (simp add: calcDeferredFee_def Let_def getBurnAmountMagma_def b_def kore(1))
  show ?thesis
  proof (cases "deferredTxFee rc \<and> IsKore (cfg_rules rc)")
    case True
    then show ?thesis using fee b kore(2) unfolding eq by auto
  next
    case False
    then show ?thesis using fee b unfolding eq by (auto split: if_splits)
  qed
qed

definition nonneg_map :: "(address \<times> int) list \<Rightarrow> bool" where
  "nonneg_map m \<longleftrightarrow> (\<forall>v \<in> snd ` set m. 0 \<le> v)"

lemma nonneg_map_Nil [simp]: "nonneg_map []"
  by (simp add: nonneg_map_def)

lemma nonneg_map_increment [simp]:
  assumes "nonneg_map m" "0 \<le> x"
  shows "nonneg_map (incrementRewardsMap m a x)"
  unfolding nonneg_map_def
proof
  fix v assume "v \<in> snd ` set (incrementRewardsMap m a x)"
  from snd_update [OF this [unfolded incrementRewardsMap_def]] show "0 \<le> v"
  proof (elim disjE)
    assume 1: "v = (case map_of m a of None \<Rightarrow> 0 | Some w \<Rightarrow> w) + x"
    show ?thesis
    proof (cases "map_of m a")
      case (Some w)
      from map_of_SomeD [OF this] have "0 \<le> w" using assms(1) by (auto simp: nonneg_map_def)
      then show ?thesis using 1 Some assms(2) by simp
    qed (use 1 assms(2) in simp)
  next
    assume "v \<in> snd ` set m"
    then show ?thesis using assms(1) by (auto simp: nonneg_map_def)
  qed
qed

lemma nonneg_map_addAll:
  assumes "nonneg_map m" "nonneg_map d"
  shows "nonneg_map (addAll m d)"
  using assms
proof (induction d arbitrary: m)
  case (Cons e d)
  obtain a x where e: "e = (a, x)" by (cases e)
  have x: "0 \<le> x" and d: "nonneg_map d"
    using Cons.prems(2) by (simp_all add: e nonneg_map_def)
  from Cons.IH [OF nonneg_map_increment [OF Cons.prems(1) x] d] show ?case by (simp add: addAll_def e)
qed (simp add: addAll_def)

lemma settle_reward_nonneg:
  assumes "0 \<le> p" "0 \<le> s" "0 \<le> k" "0 \<le> e" "0 \<le> srem" "0 \<le> shrem" "shrem \<le> s"
    and "\<forall>v \<in> snd ` set shares. 0 < v"
    and r_def: "r = settle_reward si base minted tot burnt (p, s, k, e, srem) (shares, shrem)"
  shows "0 \<le> Proposer r \<and> 0 \<le> Stakers r \<and> 0 \<le> KIF r \<and> 0 \<le> KEF r \<and> nonneg_map (Rewards r)"
proof -
  have sh: "nonneg_map shares" using assms(8) by (simp add: nonneg_map_def less_imp_le)
  show ?thesis
    using assms(1-7) unfolding r_def
    by (cases si) (simp_all add: settle_reward_def Let_def nonneg_map_addAll [OF _ sh])
qed

text \<open>C6: with ratios that really add up to 100, a non-negative fee and stakes whose sum fits 64 bits,
  no party of a block's deferred reward receives a negative amount, no entry of the rewards map
  is negative, and at most the whole fee is burnt.\<close>

theorem CalcDeferredReward_bounds:
  assumes "CalcDeferredReward gsi header txs receipts rules pset = Inr spec" "wf_paramset pset"
    and "p_Ratio pset = Some s" "parseRewardRatio s = Inr (cn, kif, kef, tot)" "cn + kif + kef = 100"
    and "GetTotalTxFee header txs receipts rules pset = Inr fee" "0 \<le> fee"
    and "stakes_fit (gsi (big_Uint64 (Number header)))"
  shows "0 \<le> Proposer spec \<and> 0 \<le> Stakers spec \<and> 0 \<le> KIF spec \<and> 0 \<le> KEF spec \<and>
    0 \<le> BurntFee spec \<and> BurntFee spec \<le> spec_TotalFee spec \<and>
    (\<forall>v \<in> snd ` set (Rewards spec). 0 \<le> v)"
  using assms(1)
proof (rule CalcDeferredReward_Inr)
  fix rc tot rewardFee burnt p st k e srem shares shrem
  assume rc: "NewRewardConfig header txs receipts rules pset = Inr rc"
    and feeq: "calcDeferredFee rc = Inr (tot, rewardFee, burnt)"
    and split: "calcSplit rc (mintingAmount rc) rewardFee = Inr (p, st, k, e, srem)"
    and shares: "calcShares (gsi (big_Uint64 (Number header))) st (big_Uint64 (minimumStake rc)) =
      Inr (shares, shrem)"
    and spec: "spec = settle_reward (gsi (big_Uint64 (Number header))) (Rewardbase header)
      (mintingAmount rc) tot burnt (p, st, k, e, srem) (shares, shrem)"
  have wf: "wf_rewardConfig rc" by (rule NewRewardConfig_wf [OF assms(2) rc])
  have "totalFee rc = fee" "cnRatio rc + kifRatio rc + kefRatio rc = 100"
    using NewRewardConfig_Inr [OF rc] assms(3-6) by auto
  with calcDeferredFee_bounds [OF feeq wf] calcSplit_nonneg [OF split wf] assms(7) wf
  have b: "0 \<le> burnt" "burnt \<le> tot"
    and n: "0 \<le> p" "0 \<le> st" "0 \<le> k" "0 \<le> e" "0 \<le> srem"
    by (auto simp: wf_rewardConfig_def)
  from calcShares_bounds [OF shares n(2) assms(8)]
  have "0 \<le> shrem" "shrem \<le> st" "\<forall>v \<in> snd ` set shares. 0 < v" by auto
  from settle_reward_nonneg [OF n this spec] b show ?thesis
    by (simp add: spec nonneg_map_def)
qed

section \<open>Paying out\<close>

lemma DistributeBlockReward_sum:
  "DistributeBlockReward b rewards a = b a + sum_list (map snd (filter (\<lambda>e. fst e = a) rewards))"
  unfolding DistributeBlockReward_def by (induction rewards arbitrary: b) auto


section \<open>Concrete blocks\<close>

definition example_pset :: GovParamSet where
  "example_pset = Map.empty
     (K_Ratio \<mapsto> VString ''34/54/12'', K_Kip82Ratio \<mapsto> VString ''20/80'',
      K_MintingAmount \<mapsto> VString ''9600'', K_MinimumStake \<mapsto> VString ''5000000'',
      K_DeferredTxFee \<mapsto> VBool True, K_Policy \<mapsto> VUint64 2, K_UnitPrice \<mapsto> VUint64 1)"

definition example_rules :: Rules where
  "example_rules = \<lparr> rules_ChainID = 8217, IsIstanbul = True, IsLondon = True, IsEthTxType = True,
     IsMagma = True, IsKore = True, IsShanghai = True, IsCancun = True, IsKaia = False, IsRandao = False \<rparr>"

definition example_block :: Header where
  "example_block = example_header\<lparr> Rewardbase := 31, GasUsed := 21, BaseFee := Some 25 \<rparr>"

lemma example_pset_simps:
  "p_Ratio example_pset = Some ''34/54/12''" "p_Kip82Ratio example_pset = Some ''20/80''"
  "MintingAmountBig example_pset = Some (Some 9600)" "MinimumStakeBig example_pset = Some (Some 5000000)"
  "p_DeferredTxFee example_pset = Some True" "p_Policy example_pset = Some 2"
  by (simp_all add: example_pset_def p_Ratio_def p_Kip82Ratio_def MintingAmountBig_def MintingAmountStr_def
      MinimumStakeBig_def MinimumStakeStr_def p_DeferredTxFee_def p_Policy_def get_string_def get_bool_def
      get_uint64_def big_SetString10_def parse_digits_def digit_val_def of_char_def)

lemma example_ratios:
  "parseRewardRatio ''34/54/12'' = Inr (34, 54, 12, 100)" "parseRewardKip82Ratio ''20/80'' = Inr (20, 80, 100)"
  by (simp_all add: parseRewardRatio_def parseRewardKip82Ratio_def RewardSliceCount_def
      RewardKip82SliceCount_def ParseInt64_def big_SetString10_def parse_digits_def digit_val_def
      of_char_def wrap_i64_def)

lemma example_pset_wf: "wf_paramset example_pset"
  by (simp add: wf_paramset_def example_pset_def item_ok_def Validate_def big_SetString10_def
      parse_digits_def digit_val_def of_char_def validate_ratio_def RewardSliceCount_def
      RewardKip82SliceCount_def ParseInt64_def wrap_i64_def)

definition example_rc :: rewardConfig where
  "example_rc = \<lparr> cfg_rules = example_rules, totalFee = 525, mintingAmount = 9600, minimumStake = 5000000,
     deferredTxFee = True, cnRatio = 34, kifRatio = 54, kefRatio = 12, totalRatio = 100,
     cnProposerRatio = 20, cnStakingRatio = 80, cnTotalRatio = 100 \<rparr>"

lemma example_config: "NewRewardConfig example_block None None example_rules example_pset = Inr example_rc"
  by (simp add: NewRewardConfig_def example_pset_simps example_ratios must_def GetTotalTxFee_def
      example_rules_def example_block_def example_header_def example_rc_def)

lemma example_fee: "calcDeferredFee example_rc = Inr (525, 0, 525)"
  by (simp add: calcDeferredFee_def getBurnAmountKore_def splitByRatio_def splitByKip82Ratio_def
      big_Div_def must_def getBurnAmountMagma_def example_rules_def Let_def example_rc_def)

lemma example_split: "calcSplit example_rc 9600 0 = Inr (652, 2611, 5184, 1152, 1)"
  by (simp add: calcSplit_def splitByRatio_def splitByKip82Ratio_def
      big_Div_def must_def example_rules_def Let_def example_rc_def)

lemma example_shares:
  "calcShares (Some example_staking) 2611 5000000 = Inr ([(31, 1958), (33, 652)], 1)"
  by (simp add: calcShares_def GetConsolidatedStakingInfo_def example_staking_def council_entries_def
      consolidate_step_def must_def big_Div_def word_less_def Let_def)

definition example_spec :: RewardSpec where
  "example_spec = \<lparr> Minted = 9600, spec_TotalFee = 525, BurntFee = 525, Proposer = 653, Stakers = 2610,
     KIF = 5185, KEF = 1152, Rewards = [(31, 2611), (42, 5185), (41, 1152), (33, 652)] \<rparr>"

lemma example_settle:
  "settle_reward (Some example_staking) 31 9600 525 525 (652, 2611, 5184, 1152, 1) ([(31, 1958), (33, 652)], 1) =
     example_spec"
  by (simp add: settle_reward_def example_spec_def Let_def
      EmptyAddress_def example_staking_def addAll_def incrementRewardsMap_def)

lemma example_reward:
  "CalcDeferredReward (\<lambda>_. Some example_staking) example_block None None example_rules example_pset =
     Inr example_spec"
proof -
  have "mintingAmount example_rc = 9600" "big_Uint64 (minimumStake example_rc) = 5000000"
    "Rewardbase example_block = 31"
    by (simp_all add: example_rc_def big_Uint64_def example_block_def)
  then show ?thesis
    by (simp add: CalcDeferredReward_def example_config example_fee example_split example_shares example_settle)
qed

lemma example_block_reward:
  "GetBlockReward (\<lambda>_. Some example_staking) (\<lambda>_. Inr 0) example_block None None example_rules example_pset =
     Inr example_spec"
  by (simp add: GetBlockReward_def IsRewardSimple_def example_pset_simps must_def WeightedRandom_def
      example_reward compensate_fee_def)

theorem GetBlockReward_conserves_witness:
  "Minted example_spec + spec_TotalFee example_spec - BurntFee example_spec =
     alist_sum (Rewards example_spec) \<and> distinct (map fst (Rewards example_spec))"
  using GetBlockReward_conserves [OF example_block_reward example_pset_wf] by simp

theorem GetTotalReward_agrees_witness:
  "GetTotalReward example_block None None example_rules example_pset =
     Inr \<lparr> total_Minted = 9600, total_BurntFee = 525 \<rparr>"
  using GetTotalReward_agrees [OF example_block_reward] by (simp add: example_spec_def)

theorem CalcDeferredReward_bounds_witness:
  "0 \<le> Proposer example_spec \<and> 0 \<le> KIF example_spec \<and> BurntFee example_spec \<le> spec_TotalFee example_spec"
proof -
  have fee: "GetTotalTxFee example_block None None example_rules example_pset = Inr 525"
    using NewRewardConfig_Inr [OF example_config] by (simp add: example_rc_def)
  have fit: "stakes_fit (Some example_staking)"
    by (simp add: stakes_fit_def GetConsolidatedStakingInfo_def example_staking_def council_entries_def
        consolidate_step_def Let_def)
  show ?thesis
    using CalcDeferredReward_bounds [OF example_reward example_pset_wf example_pset_simps(1) example_ratios(1)
        _ fee _ fit] by simp
qed


section \<open>A ratio whose sum wrapped around\<close>

definition overflow_pset :: GovParamSet where
  "overflow_pset = example_pset(K_Ratio \<mapsto> VString ''9223372036854775807/9223372036854775807/102'')"

definition overflow_rc :: rewardConfig where
  "overflow_rc = \<lparr> cfg_rules = example_rules\<lparr> IsMagma := False, IsKore := False \<rparr>, totalFee = 21,
     mintingAmount = 9600, minimumStake = 5000000,
     deferredTxFee = True, cnRatio = 9223372036854775807, kifRatio = 9223372036854775807, kefRatio = 102,
     totalRatio = 100, cnProposerRatio = 0, cnStakingRatio = 0, cnTotalRatio = 0 \<rparr>"

lemma overflow_ratio_parses:
  "parseRewardRatio ''9223372036854775807/9223372036854775807/102'' =
     Inr (9223372036854775807, 9223372036854775807, 102, 100)"
proof -
  have split: "split_on (CHR ''/'') ''9223372036854775807/9223372036854775807/102'' =
      [''9223372036854775807'', ''9223372036854775807'', ''102'']"
    by simp
  have parse: "ParseInt64 ''9223372036854775807'' = Some 9223372036854775807" "ParseInt64 ''102'' = Some 102"
    by (simp_all add: ParseInt64_def big_SetString10_def parse_digits_def digit_val_def of_char_def)
  have wrap: "wrap_i64 (wrap_i64 (9223372036854775807 + 9223372036854775807) + 102) = 100"
    by (simp add: wrap_i64_def)
  show ?thesis
    unfolding parseRewardRatio_def split by (simp add: RewardSliceCount_def parse wrap [simplified])
qed

text \<open>With the accepted ratio \<open>9223372036854775807/9223372036854775807/102\<close> the proposer of a block
  that mints 9600 and collects 21 is credited more than 8 * 10^20 and the fund is debited.\<close>

lemma overflow_ratio_reward:
  "NewRewardConfig example_block None None (cfg_rules overflow_rc) overflow_pset = Inr overflow_rc \<and>
   calcSplit overflow_rc 9600 21 =
     Inr (887380623665797980391, 0, 887380623665797980391, 9813, - 1774761247331595960974)"
proof
  have p: "p_Ratio overflow_pset = Some ''9223372036854775807/9223372036854775807/102''"
    "MintingAmountBig overflow_pset = Some (Some 9600)" "MinimumStakeBig overflow_pset = Some (Some 5000000)"
    "p_DeferredTxFee overflow_pset = Some True" "p_UnitPrice overflow_pset = Some 1"
    using example_pset_simps
    by (simp_all add: overflow_pset_def p_Ratio_def MintingAmountBig_def MintingAmountStr_def
        MinimumStakeBig_def MinimumStakeStr_def p_DeferredTxFee_def get_string_def get_bool_def
        p_UnitPrice_def get_uint64_def example_pset_def)
  show "NewRewardConfig example_block None None (cfg_rules overflow_rc) overflow_pset = Inr overflow_rc"
    by (simp add: NewRewardConfig_def p overflow_ratio_parses must_def GetTotalTxFee_def
        overflow_rc_def example_rules_def example_block_def example_header_def)
  show "calcSplit overflow_rc 9600 21 =
     Inr (887380623665797980391, 0, 887380623665797980391, 9813, - 1774761247331595960974)"
    by (simp add: calcSplit_def overflow_rc_def splitByRatio_def big_Div_def must_def example_rules_def Let_def)
qed

end
