(* ===== verification/Supply.thy ===== *)
theory Supply
  imports Reward
begin

text \<open>
  The supply manager, \<open>reward/supply_manager.go\<close>, with the accumulated-reward records of
  \<open>storage/database\<close>: the block rewards are accumulated from genesis, kept in a cache for every
  block and in the database at checkpoints, and the total supply is computed from them and the
  burnt amounts.

  The chain, the governance parameters, the account states and the rebalance memos are read
  through the record \<open>supplyEnv\<close>. The caches are maps; a bounded cache may drop any entries
  when one is added, which is the argument \<open>evict\<close>. The quit flag is read once per block.
\<close>

datatype supplyError =
    ErrSupplyManagerQuit
  | ErrNoAccReward
  | ErrNoBlock
  | ErrNoState
  | ErrMalformedDump
  | ErrNoRebalanceBurn
  | ErrNoRebalanceMemo
  | ErrEffectiveParams
  | ErrBlockReward rewardError
  | SupplyPanic

record AccReward =
  acc_Minted :: int
  acc_BurntFee :: int

record stateView =
  GetBalance :: "address \<Rightarrow> int"
  RawDump :: "(address \<times> string) list"

record supplyEnv =
  env_Config :: ChainConfig
  GetHeaderByNumber :: "u64 \<Rightarrow> Header option"
  GetBody :: "u64 \<Rightarrow> (Transaction list option \<times> Receipt list option) option"
  StateAt :: "hash \<Rightarrow> stateView option"
  EffectiveParams :: "u64 \<Rightarrow> GovParamSet option"
  RebalanceMemo :: "address \<Rightarrow> string option"
  DecodeMemo :: "string \<Rightarrow> int option option"
  quit_at :: "u64 \<Rightarrow> bool"

record supplyManager =
  checkpointInterval :: u64
  accRewardCache :: "u64 \<rightharpoonup> AccReward"
  memoCache :: "address \<rightharpoonup> int option"
  db_AccReward :: "u64 \<rightharpoonup> AccReward"
  db_LastAccReward :: "u64 option"

section \<open>The database records\<close>

text \<open>Amounts are stored as the big-endian bytes of their absolute value.\<close>

definition WriteAccReward :: "u64 \<Rightarrow> AccReward \<Rightarrow> supplyManager \<Rightarrow> supplyManager" where
  "WriteAccReward n a sm = sm\<lparr> db_AccReward := (db_AccReward sm)
     (n \<mapsto> \<lparr> acc_Minted = \<bar>acc_Minted a\<bar>, acc_BurntFee = \<bar>acc_BurntFee a\<bar> \<rparr>) \<rparr>"

definition ReadAccReward :: "u64 \<Rightarrow> supplyManager \<Rightarrow> AccReward option" where
  "ReadAccReward n sm = db_AccReward sm n"

definition WriteLastAccRewardBlockNumber :: "u64 \<Rightarrow> supplyManager \<Rightarrow> supplyManager" where
  "WriteLastAccRewardBlockNumber n sm = sm\<lparr> db_LastAccReward := Some n \<rparr>"

definition ReadLastAccRewardBlockNumber :: "supplyManager \<Rightarrow> u64" where
  "ReadLastAccRewardBlockNumber sm = (case db_LastAccReward sm of None \<Rightarrow> 0 | Some n \<Rightarrow> n)"

section \<open>Queries\<close>

type_synonym evictor = "(u64 \<rightharpoonup> AccReward) \<Rightarrow> (u64 \<rightharpoonup> AccReward)"

definition cache_Add :: "evictor \<Rightarrow> u64 \<Rightarrow> AccReward \<Rightarrow> supplyManager \<Rightarrow> supplyManager" where
  "cache_Add evict n a sm = sm\<lparr> accRewardCache := evict ((accRewardCache sm)(n \<mapsto> a)) \<rparr>"

definition GetAccReward :: "evictor \<Rightarrow> u64 \<Rightarrow> supplyManager \<Rightarrow> supplyManager \<times> (supplyError + AccReward)" where
  "GetAccReward evict num sm =
     (case accRewardCache sm num of
        Some a \<Rightarrow> (sm, Inr a)
      | None \<Rightarrow>
          if ReadLastAccRewardBlockNumber sm < num then (sm, Inl ErrNoAccReward)
          else case ReadAccReward num sm of
                 None \<Rightarrow> (sm, Inl ErrNoAccReward)
               | Some a \<Rightarrow> (cache_Add evict num a sm, Inr a))"

definition zeroBurnAddress :: address where "zeroBurnAddress = 0"
definition deadBurnAddress :: address where "deadBurnAddress = 0xdead"

definition GetCanonicalBurn :: "supplyEnv \<Rightarrow> u64 \<Rightarrow> supplyError + (int \<times> int)" where
  "GetCanonicalBurn env num =
     (case GetHeaderByNumber env num of
        None \<Rightarrow> Inl ErrNoBlock
      | Some header \<Rightarrow>
          (case StateAt env (Root header) of
             None \<Rightarrow> Inl ErrNoState
           | Some state \<Rightarrow> Inr (GetBalance state zeroBurnAddress, GetBalance state deadBurnAddress)))"

text \<open>The burnt amount of a memo may be absent (a nil pointer) without an error.\<close>

definition GetRebalanceBurn ::
    "supplyEnv \<Rightarrow> u64 \<Rightarrow> int option \<Rightarrow> address \<Rightarrow> supplyManager \<Rightarrow>
     supplyManager \<times> (supplyError + int option)" where
  "GetRebalanceBurn env num forkNum addr sm =
     (if (case forkNum of None \<Rightarrow> True | Some f \<Rightarrow> f = 0 \<or> addr = 0 \<or> f > uint num)
      then (sm, Inr (Some 0))
      else case memoCache sm addr of
        Some burnt \<Rightarrow> (sm, Inr burnt)
      | None \<Rightarrow>
          (case RebalanceMemo env addr of
             None \<Rightarrow> (sm, Inl ErrNoRebalanceBurn)
           | Some memo \<Rightarrow>
               if memo = [] then (sm, Inl ErrNoRebalanceMemo)
               else case DecodeMemo env memo of
                 None \<Rightarrow> (sm, Inl ErrNoRebalanceBurn)
               | Some burnt \<Rightarrow> (sm\<lparr> memoCache := (memoCache sm)(addr \<mapsto> burnt) \<rparr>, Inr burnt)))"

record TotalSupply =
  ts_TotalSupply :: "int option"
  ts_TotalMinted :: int
  ts_TotalBurnt :: "int option"
  ts_BurntFee :: int
  ts_ZeroBurn :: "int option"
  ts_DeadBurn :: "int option"
  ts_Kip103Burn :: "int option"
  ts_Kip160Burn :: "int option"

definition ok_part :: "supplyError + 'a option \<Rightarrow> 'a option" where
  "ok_part r = (case r of Inl _ \<Rightarrow> None | Inr x \<Rightarrow> x)"

definition err_part :: "supplyError + 'a \<Rightarrow> supplyError list" where
  "err_part r = (case r of Inl e \<Rightarrow> [e] | Inr _ \<Rightarrow> [])"

text \<open>The result is the supply and the joined errors; a missing accumulated reward aborts.\<close>

definition GetTotalSupply ::
    "evictor \<Rightarrow> supplyEnv \<Rightarrow> u64 \<Rightarrow> supplyManager \<Rightarrow>
     supplyManager \<times> (supplyError + TotalSupply \<times> supplyError list)" where
  "GetTotalSupply evict env num sm =
     (case GetAccReward evict num sm of
        (sm1, Inl e) \<Rightarrow> (sm1, Inl e)
      | (sm1, Inr acc) \<Rightarrow>
          let canonical = GetCanonicalBurn env num;
              zero = ok_part (map_sum id (Some \<circ> fst) canonical);
              dead = ok_part (map_sum id (Some \<circ> snd) canonical);
              config = env_Config env;
              (sm2, r103) = GetRebalanceBurn env num (Kip103CompatibleBlock config)
                              (Kip103ContractAddress config) sm1;
              kip103 = ok_part r103;
              (sm3, r160) = GetRebalanceBurn env num (Kip160CompatibleBlock config)
                              (Kip160ContractAddress config) sm2;
              kip160 = ok_part r160;
              errs = err_part canonical @ err_part r103 @ err_part r160;
              burnt = (case (zero, dead, kip103, kip160) of
                         (Some z, Some d, Some a, Some b) \<Rightarrow> Some (acc_BurntFee acc + z + d + a + b)
                       | _ \<Rightarrow> None)
          in (sm3, Inr (\<lparr> ts_TotalSupply = map_option (\<lambda>b. acc_Minted acc - b) burnt,
                          ts_TotalMinted = acc_Minted acc, ts_TotalBurnt = burnt,
                          ts_BurntFee = acc_BurntFee acc, ts_ZeroBurn = zero, ts_DeadBurn = dead,
                          ts_Kip103Burn = kip103, ts_Kip160Burn = kip160 \<rparr>, errs)))"

section \<open>Accumulation\<close>

fun sum_dump :: "int \<Rightarrow> (address \<times> string) list \<Rightarrow> supplyError + int" where
  "sum_dump totalSupply [] = Inr totalSupply"
| "sum_dump totalSupply ((_, balance) # accounts) =
     (case big_SetString10 balance of
        None \<Rightarrow> Inl ErrMalformedDump
      | Some b \<Rightarrow> sum_dump (totalSupply + b) accounts)"

definition totalSupplyFromState :: "supplyEnv \<Rightarrow> u64 \<Rightarrow> supplyError + int" where
  "totalSupplyFromState env num =
     (case GetHeaderByNumber env num of
        None \<Rightarrow> Inl ErrNoBlock
      | Some header \<Rightarrow>
          (case StateAt env (Root header) of
             None \<Rightarrow> Inl ErrNoState
           | Some state \<Rightarrow> sum_dump 0 (RawDump state)))"

text \<open>The total reward of one block. A missing block is a nil pointer dereference.\<close>

definition block_total :: "supplyEnv \<Rightarrow> u64 \<Rightarrow> supplyError + TotalReward" where
  "block_total env num =
     (case (GetHeaderByNumber env num, GetBody env num) of
        (Some header, Some (txs, receipts)) \<Rightarrow>
          (case EffectiveParams env num of
             None \<Rightarrow> Inl ErrEffectiveParams
           | Some pset \<Rightarrow>
               (case GetTotalReward header txs receipts (config_Rules (env_Config env) (Some (uint num))) pset of
                  Inl e \<Rightarrow> Inl (ErrBlockReward e)
                | Inr t \<Rightarrow> Inr t))
      | _ \<Rightarrow> Inl SupplyPanic)"

fun accumulate_loop ::
    "nat \<Rightarrow> evictor \<Rightarrow> supplyEnv \<Rightarrow> u64 \<Rightarrow> u64 \<Rightarrow> AccReward \<Rightarrow> supplyManager \<Rightarrow>
     (supplyManager \<times> (supplyError + AccReward)) option" where
  "accumulate_loop 0 evict env num upto_num acc sm = None"
| "accumulate_loop (Suc fuel) evict env num upto_num acc sm =
     (if \<not> num \<le> upto_num then Some (sm, Inr acc)
      else if quit_at env num then Some (sm, Inl ErrSupplyManagerQuit)
      else case block_total env num of
        Inl e \<Rightarrow> Some (sm, Inl e)
      | Inr t \<Rightarrow>
          let acc' = \<lparr> acc_Minted = acc_Minted acc + total_Minted t,
                       acc_BurntFee = acc_BurntFee acc + total_BurntFee t \<rparr>;
              sm1 = cache_Add evict num acc' sm
          in (case u64_rem num (checkpointInterval sm) of
                None \<Rightarrow> Some (sm1, Inl SupplyPanic)
              | Some r \<Rightarrow>
                  let sm2 = (if r = 0
                             then WriteLastAccRewardBlockNumber num (WriteAccReward num acc' sm1)
                             else sm1)
                  in accumulate_loop fuel evict env (num + 1) upto_num acc' sm2))"

definition accumulateReward ::
    "nat \<Rightarrow> evictor \<Rightarrow> supplyEnv \<Rightarrow> u64 \<Rightarrow> u64 \<Rightarrow> AccReward \<Rightarrow> supplyManager \<Rightarrow>
     (supplyManager \<times> (supplyError + AccReward)) option" where
  "accumulateReward fuel evict env from_num upto_num fromAcc sm =
     accumulate_loop fuel evict env (from_num + 1) upto_num fromAcc sm"

text \<open>The first part of \<open>catchup\<close>: find the last accumulated block, or store the genesis supply.
  \<open>None\<close> in the second component is the early return.\<close>

definition catchup_init :: "supplyEnv \<Rightarrow> supplyManager \<Rightarrow> supplyManager \<times> (u64 \<times> AccReward option) option" where
  "catchup_init env sm =
     (let lastNum = ReadLastAccRewardBlockNumber sm;
          reset = lastNum > 0 \<and> ReadAccReward lastNum sm = None;
          sm1 = (if reset then WriteLastAccRewardBlockNumber 0 sm else sm);
          lastNum1 = (if reset then 0 else lastNum)
      in if lastNum1 = 0
         then (case totalSupplyFromState env 0 of
                 Inl _ \<Rightarrow> (sm1, None)
               | Inr genesis \<Rightarrow>
                   let sm2 = WriteLastAccRewardBlockNumber 0
                               (WriteAccReward 0 \<lparr> acc_Minted = genesis, acc_BurntFee = 0 \<rparr> sm1)
                   in (sm2, Some (ReadLastAccRewardBlockNumber sm2,
                                  ReadAccReward (ReadLastAccRewardBlockNumber sm2) sm2)))
         else (sm1, Some (ReadLastAccRewardBlockNumber sm1,
                          ReadAccReward (ReadLastAccRewardBlockNumber sm1) sm1)))"

text \<open>The rest of \<open>catchup\<close>: the successive head numbers, first those read by the big-step loop and
  then those of the chain head events, are the list \<open>heads\<close>; the function returns where the
  list ends or an accumulation fails. The big-step loop only accumulates towards a head above
  the last number, an event always does.\<close>

fun catchup_heads ::
    "nat \<Rightarrow> evictor \<Rightarrow> supplyEnv \<Rightarrow> u64 list \<Rightarrow> u64 \<Rightarrow> AccReward \<Rightarrow> supplyManager \<Rightarrow>
     (supplyManager \<times> u64 \<times> AccReward) option" where
  "catchup_heads fuel evict env [] lastNum lastAcc sm = Some (sm, lastNum, lastAcc)"
| "catchup_heads fuel evict env (headNum # heads) lastNum lastAcc sm =
     (case accumulateReward fuel evict env lastNum headNum lastAcc sm of
        None \<Rightarrow> None
      | Some (sm', Inl e) \<Rightarrow> Some (sm', lastNum, lastAcc)
      | Some (sm', Inr acc) \<Rightarrow> catchup_heads fuel evict env heads headNum acc sm')"

section \<open>The reference: genesis supply plus all block rewards\<close>

definition acc_add :: "AccReward \<Rightarrow> TotalReward \<Rightarrow> AccReward" where
  "acc_add acc t = \<lparr> acc_Minted = acc_Minted acc + total_Minted t,
                     acc_BurntFee = acc_BurntFee acc + total_BurntFee t \<rparr>"

fun acc_upto :: "supplyEnv \<Rightarrow> int \<Rightarrow> nat \<Rightarrow> AccReward option" where
  "acc_upto env genesis 0 = Some \<lparr> acc_Minted = genesis, acc_BurntFee = 0 \<rparr>"
| "acc_upto env genesis (Suc n) =
     (case acc_upto env genesis n of
        None \<Rightarrow> None
      | Some acc \<Rightarrow> (case block_total env (of_nat (Suc n)) of Inl _ \<Rightarrow> None | Inr t \<Rightarrow> Some (acc_add acc t)))"

definition evict_ok :: "evictor \<Rightarrow> bool" where
  "evict_ok evict \<longleftrightarrow> (\<forall>c. evict c \<subseteq>\<^sub>m c)"

definition totals_nonneg :: "supplyEnv \<Rightarrow> bool" where
  "totals_nonneg env \<longleftrightarrow>
     (\<forall>n t. block_total env n = Inr t \<longrightarrow> 0 \<le> total_Minted t \<and> 0 \<le> total_BurntFee t)"

text \<open>Every accumulated reward that is stored is the reference value for its block.\<close>

definition supply_ok :: "supplyEnv \<Rightarrow> int \<Rightarrow> supplyManager \<Rightarrow> bool" where
  "supply_ok env g sm \<longleftrightarrow>
     (\<forall>n a. accRewardCache sm n = Some a \<longrightarrow> acc_upto env g (unat n) = Some a) \<and>
     (\<forall>n a. db_AccReward sm n = Some a \<longrightarrow> acc_upto env g (unat n) = Some a)"

lemma acc_upto_nonneg:
  assumes "totals_nonneg env" "0 \<le> g" "acc_upto env g n = Some a"
  shows "0 \<le> acc_Minted a \<and> 0 \<le> acc_BurntFee a"
  using assms(3)
proof (induction n arbitrary: a)
  case (Suc n)
  then obtain b t where "acc_upto env g n = Some b" "block_total env (of_nat (Suc n)) = Inr t" "a = acc_add b t"
    by (auto split: option.splits sum.splits)
  with Suc.IH [of b] assms(1) show ?case by (auto simp: totals_nonneg_def acc_add_def)
qed (use assms(2) in auto)

lemma supply_ok_cache_Add:
  assumes "supply_ok env g sm" "evict_ok evict" "acc_upto env g (unat n) = Some a"
  shows "supply_ok env g (cache_Add evict n a sm)"
proof -
  have "acc_upto env g (unat m) = Some b" if "evict ((accRewardCache sm)(n \<mapsto> a)) m = Some b" for m b
  proof -
    have "((accRewardCache sm)(n \<mapsto> a)) m = Some b"
      using assms(2) that by (metis evict_ok_def map_le_def domI)
    then show ?thesis using assms(1,3) by (auto simp: supply_ok_def split: if_splits)
  qed
  then show ?thesis using assms(1) by (simp add: supply_ok_def cache_Add_def)
qed

lemma supply_ok_WriteAccReward:
  assumes "supply_ok env g sm" "acc_upto env g (unat n) = Some a" "0 \<le> acc_Minted a" "0 \<le> acc_BurntFee a"
  shows "supply_ok env g (WriteAccReward n a sm)"
  using assms by (cases a) (auto simp: supply_ok_def WriteAccReward_def)

lemma supply_ok_WriteLast [simp]:
  "supply_ok env g (WriteLastAccRewardBlockNumber n sm) = supply_ok env g sm"
  by (simp add: supply_ok_def WriteLastAccRewardBlockNumber_def)

lemma supply_ok_last [simp]: "supply_ok env g (sm\<lparr> db_LastAccReward := n \<rparr>) = supply_ok env g sm"
  by (simp add: supply_ok_def)

lemma supply_ok_lookup:
  assumes "supply_ok env g sm"
  shows "accRewardCache sm n = Some a \<Longrightarrow> acc_upto env g (unat n) = Some a"
    "db_AccReward sm n = Some a \<Longrightarrow> acc_upto env g (unat n) = Some a"
  using assms by (simp_all add: supply_ok_def)

lemma supply_ok_GetAccReward:
  assumes "supply_ok env g sm" "evict_ok evict" "GetAccReward evict num sm = (sm', r)"
  shows "supply_ok env g sm' \<and> (\<forall>a. r = Inr a \<longrightarrow> acc_upto env g (unat num) = Some a)"
  using assms supply_ok_lookup [OF assms(1)] supply_ok_cache_Add [OF assms(1,2), of num]
  by (auto simp: GetAccReward_def ReadAccReward_def split: option.splits if_splits)

lemma unat_Suc_le:
  fixes num upper :: u64
  assumes "num \<le> upper" "upper < - 1"
  shows "unat (num + 1) = Suc (unat num)"
proof -
  have "num < - 1" using assms by (rule le_less_trans)
  then have "1 + num \<noteq> 0" by (metis add.commute eq_neg_iff_add_eq_0 less_irrefl)
  from unatSuc [OF this] show ?thesis by (simp add: add.commute)
qed

lemma accumulate_loop_ok:
  assumes "accumulate_loop fuel evict env num upper acc sm = Some (sm', r)"
    and "supply_ok env g sm" "evict_ok evict" "totals_nonneg env" "0 \<le> g" "upper < - 1"
    and "unat num = Suc k" "acc_upto env g k = Some acc"
  shows "supply_ok env g sm' \<and> (\<forall>a. r = Inr a \<longrightarrow> acc_upto env g (max k (unat upper)) = Some a)"
  using assms(1,2,7,8)
proof (induction fuel arbitrary: num acc sm k)
  case (Suc fuel)
  show ?case
  proof (cases "num \<le> upper \<and> \<not> quit_at env num")
    case False
    have "max k (unat upper) = k" if "\<not> num \<le> upper"
      using that Suc.prems(3) by (simp add: word_le_nat_alt max_def)
    then show ?thesis using False Suc.prems by (auto split: if_splits)
  next
    case True
    then have le: "num \<le> upper" and nq: "\<not> quit_at env num" by auto
    show ?thesis
    proof (cases "block_total env num")
      case (Inl e)
      then show ?thesis using Suc.prems le nq by auto
    next
      case (Inr t)
      define acc' where "acc' = acc_add acc t"
      define sm1 where "sm1 = cache_Add evict num acc' sm"
      have num: "num = of_nat (Suc k)" unfolding Suc.prems(3) [symmetric] by simp
      have ref: "acc_upto env g (Suc k) = Some acc'"
        using Suc.prems(4) Inr by (simp add: num [symmetric] acc'_def del: of_nat_Suc)
      then have ok1: "supply_ok env g sm1"
        unfolding sm1_def using supply_ok_cache_Add [OF Suc.prems(2) assms(3)] Suc.prems(3) by simp
      show ?thesis
      proof (cases "u64_rem num (checkpointInterval sm)")
        case None
        then show ?thesis
          using Suc.prems(1) le nq Inr ok1 by (auto simp: Let_def sm1_def acc'_def acc_add_def)
      next
        case (Some q)
        define sm2 where "sm2 = (if q = 0
          then WriteLastAccRewardBlockNumber num (WriteAccReward num acc' sm1) else sm1)"
        have "supply_ok env g sm2"
          using ok1 supply_ok_WriteAccReward [OF ok1, of num acc'] ref Suc.prems(3)
            acc_upto_nonneg [OF assms(4,5) ref]
          by (simp add: sm2_def)
        moreover have "accumulate_loop fuel evict env (num + 1) upper acc' sm2 = Some (sm', r)"
          using Suc.prems(1) le nq Inr Some
          by (simp add: Let_def sm1_def sm2_def acc'_def acc_add_def cong: if_cong)
        moreover have "unat (num + 1) = Suc (Suc k)"
          using unat_Suc_le [OF le assms(6)] Suc.prems(3) by simp
        moreover have "max (Suc k) (unat upper) = max k (unat upper)"
          using le Suc.prems(3) by (simp add: word_le_nat_alt max_def)
        ultimately show ?thesis using Suc.IH [of "num + 1" acc' sm2 "Suc k"] ref by simp
      qed
    qed
  qed
qed simp

lemma accumulate_loop_returns:
  fixes num upper :: u64
  assumes "upper < - 1" "unat upper + 1 - unat num < fuel"
  shows "\<exists>res. accumulate_loop fuel evict env num upper acc sm = Some res"
  using assms(2)
proof (induction fuel arbitrary: num acc sm)
  case (Suc fuel)
  have "unat upper + 1 - unat (num + 1) < fuel" if "num \<le> upper"
    using unat_Suc_le [OF that assms(1)] Suc.prems that by (simp add: word_le_nat_alt)
  then show ?case
    using Suc.IH by (auto simp: Let_def split: sum.splits option.splits)
qed simp

lemma accumulateReward_ok:
  assumes "accumulateReward fuel evict env from_num upper acc sm = Some (sm', r)"
    and "supply_ok env g sm" "evict_ok evict" "totals_nonneg env" "0 \<le> g" "from_num < - 1" "upper < - 1"
    and "acc_upto env g (unat from_num) = Some acc"
  shows "supply_ok env g sm' \<and>
    (\<forall>a. r = Inr a \<longrightarrow> acc_upto env g (max (unat from_num) (unat upper)) = Some a)"
  using accumulate_loop_ok [OF assms(1) [unfolded accumulateReward_def] assms(2-5,7)
      unat_Suc_le [OF order_refl assms(6)] assms(8)] .

lemma catchup_heads_ok:
  assumes "catchup_heads fuel evict env heads lastNum lastAcc sm = Some (sm', lastNum', lastAcc')"
    and "supply_ok env g sm" "evict_ok evict" "totals_nonneg env" "0 \<le> g"
    and "sorted (lastNum # heads)" "\<forall>h \<in> set (lastNum # heads). h < - 1"
    and "acc_upto env g (unat lastNum) = Some lastAcc"
  shows "supply_ok env g sm' \<and> acc_upto env g (unat lastNum') = Some lastAcc'"
  using assms(1,2,6-8)
proof (induction heads arbitrary: lastNum lastAcc sm)
  case (Cons h heads)
  obtain sm1 r where acc: "accumulateReward fuel evict env lastNum h lastAcc sm = Some (sm1, r)"
    using Cons.prems(1) by (auto split: option.splits)
  have "max (unat lastNum) (unat h) = unat h"
    using Cons.prems(3) by (simp add: word_le_nat_alt max_def)
  with accumulateReward_ok [OF acc Cons.prems(2) assms(3-5)] Cons.prems(4,5)
  have ok: "supply_ok env g sm1" "\<And>a. r = Inr a \<Longrightarrow> acc_upto env g (unat h) = Some a"
    by auto
  show ?case
  proof (cases r)
    case (Inl e)
    then show ?thesis using Cons.prems(1,5) acc ok(1) by simp
  next
    case (Inr a)
    then show ?thesis using Cons.IH [of h a sm1] Cons.prems(1,3,4) acc ok by simp
  qed
qed simp

lemma catchup_init_ok:
  assumes "catchup_init env sm = (sm', Some (lastNum, acc))" "supply_ok env g sm"
    and "totalSupplyFromState env 0 = Inr g" "0 \<le> g"
  shows "supply_ok env g sm' \<and> (\<exists>a. acc = Some a \<and> acc_upto env g (unat lastNum) = Some a)"
proof -
  have w: "supply_ok env g (sm\<lparr> db_AccReward := (db_AccReward sm)(0 \<mapsto> \<lparr> acc_Minted = g, acc_BurntFee = 0 \<rparr>) \<rparr>)"
    using supply_ok_WriteAccReward [OF assms(2), of 0 "\<lparr> acc_Minted = g, acc_BurntFee = 0 \<rparr>"] assms(4)
    by (simp add: WriteAccReward_def)
  have db: "\<And>n a. db_AccReward sm n = Some a \<Longrightarrow> acc_upto env g (unat n) = Some a"
    using assms(2) by (rule supply_ok_lookup)
  show ?thesis
    using assms(1,2,4) w db
    by (auto simp: catchup_init_def Let_def assms(3) ReadAccReward_def ReadLastAccRewardBlockNumber_def
        WriteLastAccRewardBlockNumber_def WriteAccReward_def word_gt_0 split: if_splits option.splits)
qed

text \<open>C11: the supply manager accumulates exactly the genesis supply plus the rewards of every block.
  Starting from a store whose records are right (the empty store is), after the catch-up has run
  through any non-decreasing sequence of head numbers, even when it was interrupted or failed,
  every accumulated reward that a query returns is the reference value for the queried block.\<close>

theorem catchup_accumulates:
  assumes "supply_ok env g sm" "totalSupplyFromState env 0 = Inr g" "0 \<le> g" "totals_nonneg env"
    and "evict_ok evict"
    and "catchup_init env sm = (sm1, Some (lastNum, Some lastAcc))"
    and "catchup_heads fuel evict env heads lastNum lastAcc sm1 = Some (sm2, lastNum', lastAcc')"
    and "sorted (lastNum # heads)" "\<forall>h \<in> set (lastNum # heads). h < - 1"
    and "GetAccReward evict num sm2 = (sm3, Inr a)"
  shows "acc_upto env g (unat num) = Some a"
proof -
  have init: "supply_ok env g sm1" "acc_upto env g (unat lastNum) = Some lastAcc"
    using catchup_init_ok [OF assms(6,1,2,3)] by auto
  have "supply_ok env g sm2"
    using catchup_heads_ok [OF assms(7) init(1) assms(5,4,3,8,9) init(2)] by simp
  then show ?thesis using supply_ok_GetAccReward [OF _ assms(5,10)] by blast
qed


text \<open>The reported total supply. The supply is present exactly when the burns of the zero and
  dead addresses and of both rebalances are; then it is the minted total less the burnt fees and
  these four burns.\<close>

theorem GetTotalSupply_formula:
  assumes "GetTotalSupply evict env num sm = (sm', Inr (ts, errs))"
  shows "(ts_TotalSupply ts \<noteq> None \<longleftrightarrow>
      ts_ZeroBurn ts \<noteq> None \<and> ts_DeadBurn ts \<noteq> None \<and> ts_Kip103Burn ts \<noteq> None \<and> ts_Kip160Burn ts \<noteq> None) \<and>
    (\<forall>supply. ts_TotalSupply ts = Some supply \<longrightarrow>
      supply = ts_TotalMinted ts - (ts_BurntFee ts + the (ts_ZeroBurn ts) + the (ts_DeadBurn ts)
                 + the (ts_Kip103Burn ts) + the (ts_Kip160Burn ts)) \<and>
      errs = [] \<and> ts_TotalBurnt ts = Some (ts_TotalMinted ts - supply))"
  using assms
  by (auto simp: GetTotalSupply_def Let_def ok_part_def err_part_def map_sum_def
      split: prod.splits sum.splits option.splits)

section \<open>A concrete chain\<close>

definition example_config :: ChainConfig where
  "example_config = empty_ChainConfig\<lparr> ChainID := Some 8217, IstanbulCompatibleBlock := Some 0,
     LondonCompatibleBlock := Some 0, EthTxTypeCompatibleBlock := Some 0, MagmaCompatibleBlock := Some 0,
     KoreCompatibleBlock := Some 0, ShanghaiCompatibleBlock := Some 0, CancunCompatibleBlock := Some 0 \<rparr>"

definition example_env :: supplyEnv where
  "example_env = \<lparr> env_Config = example_config, GetHeaderByNumber = (\<lambda>_. Some example_block),
     GetBody = (\<lambda>_. Some (None, None)),
     StateAt = (\<lambda>_. Some \<lparr> GetBalance = (\<lambda>a. if a = 0 then 7 else 0), RawDump = [(1, ''600''), (2, ''400'')] \<rparr>),
     EffectiveParams = (\<lambda>_. Some example_pset), RebalanceMemo = (\<lambda>_. None), DecodeMemo = (\<lambda>_. None),
     quit_at = (\<lambda>_. False) \<rparr>"

definition example_sm :: supplyManager where
  "example_sm = \<lparr> checkpointInterval = 2, accRewardCache = Map.empty, memoCache = Map.empty,
     db_AccReward = Map.empty, db_LastAccReward = None \<rparr>"

definition keep_all :: evictor where "keep_all c = c"

lemma example_env_rules: "config_Rules example_config (Some (uint (n :: u64))) = example_rules"
  by (simp add: config_Rules_def example_config_def empty_ChainConfig_def example_rules_def
      IsIstanbulForkEnabled_def IsLondonForkEnabled_def IsEthTxTypeForkEnabled_def IsMagmaForkEnabled_def
      IsKoreForkEnabled_def IsShanghaiForkEnabled_def IsCancunForkEnabled_def IsKaiaForkEnabled_def
      IsRandaoForkEnabled_def isForked_def)

lemma example_block_total: "block_total example_env n = Inr \<lparr> total_Minted = 9600, total_BurntFee = 525 \<rparr>"
proof -
  have "GetTotalReward example_block None None example_rules example_pset =
     Inr \<lparr> total_Minted = 9600, total_BurntFee = 525 \<rparr>"
    by (simp add: GetTotalReward_def example_pset_simps IsRewardSimple_def must_def WeightedRandom_def
        Reward.example_config example_fee example_rc_def [symmetric])
       (simp add: example_rc_def)
  then show ?thesis by (simp add: block_total_def example_env_def example_env_rules)
qed

lemma example_genesis: "totalSupplyFromState example_env 0 = Inr 1000"
  by (simp add: totalSupplyFromState_def example_env_def big_SetString10_def parse_digits_def
      digit_val_def of_char_def)

definition example_total :: TotalReward where
  "example_total = \<lparr> total_Minted = 9600, total_BurntFee = 525 \<rparr>"

lemmas example_run = word_le_def accumulateReward_def example_block_total Let_def cache_Add_def keep_all_def
  WriteAccReward_def WriteLastAccRewardBlockNumber_def u64_rem_def

lemma example_not_quit: "\<not> quit_at example_env n"
  by (simp add: example_env_def)

lemma example_init:
  "catchup_init example_env example_sm =
     (example_sm\<lparr> db_AccReward := [0 \<mapsto> \<lparr> acc_Minted = 1000, acc_BurntFee = 0 \<rparr>], db_LastAccReward := Some 0 \<rparr>,
      Some (0, Some \<lparr> acc_Minted = 1000, acc_BurntFee = 0 \<rparr>))"
  by (simp add: catchup_init_def example_genesis Let_def ReadLastAccRewardBlockNumber_def example_sm_def
      WriteAccReward_def WriteLastAccRewardBlockNumber_def ReadAccReward_def)

definition example_sm2 :: supplyManager where
  "example_sm2 = \<lparr> checkpointInterval = 2,
     accRewardCache = [1 \<mapsto> \<lparr> acc_Minted = 10600, acc_BurntFee = 525 \<rparr>,
                       2 \<mapsto> \<lparr> acc_Minted = 20200, acc_BurntFee = 1050 \<rparr>],
     memoCache = Map.empty,
     db_AccReward = [0 \<mapsto> \<lparr> acc_Minted = 1000, acc_BurntFee = 0 \<rparr>,
                     2 \<mapsto> \<lparr> acc_Minted = 20200, acc_BurntFee = 1050 \<rparr>],
     db_LastAccReward = Some 2 \<rparr>"

lemma example_heads:
  "catchup_heads (Suc (Suc (Suc (Suc 0)))) keep_all example_env [1, 2] 0 \<lparr> acc_Minted = 1000, acc_BurntFee = 0 \<rparr>
     (example_sm\<lparr> db_AccReward := [0 \<mapsto> \<lparr> acc_Minted = 1000, acc_BurntFee = 0 \<rparr>], db_LastAccReward := Some 0 \<rparr>) =
   Some (example_sm2, 2, \<lparr> acc_Minted = 20200, acc_BurntFee = 1050 \<rparr>)"
  by (simp add: example_run example_not_quit example_sm_def example_sm2_def)

lemma below_max: "2 < (- 1 :: u64)" "5 < (- 1 :: u64)" "0 < (- 1 :: u64)" "1 < (- 1 :: u64)"
  by (simp_all add: word_less_def unsigned_minus_1_eq_mask mask_eq_exp_minus_1 take_bit_eq_mod)

theorem catchup_accumulates_witness:
  "acc_upto example_env 1000 2 = Some \<lparr> acc_Minted = 20200, acc_BurntFee = 1050 \<rparr>"
proof -
  have ok: "supply_ok example_env 1000 example_sm"
    by (simp add: supply_ok_def example_sm_def)
  have nonneg: "totals_nonneg example_env" "evict_ok keep_all"
    by (simp_all add: totals_nonneg_def example_block_total evict_ok_def keep_all_def)
  have query: "GetAccReward keep_all 2 example_sm2 =
      (example_sm2, Inr \<lparr> acc_Minted = 20200, acc_BurntFee = 1050 \<rparr>)"
    by (simp add: GetAccReward_def example_sm2_def)
  have small: "\<forall>h \<in> set [0, 1, 2]. h < (- 1 :: u64)" by (simp add: below_max)
  have "acc_upto example_env 1000 (unat (2 :: u64)) = Some \<lparr> acc_Minted = 20200, acc_BurntFee = 1050 \<rparr>"
    by (rule catchup_accumulates [OF ok example_genesis _ nonneg example_init example_heads _ small query])
      (simp_all add: word_le_def)
  then show ?thesis by simp
qed


theorem GetTotalSupply_formula_witness:
  "\<exists>ts. GetTotalSupply keep_all example_env 2 example_sm2 = (example_sm2, Inr (ts, [])) \<and>
     ts_TotalSupply ts = Some (20200 - (1050 + 7))"
proof -
  define ts where "ts = \<lparr> ts_TotalSupply = Some 19143, ts_TotalMinted = 20200, ts_TotalBurnt = Some 1057,
    ts_BurntFee = 1050, ts_ZeroBurn = Some 7, ts_DeadBurn = Some 0, ts_Kip103Burn = Some 0,
    ts_Kip160Burn = Some 0 \<rparr>"
  have h: "GetTotalSupply keep_all example_env 2 example_sm2 = (example_sm2, Inr (ts, []))"
    by (simp add: GetTotalSupply_def GetAccReward_def GetCanonicalBurn_def GetRebalanceBurn_def
        example_env_def example_config_def empty_ChainConfig_def ok_part_def err_part_def Let_def
        zeroBurnAddress_def deadBurnAddress_def example_sm2_def ts_def)
  show ?thesis using GetTotalSupply_formula [OF h] h by (auto simp: ts_def)
qed


end
