(* ===== verification/Validator_Set.thy ===== *)
theory Validator_Set
  imports Staking "HOL-Library.Char_ord" "HOL-Library.List_Lexorder"
begin

text \<open>
  The Istanbul validator sets, \<open>consensus/istanbul/validator\<close>: the default set (round robin and
  sticky proposers), the weighted council, the composition of committees, and the quorum sizes
  of \<open>core.RequiredMessageCount\<close> and \<open>F\<close>.

  The record \<open>valEnv\<close> holds what the sets read from elsewhere: the checksummed address string
  that orders validators, the draws of \<open>math/rand\<close> for a seed (the k-th draw below a bound), the
  fork rules, the proposer update interval and the staking information. Panics are \<open>None\<close>.
  Staking amounts are whole KAIA far below 2^53, where the code's \<open>float64\<close> is exact, and are
  integers; the floating-point weights before Kore are the argument \<open>calc_weights\<close>.
\<close>

record weightedValidator =
  wv_address :: address
  wv_rewardAddress :: address
  wv_votingPower :: u64
  wv_weight :: u64

datatype Validator = DefaultVal address | WeightedVal weightedValidator

fun val_Address :: "Validator \<Rightarrow> address" where
  "val_Address (DefaultVal a) = a"
| "val_Address (WeightedVal w) = wv_address w"

fun val_RewardAddress :: "Validator \<Rightarrow> address" where
  "val_RewardAddress (DefaultVal _) = 0"
| "val_RewardAddress (WeightedVal w) = wv_rewardAddress w"

fun val_VotingPower :: "Validator \<Rightarrow> u64" where
  "val_VotingPower (DefaultVal _) = 1000"
| "val_VotingPower (WeightedVal w) = wv_votingPower w"

fun val_Weight :: "Validator \<Rightarrow> u64" where
  "val_Weight (DefaultVal _) = 0"
| "val_Weight (WeightedVal w) = wv_weight w"

record View =
  view_Round :: int
  view_Sequence :: int

record valEnv =
  addr_string :: "address \<Rightarrow> string"
  randn :: "int \<Rightarrow> nat \<Rightarrow> nat \<Rightarrow> nat"
  fork_rules :: "int \<Rightarrow> Rules"
  proposer_interval :: u64
  staking_at :: "u64 \<Rightarrow> StakingInfo option"

text \<open>\<open>sort.Sort\<close> on \<open>istanbul.Validators\<close> orders by the address string.\<close>

definition sort_validators :: "valEnv \<Rightarrow> Validator list \<Rightarrow> Validator list" where
  "sort_validators env vs = sort_key (\<lambda>v. addr_string env (val_Address v)) vs"

text \<open>\<open>getByAddress\<close>: the index and the validator, or -1 and nil.\<close>

fun getByAddress :: "Validator list \<Rightarrow> address \<Rightarrow> (nat \<times> Validator) option" where
  "getByAddress [] a = None"
| "getByAddress (v # vs) a =
     (if val_Address v = a then Some (0, v)
      else map_option (\<lambda>(i, w). (Suc i, w)) (getByAddress vs a))"

definition getByIndex :: "Validator list \<Rightarrow> u64 \<Rightarrow> Validator option" where
  "getByIndex vs i = (if unat i < length vs then Some (vs ! unat i) else None)"

section \<open>Seeds, shuffles and committees\<close>

text \<open>\<open>ConvertHashToSeed\<close>: the first 15 hexadecimal digits of the hash.\<close>

definition ConvertHashToSeed :: "hash \<Rightarrow> int" where
  "ConvertHashToSeed h = uint h div 2 ^ 196"

text \<open>The loop \<open>for i := 0; i < limit; i++\<close> that swaps with \<open>picker.Intn(limit)\<close>.\<close>

fun swap_loop :: "(nat \<Rightarrow> nat) \<Rightarrow> nat \<Rightarrow> nat \<Rightarrow> 'a list \<Rightarrow> 'a list" where
  "swap_loop draw i 0 xs = xs"
| "swap_loop draw i (Suc n) xs = swap_loop draw (Suc i) n (swap_at xs i (draw i))"

definition SelectRandomCommittee ::
    "valEnv \<Rightarrow> Validator list \<Rightarrow> u64 \<Rightarrow> int \<Rightarrow> nat \<Rightarrow> nat \<Rightarrow> Validator list option" where
  "SelectRandomCommittee env validators committeeSize seed proposerIdx nextProposerIdx =
     (if proposerIdx = nextProposerIdx then None
      else if length validators < unat committeeSize \<or> length validators \<le> proposerIdx \<or>
              length validators \<le> nextProposerIdx then None
      else if committeeSize = 0 then None
      else if committeeSize = 1 then Some [validators ! proposerIdx]
      else
        let pickSize = length validators - 2;
            indexs = filter (\<lambda>i. i \<noteq> proposerIdx \<and> i \<noteq> nextProposerIdx) [0..<length validators];
            shuffled = swap_loop (\<lambda>k. randn env seed k pickSize) 0 pickSize indexs
        in Some (validators ! proposerIdx # validators ! nextProposerIdx #
                 map (\<lambda>i. validators ! i) (take (unat committeeSize - 2) shuffled)))"

text \<open>\<open>rand.Shuffle\<close>: from the last index down, swap with a draw at most that index.\<close>

fun shuffle_loop :: "(nat \<Rightarrow> nat \<Rightarrow> nat) \<Rightarrow> nat \<Rightarrow> nat \<Rightarrow> 'a list \<Rightarrow> 'a list" where
  "shuffle_loop draw k 0 xs = xs"
| "shuffle_loop draw k (Suc i) xs = shuffle_loop draw (Suc k) i (swap_at xs (Suc i) (draw k (Suc (Suc i))))"

definition shuffleValidators :: "valEnv \<Rightarrow> 'a list \<Rightarrow> int \<Rightarrow> 'a list" where
  "shuffleValidators env vs seed = shuffle_loop (randn env seed) 0 (length vs - 1) vs"

definition be_u64 :: "bytes \<Rightarrow> u64" where
  "be_u64 b = word_of_nat (fold (\<lambda>x acc. acc * 256 + unat x) b 0)"

definition SelectRandaoCommittee :: "valEnv \<Rightarrow> Validator list \<Rightarrow> u64 \<Rightarrow> bytes \<Rightarrow> Validator list option" where
  "SelectRandaoCommittee env validators committeeSize mixHash =
     (if committeeSize < 2
      then Some (if committeeSize = 0 then [] else validators)
      else if length mixHash < 8 then None
      else
        let seed = sint (be_u64 (take 8 mixHash));
            size = (if unat committeeSize > length validators then length validators else unat committeeSize)
        in Some (take size (shuffleValidators env validators seed)))"

section \<open>The default set\<close>

abbreviation RoundRobin :: u64 where "RoundRobin \<equiv> 0"
definition Sticky :: u64 where "Sticky = 1"

abbreviation defaultSubSetLength :: u64 where "defaultSubSetLength \<equiv> 21"

record defaultSet =
  ds_subSize :: u64
  ds_validators :: "Validator list"
  ds_policy :: u64
  ds_proposer :: "Validator option"

definition newDefaultSubSet :: "valEnv \<Rightarrow> address list \<Rightarrow> u64 \<Rightarrow> u64 \<Rightarrow> defaultSet" where
  "newDefaultSubSet env addrs policy subSize =
     (let vs = sort_validators env (map DefaultVal addrs)
      in \<lparr> ds_subSize = subSize, ds_validators = vs, ds_policy = policy,
           ds_proposer = getByIndex vs 0 \<rparr>)"

definition newDefaultSet :: "valEnv \<Rightarrow> address list \<Rightarrow> u64 \<Rightarrow> defaultSet" where
  "newDefaultSet env addrs policy =
     (let vs = sort_validators env (map DefaultVal addrs)
      in \<lparr> ds_subSize = defaultSubSetLength, ds_validators = vs, ds_policy = policy,
           ds_proposer = getByIndex vs 0 \<rparr>)"

definition ds_SetSubGroupSize :: "u64 \<Rightarrow> defaultSet \<Rightarrow> defaultSet" where
  "ds_SetSubGroupSize newSize s = (if newSize = 0 then s else s\<lparr> ds_subSize := newSize \<rparr>)"

definition ds_IsSubSet :: "defaultSet \<Rightarrow> bool" where
  "ds_IsSubSet s \<longleftrightarrow> length (ds_validators s) > unat (ds_subSize s)"

text \<open>\<open>reflect.DeepEqual\<close> of the proposer and the looked-up validator; two nils are equal.\<close>

definition ds_IsProposer :: "defaultSet \<Rightarrow> address \<Rightarrow> bool" where
  "ds_IsProposer s addr \<longleftrightarrow> ds_proposer s = map_option snd (getByAddress (ds_validators s) addr)"

definition calcSeed :: "Validator list \<Rightarrow> address \<Rightarrow> u64 \<Rightarrow> u64" where
  "calcSeed vs proposer rnd =
     (let offset = (case getByAddress vs proposer of None \<Rightarrow> 0 | Some (i, _) \<Rightarrow> i)
      in of_nat offset + rnd)"

text \<open>An empty set makes the remainder panic.\<close>

definition pick_validator :: "Validator list \<Rightarrow> u64 \<Rightarrow> Validator option" where
  "pick_validator vs seed = (if vs = [] then None else Some (vs ! (unat seed mod length vs)))"

definition roundRobinProposer :: "Validator list \<Rightarrow> address \<Rightarrow> u64 \<Rightarrow> Validator option" where
  "roundRobinProposer vs proposer rnd =
     pick_validator vs (if EmptyAddress proposer then rnd else calcSeed vs proposer rnd + 1)"

definition stickyProposer :: "Validator list \<Rightarrow> address \<Rightarrow> u64 \<Rightarrow> Validator option" where
  "stickyProposer vs proposer rnd =
     pick_validator vs (if EmptyAddress proposer then rnd else calcSeed vs proposer rnd)"

definition ds_selector :: "defaultSet \<Rightarrow> address \<Rightarrow> u64 \<Rightarrow> Validator option" where
  "ds_selector s = (if ds_policy s = Sticky then stickyProposer else roundRobinProposer) (ds_validators s)"

definition ds_CalcProposer :: "address \<Rightarrow> u64 \<Rightarrow> defaultSet \<Rightarrow> defaultSet" where
  "ds_CalcProposer lastProposer rnd s =
     (if ds_validators s = [] then s
      else s\<lparr> ds_proposer := ds_selector s lastProposer rnd \<rparr>)"

definition committee_seed :: "valEnv \<Rightarrow> hash \<Rightarrow> View \<Rightarrow> int" where
  "committee_seed env prevHash view =
     (let seed = ConvertHashToSeed prevHash
      in if IsIstanbul (fork_rules env (view_Sequence view))
         then wrap_i64 (seed + wrap_i64 (view_Round view)) else seed)"

definition ds_SubListWithProposer ::
    "valEnv \<Rightarrow> defaultSet \<Rightarrow> hash \<Rightarrow> address \<Rightarrow> View \<Rightarrow> Validator list" where
  "ds_SubListWithProposer env s prevHash proposerAddr view =
     (let validators = ds_validators s;
          committeeSize = ds_subSize s
      in if unat committeeSize \<ge> length validators then validators
         else case getByAddress validators proposerAddr of
                None \<Rightarrow> validators
              | Some (proposerIdx, proposer) \<Rightarrow>
                  if committeeSize = 1 then [proposer]
                  else case ds_selector s (val_Address proposer) (big_Uint64 (view_Round view)) of
                         None \<Rightarrow> validators
                       | Some nextProposer \<Rightarrow>
                           (case getByAddress validators (val_Address nextProposer) of
                              None \<Rightarrow> validators
                            | Some (nextProposerIdx, _) \<Rightarrow>
                                (case SelectRandomCommittee env validators committeeSize
                                        (committee_seed env prevHash view) proposerIdx nextProposerIdx of
                                   None \<Rightarrow> validators
                                 | Some committee \<Rightarrow> committee)))"

definition ds_SubList :: "valEnv \<Rightarrow> defaultSet \<Rightarrow> hash \<Rightarrow> View \<Rightarrow> Validator list" where
  "ds_SubList env s prevHash view =
     (case ds_proposer s of
        None \<Rightarrow> ds_validators s
      | Some p \<Rightarrow> ds_SubListWithProposer env s prevHash (val_Address p) view)"

definition ds_CheckInSubList :: "valEnv \<Rightarrow> defaultSet \<Rightarrow> hash \<Rightarrow> View \<Rightarrow> address \<Rightarrow> bool" where
  "ds_CheckInSubList env s prevHash view addr \<longleftrightarrow>
     (\<exists>v \<in> set (ds_SubList env s prevHash view). val_Address v = addr)"

definition ds_AddValidator :: "valEnv \<Rightarrow> address \<Rightarrow> defaultSet \<Rightarrow> defaultSet \<times> bool" where
  "ds_AddValidator env addr s =
     (if \<exists>v \<in> set (ds_validators s). val_Address v = addr then (s, False)
      else (s\<lparr> ds_validators := sort_validators env (ds_validators s @ [DefaultVal addr]) \<rparr>, True))"

fun remove_first :: "address \<Rightarrow> Validator list \<Rightarrow> Validator list option" where
  "remove_first a [] = None"
| "remove_first a (v # vs) =
     (if val_Address v = a then Some vs else map_option (\<lambda>ws. v # ws) (remove_first a vs))"

definition ds_RemoveValidator :: "address \<Rightarrow> defaultSet \<Rightarrow> defaultSet \<times> bool" where
  "ds_RemoveValidator addr s =
     (case remove_first addr (ds_validators s) of
        None \<Rightarrow> (s, False)
      | Some vs \<Rightarrow> (s\<lparr> ds_validators := vs \<rparr>, True))"

definition ds_Copy :: "valEnv \<Rightarrow> defaultSet \<Rightarrow> defaultSet" where
  "ds_Copy env s =
     (let n = newDefaultSubSet env (map val_Address (ds_validators s)) (ds_policy s) (ds_subSize s)
      in case ds_proposer s of
           None \<Rightarrow> n
         | Some p \<Rightarrow>
             (case getByAddress (ds_validators n) (val_Address p) of
                None \<Rightarrow> n
              | Some (_, q) \<Rightarrow> n\<lparr> ds_proposer := Some q \<rparr>))"

text \<open>\<open>int(math.Ceil(float64(n) / 3)) - 1\<close>.\<close>

definition ceil_div3 :: "nat \<Rightarrow> int" where
  "ceil_div3 n = int ((n + 2) div 3)"

definition ds_F :: "defaultSet \<Rightarrow> int" where
  "ds_F s = (if length (ds_validators s) > unat (ds_subSize s) then ceil_div3 (unat (ds_subSize s)) - 1
             else ceil_div3 (length (ds_validators s)) - 1)"

fun TotalVotingPower :: "Validator list \<Rightarrow> u64" where
  "TotalVotingPower [] = 0"
| "TotalVotingPower (v # vs) = val_VotingPower v + TotalVotingPower vs"

section \<open>The weighted council\<close>

record weightedCouncil =
  wc_subSize :: u64
  wc_demoted :: "Validator list"
  wc_validators :: "Validator list"
  wc_proposer :: "Validator option"
  wc_proposers :: "Validator list"
  wc_proposersBlockNum :: u64
  wc_stakingInfo :: "StakingInfo option"
  wc_blockNum :: u64
  wc_mixHash :: "bytes option"

definition newWeightedValidator :: "address \<Rightarrow> address \<Rightarrow> u64 \<Rightarrow> u64 \<Rightarrow> Validator" where
  "newWeightedValidator addr rewardAddr votingPower weight =
     WeightedVal \<lparr> wv_address = addr, wv_rewardAddress = rewardAddr, wv_votingPower = votingPower,
                   wv_weight = weight \<rparr>"

definition zip_validators :: "address list \<Rightarrow> address list \<Rightarrow> u64 list \<Rightarrow> u64 list \<Rightarrow> Validator list" where
  "zip_validators addrs rewards votingPowers weights =
     map (\<lambda>(a, r, p, w). newWeightedValidator a r p w) (zip addrs (zip rewards (zip votingPowers weights)))"

text \<open>The constructor for the weighted-random policy, without the missing-chain crash; absent lists
  are filled with zero addresses, zero weights and voting power 1000.\<close>

definition NewWeightedCouncil ::
    "valEnv \<Rightarrow> address list \<Rightarrow> address list \<Rightarrow> address list option \<Rightarrow> u64 list option \<Rightarrow> u64 list option \<Rightarrow>
     u64 \<Rightarrow> u64 \<Rightarrow> u64 \<Rightarrow> weightedCouncil option" where
  "NewWeightedCouncil env addrs demotedAddrs rewards votingPowers weights committeeSize blockNum
       proposersBlockNum =
     (let rs = (case rewards of None \<Rightarrow> replicate (length addrs) 0 | Some r \<Rightarrow> r);
          ws = (case weights of None \<Rightarrow> replicate (length addrs) 0 | Some w \<Rightarrow> w);
          ps = (case votingPowers of None \<Rightarrow> replicate (length addrs) 1000 | Some p \<Rightarrow> p)
      in if length addrs \<noteq> length rs \<or> length addrs \<noteq> length ps \<or> length addrs \<noteq> length ws then None
         else
           let vs = sort_validators env (zip_validators addrs rs ps ws)
           in Some \<lparr> wc_subSize = committeeSize,
                     wc_demoted = sort_validators env (map (\<lambda>a. newWeightedValidator a 0 1000 0) demotedAddrs),
                     wc_validators = vs, wc_proposer = getByIndex vs 0, wc_proposers = vs,
                     wc_proposersBlockNum = proposersBlockNum, wc_stakingInfo = None,
                     wc_blockNum = blockNum, wc_mixHash = None \<rparr>)"

definition wc_SetSubGroupSize :: "u64 \<Rightarrow> weightedCouncil \<Rightarrow> weightedCouncil" where
  "wc_SetSubGroupSize newSize c = (if newSize = 0 then c else c\<lparr> wc_subSize := newSize \<rparr>)"

definition wc_IsSubSet :: "weightedCouncil \<Rightarrow> bool" where
  "wc_IsSubSet c \<longleftrightarrow> length (wc_validators c) > unat (wc_subSize c)"

definition wc_F :: "weightedCouncil \<Rightarrow> int" where
  "wc_F c = (if length (wc_validators c) > unat (wc_subSize c) then ceil_div3 (unat (wc_subSize c)) - 1
             else ceil_div3 (length (wc_validators c)) - 1)"

text \<open>\<open>weightedRandomProposer\<close>: the outer option is a panic, the inner one nil.\<close>

definition weightedRandomProposer :: "valEnv \<Rightarrow> weightedCouncil \<Rightarrow> u64 \<Rightarrow> Validator option option" where
  "weightedRandomProposer env c rnd =
     (if IsRandao (fork_rules env (uint (wc_blockNum c + 1)))
      then (case wc_mixHash c of
              None \<Rightarrow> Some None
            | Some mixHash \<Rightarrow>
                (case SelectRandaoCommittee env (wc_validators c) (wc_subSize c) mixHash of
                   None \<Rightarrow> None
                 | Some committee \<Rightarrow>
                     if committee = [] then None
                     else Some (Some (committee ! (unat rnd mod length committee)))))
      else if wc_proposers c = [] then Some None
      else (case CalcProposerBlockNumber (proposer_interval env) (wc_blockNum c + 1) of
              None \<Rightarrow> None
            | Some base \<Rightarrow>
                let picker = unat (wc_blockNum c + rnd - base) mod length (wc_proposers c)
                in Some (Some (wc_proposers c ! picker))))"

definition wc_IsProposer :: "weightedCouncil \<Rightarrow> address \<Rightarrow> bool option" where
  "wc_IsProposer c addr =
     (case wc_proposer c of
        None \<Rightarrow> None
      | Some p \<Rightarrow> Some (Some p = map_option snd (getByAddress (wc_validators c) addr)))"

definition chooseProposerByRoundRobin :: "Validator list \<Rightarrow> address \<Rightarrow> u64 \<Rightarrow> Validator option" where
  "chooseProposerByRoundRobin vs lastProposer rnd =
     pick_validator vs (if EmptyAddress lastProposer then rnd else calcSeed vs lastProposer rnd)"

definition wc_CalcProposer :: "valEnv \<Rightarrow> address \<Rightarrow> u64 \<Rightarrow> weightedCouncil \<Rightarrow> weightedCouncil option" where
  "wc_CalcProposer env lastProposer rnd c =
     (case weightedRandomProposer env c rnd of
        None \<Rightarrow> None
      | Some (Some p) \<Rightarrow> Some (c\<lparr> wc_proposer := Some p \<rparr>)
      | Some None \<Rightarrow>
          if wc_validators c = []
          then Some (c\<lparr> wc_proposer := Some (newWeightedValidator lastProposer 0 0 0) \<rparr>)
          else Some (c\<lparr> wc_proposer := chooseProposerByRoundRobin (wc_validators c) lastProposer rnd \<rparr>))"

text \<open>The search for a next proposer that differs from the proposer: at most
  \<open>ProposerUpdateInterval()\<close> attempts. \<open>None\<close> is a panic, \<open>Some None\<close> gives up.\<close>

fun next_proposer_loop ::
    "nat \<Rightarrow> valEnv \<Rightarrow> weightedCouncil \<Rightarrow> address \<Rightarrow> u64 \<Rightarrow> u64 \<Rightarrow> Validator option option" where
  "next_proposer_loop 0 env c proposerAddr rnd idx = Some None"
| "next_proposer_loop (Suc n) env c proposerAddr rnd idx =
     (case weightedRandomProposer env c (rnd + idx) of
        None \<Rightarrow> None
      | Some None \<Rightarrow> None
      | Some (Some q) \<Rightarrow>
          if proposerAddr \<noteq> val_Address q then Some (Some q)
          else next_proposer_loop n env c proposerAddr rnd (idx + 1))"

definition wc_SubListWithProposer ::
    "valEnv \<Rightarrow> weightedCouncil \<Rightarrow> hash \<Rightarrow> address \<Rightarrow> View \<Rightarrow> Validator list option" where
  "wc_SubListWithProposer env c prevHash proposerAddr view =
     (let validators = wc_validators c;
          committeeSize = wc_subSize c
      in if unat committeeSize \<ge> length validators then Some validators
         else case getByAddress validators proposerAddr of
                None \<Rightarrow> Some validators
              | Some (proposerIdx, proposer) \<Rightarrow>
                  if committeeSize = 1 then Some [proposer]
                  else if IsRandao (fork_rules env (view_Sequence view))
                  then (case wc_mixHash c of
                          None \<Rightarrow> Some []
                        | Some mixHash \<Rightarrow> SelectRandaoCommittee env validators committeeSize mixHash)
                  else
                    (case next_proposer_loop (unat (proposer_interval env)) env c
                            (val_Address proposer) (big_Uint64 (view_Round view)) 1 of
                       None \<Rightarrow> None
                     | Some None \<Rightarrow> Some validators
                     | Some (Some nextProposer) \<Rightarrow>
                         (case getByAddress validators (val_Address nextProposer) of
                            None \<Rightarrow> Some validators
                          | Some (nextProposerIdx, _) \<Rightarrow>
                              (case SelectRandomCommittee env validators committeeSize
                                      (committee_seed env prevHash view) proposerIdx nextProposerIdx of
                                 None \<Rightarrow> Some validators
                               | Some committee \<Rightarrow> Some committee))))"

definition wc_SubList :: "valEnv \<Rightarrow> weightedCouncil \<Rightarrow> hash \<Rightarrow> View \<Rightarrow> Validator list option" where
  "wc_SubList env c prevHash view =
     (case wc_proposer c of
        None \<Rightarrow> None
      | Some p \<Rightarrow> wc_SubListWithProposer env c prevHash (val_Address p) view)"

definition wc_CheckInSubList :: "valEnv \<Rightarrow> weightedCouncil \<Rightarrow> hash \<Rightarrow> View \<Rightarrow> address \<Rightarrow> bool option" where
  "wc_CheckInSubList env c prevHash view addr =
     map_option (\<lambda>l. \<exists>v \<in> set l. val_Address v = addr) (wc_SubList env c prevHash view)"

definition wc_AddValidator :: "valEnv \<Rightarrow> address \<Rightarrow> weightedCouncil \<Rightarrow> weightedCouncil \<times> bool" where
  "wc_AddValidator env addr c =
     (if \<exists>v \<in> set (wc_validators c) \<union> set (wc_demoted c). val_Address v = addr then (c, False)
      else (c\<lparr> wc_validators :=
                 sort_validators env (wc_validators c @ [newWeightedValidator addr 0 1000 0]) \<rparr>, True))"

definition removeValidatorFromProposers :: "address \<Rightarrow> weightedCouncil \<Rightarrow> weightedCouncil" where
  "removeValidatorFromProposers addr c =
     c\<lparr> wc_proposers := filter (\<lambda>v. val_Address v \<noteq> addr) (wc_proposers c) \<rparr>"

definition wc_RemoveValidator :: "address \<Rightarrow> weightedCouncil \<Rightarrow> weightedCouncil \<times> bool" where
  "wc_RemoveValidator addr c =
     (case remove_first addr (wc_validators c) of
        Some vs \<Rightarrow> (removeValidatorFromProposers addr (c\<lparr> wc_validators := vs \<rparr>), True)
      | None \<Rightarrow>
          (case remove_first addr (wc_demoted c) of
             Some vs \<Rightarrow> (c\<lparr> wc_demoted := vs \<rparr>, True)
           | None \<Rightarrow> (c, False)))"

definition wc_ReplaceValidators :: "Validator list \<Rightarrow> weightedCouncil \<Rightarrow> weightedCouncil" where
  "wc_ReplaceValidators vs c = c\<lparr> wc_validators := vs \<rparr>"

text \<open>\<open>Copy\<close> allocates the mix hash: a nil slice becomes an empty one.\<close>

definition wc_Copy :: "weightedCouncil \<Rightarrow> weightedCouncil" where
  "wc_Copy c = c\<lparr> wc_mixHash := Some (case wc_mixHash c of None \<Rightarrow> [] | Some m \<Rightarrow> m) \<rparr>"

section \<open>Refreshing the council\<close>

text \<open>The type assertion fails on a validator that is not weighted. The council lists of the staking
  information have the same length (\<open>wf_staking\<close>), so the indexing below stays in range.\<close>

fun with_reward :: "StakingInfo \<Rightarrow> weightedValidator \<Rightarrow> weightedValidator \<times> int" where
  "with_reward si w =
     (case index_of (CouncilNodeAddrs si) (wv_address w) of
        None \<Rightarrow> (w, 0)
      | Some cIdx \<Rightarrow>
          let valRewardAddr = CouncilRewardAddrs si ! cIdx
          in (w\<lparr> wv_rewardAddress := valRewardAddr \<rparr>,
              sum_list (map (\<lambda>(r, a). if r = valRewardAddr then uint a else 0)
                          (zip (CouncilRewardAddrs si) (CouncilStakingAmounts si)))))"

fun getStakingAmountsOfValidators ::
    "Validator list \<Rightarrow> StakingInfo \<Rightarrow> (weightedValidator \<times> int) list option" where
  "getStakingAmountsOfValidators [] si = Some []"
| "getStakingAmountsOfValidators (DefaultVal _ # vs) si = None"
| "getStakingAmountsOfValidators (WeightedVal w # vs) si =
     map_option (\<lambda>ps. with_reward si w # ps) (getStakingAmountsOfValidators vs si)"

text \<open>The loop of \<open>filterValidators\<close>: the governing node (in single mode, the last one that
  matches), those with enough stake, and the others.\<close>

fun filter_loop ::
    "bool \<Rightarrow> address \<Rightarrow> u64 \<Rightarrow> (weightedValidator \<times> int) list \<Rightarrow>
     (weightedValidator \<times> int) option \<times> (weightedValidator \<times> int) list \<times> (weightedValidator \<times> int) list \<Rightarrow>
     (weightedValidator \<times> int) option \<times> (weightedValidator \<times> int) list \<times> (weightedValidator \<times> int) list" where
  "filter_loop single gov minStaking [] acc = acc"
| "filter_loop single gov minStaking ((w, amount) # rest) (govNode, enough, poor) =
     filter_loop single gov minStaking rest
       (if single \<and> gov = wv_address w then (Some (w, amount), enough, poor)
        else if amount \<ge> uint minStaking then (govNode, enough @ [(w, amount)], poor)
        else (govNode, enough, poor @ [(w, amount)]))"

text \<open>\<open>None\<close>: in single mode a governing node that is not a candidate is a nil pointer, which the
  following sort dereferences.\<close>

definition filterValidators ::
    "bool \<Rightarrow> address \<Rightarrow> (weightedValidator \<times> int) list \<Rightarrow> u64 \<Rightarrow>
     ((weightedValidator \<times> int) list \<times> (weightedValidator \<times> int) list) option" where
  "filterValidators single gov candidates minStaking =
     (let (govNode, enough, poor) = filter_loop single gov minStaking candidates (None, [], []);
          govStaking = (case govNode of None \<Rightarrow> 0 | Some (_, a) \<Rightarrow> a);
          allIn = enough = [] \<and> (\<not> single \<or> govStaking < uint minStaking);
          vals = (if allIn then poor else enough);
          demoted = (if allIn then [] else poor)
      in if single
         then (case govNode of None \<Rightarrow> None | Some g \<Rightarrow> Some (vals @ [g], demoted))
         else Some (vals, demoted))"

datatype valSetError = ErrNoValidator | ErrNoStakingInfo | ErrNotWeightedValidator | ValSetPanic

text \<open>\<open>calc_weights\<close> stands for the floating-point weights before Kore. The staking information is
  already replaced when a later step fails.\<close>

definition wc_RefreshValSet ::
    "valEnv \<Rightarrow> (StakingInfo \<Rightarrow> (weightedValidator \<times> int) list \<Rightarrow> u64 list) \<Rightarrow>
     u64 \<Rightarrow> Rules \<Rightarrow> bool \<Rightarrow> address \<Rightarrow> u64 \<Rightarrow> weightedCouncil \<Rightarrow> weightedCouncil \<times> (valSetError + unit)" where
  "wc_RefreshValSet env calc_weights blockNum rules single gov minStaking c =
     (if wc_validators c = [] then (c, Inl ErrNoValidator)
      else case (if IsKaia rules then Some blockNum
                 else map_option (\<lambda>n. n + 1) (CalcProposerBlockNumber (proposer_interval env) blockNum)) of
        None \<Rightarrow> (c, Inl ValSetPanic)
      | Some stakingBlockNum \<Rightarrow>
          (case staking_at env stakingBlockNum of
             None \<Rightarrow> (c, Inl ErrNoStakingInfo)
           | Some si \<Rightarrow>
               let c1 = c\<lparr> wc_stakingInfo := Some si \<rparr>
               in (case getStakingAmountsOfValidators (wc_validators c1 @ wc_demoted c1) si of
                     None \<Rightarrow> (c1, Inl ErrNotWeightedValidator)
                   | Some candidates \<Rightarrow>
                       let reweigh = (\<lambda>vs. if IsKore rules then map (\<lambda>(w, _). w\<lparr> wv_weight := 0 \<rparr>) vs
                              else map2 (\<lambda>(w, _) x. w\<lparr> wv_weight := x \<rparr>) vs (calc_weights si vs))
                       in if IsIstanbul rules
                          then (case filterValidators single gov candidates minStaking of
                                  None \<Rightarrow> (c1, Inl ValSetPanic)
                                | Some (vals, demoted) \<Rightarrow>
                                    (c1\<lparr> wc_validators := sort_validators env (map WeightedVal (reweigh vals)),
                                         wc_demoted := sort_validators env (map (WeightedVal \<circ> fst) demoted) \<rparr>,
                                     Inr ()))
                          else
                            let ws = map WeightedVal (reweigh candidates);
                                n = length (wc_validators c1)
                            in (c1\<lparr> wc_validators := take n ws, wc_demoted := drop n ws \<rparr>, Inr ()))))"

definition refreshProposers :: "valEnv \<Rightarrow> int \<Rightarrow> u64 \<Rightarrow> weightedCouncil \<Rightarrow> weightedCouncil" where
  "refreshProposers env seed blockNum c =
     (let vs = wc_validators c;
          weighted = concat (map (\<lambda>i. replicate (unat (val_Weight (vs ! i))) i) [0..<length vs]);
          idxs = (if weighted = [] then [0..<length vs] else weighted);
          shuffled = swap_loop (\<lambda>k. randn env seed k (length idxs)) 0 (length idxs) idxs
      in c\<lparr> wc_proposers := map (\<lambda>i. vs ! i) shuffled, wc_proposersBlockNum := blockNum \<rparr>)"

definition wc_RefreshProposers :: "valEnv \<Rightarrow> hash \<Rightarrow> u64 \<Rightarrow> weightedCouncil \<Rightarrow> weightedCouncil \<times> (valSetError + unit)" where
  "wc_RefreshProposers env h blockNum c =
     (if wc_validators c = [] then (c, Inl ErrNoValidator)
      else if wc_proposersBlockNum c = blockNum then (c, Inr ())
      else (refreshProposers env (ConvertHashToSeed h) blockNum c, Inr ()))"

section \<open>The interface\<close>

datatype ValidatorSet = DefSet defaultSet | WeightedSet weightedCouncil

fun vs_List :: "ValidatorSet \<Rightarrow> Validator list" where
  "vs_List (DefSet s) = ds_validators s"
| "vs_List (WeightedSet c) = wc_validators c"

definition vs_Size :: "ValidatorSet \<Rightarrow> nat" where
  "vs_Size v = length (vs_List v)"

fun vs_SubGroupSize :: "ValidatorSet \<Rightarrow> u64" where
  "vs_SubGroupSize (DefSet s) = ds_subSize s"
| "vs_SubGroupSize (WeightedSet c) = wc_subSize c"

definition vs_GetByAddress :: "ValidatorSet \<Rightarrow> address \<Rightarrow> Validator option" where
  "vs_GetByAddress v a = map_option snd (getByAddress (vs_List v) a)"

fun vs_IsSubSet :: "ValidatorSet \<Rightarrow> bool" where
  "vs_IsSubSet (DefSet s) = ds_IsSubSet s"
| "vs_IsSubSet (WeightedSet c) = wc_IsSubSet c"

fun vs_F :: "ValidatorSet \<Rightarrow> int" where
  "vs_F (DefSet s) = ds_F s"
| "vs_F (WeightedSet c) = wc_F c"

fun vs_IsProposer :: "ValidatorSet \<Rightarrow> address \<Rightarrow> bool option" where
  "vs_IsProposer (DefSet s) a = Some (ds_IsProposer s a)"
| "vs_IsProposer (WeightedSet c) a = wc_IsProposer c a"

fun vs_CalcProposer :: "valEnv \<Rightarrow> address \<Rightarrow> u64 \<Rightarrow> ValidatorSet \<Rightarrow> ValidatorSet option" where
  "vs_CalcProposer env lastProposer rnd (DefSet s) = Some (DefSet (ds_CalcProposer lastProposer rnd s))"
| "vs_CalcProposer env lastProposer rnd (WeightedSet c) =
     map_option WeightedSet (wc_CalcProposer env lastProposer rnd c)"

fun vs_SubList :: "valEnv \<Rightarrow> ValidatorSet \<Rightarrow> hash \<Rightarrow> View \<Rightarrow> Validator list option" where
  "vs_SubList env (DefSet s) prevHash view = Some (ds_SubList env s prevHash view)"
| "vs_SubList env (WeightedSet c) prevHash view = wc_SubList env c prevHash view"

fun vs_CheckInSubList :: "valEnv \<Rightarrow> ValidatorSet \<Rightarrow> hash \<Rightarrow> View \<Rightarrow> address \<Rightarrow> bool option" where
  "vs_CheckInSubList env (DefSet s) prevHash view a = Some (ds_CheckInSubList env s prevHash view a)"
| "vs_CheckInSubList env (WeightedSet c) prevHash view a = wc_CheckInSubList env c prevHash view a"

fun vs_Copy :: "valEnv \<Rightarrow> ValidatorSet \<Rightarrow> ValidatorSet" where
  "vs_Copy env (DefSet s) = DefSet (ds_Copy env s)"
| "vs_Copy env (WeightedSet c) = WeightedSet (wc_Copy c)"

text \<open>The size of the group that votes, and the quorum over it. The code's \<open>float64\<close> quotient is
  exact enough for its ceiling up to 2^50 validators.\<close>

definition voting_size :: "ValidatorSet \<Rightarrow> nat" where
  "voting_size v = (if vs_IsSubSet v then unat (vs_SubGroupSize v) else vs_Size v)"

definition quorum_of :: "nat \<Rightarrow> nat" where
  "quorum_of n = (if n < 4 then n else (2 * n + 2) div 3)"

definition RequiredMessageCount :: "ValidatorSet \<Rightarrow> nat" where
  "RequiredMessageCount v = quorum_of (voting_size v)"

section \<open>Quorums\<close>

text \<open>The contract of a Byzantine quorum system over groups of every size: two quorums overlap in more
  members than may be faulty, and the correct members alone form a quorum.\<close>

locale byzantine_quorum =
  fixes quorum :: "nat \<Rightarrow> nat" and faults :: "nat \<Rightarrow> nat"
  assumes overlap: "0 < n \<Longrightarrow> n + faults n < 2 * quorum n"
    and reachable: "0 < n \<Longrightarrow> quorum n + faults n \<le> n"
begin

lemma quorums_share_correct:
  assumes "finite C" "0 < n" "card C \<le> n" "Q \<subseteq> C" "R \<subseteq> C" "quorum n \<le> card Q" "quorum n \<le> card R"
    and "finite B" "card B \<le> faults n"
  shows "\<exists>x. x \<in> Q \<and> x \<in> R \<and> x \<notin> B"
proof (rule ccontr)
  assume "\<not> ?thesis"
  then have sub: "Q \<inter> R \<subseteq> B" by blast
  have fin: "finite Q" "finite R" using assms(1,4,5) finite_subset by auto
  have "card (Q \<inter> R) \<le> faults n" using card_mono [OF assms(8) sub] assms(9) by linarith
  moreover have "card (Q \<union> R) \<le> n"
    using card_mono [OF assms(1), of "Q \<union> R"] assms(3-5) by simp
  moreover have "card Q + card R = card (Q \<union> R) + card (Q \<inter> R)"
    using fin by (rule card_Un_Int)
  ultimately show False using overlap [OF assms(2)] assms(6,7) by linarith
qed

lemma correct_form_quorum:
  assumes "finite C" "card C = n" "0 < n" "B \<subseteq> C" "card B \<le> faults n"
  shows "quorum n \<le> card (C - B)"
  using assms reachable [OF assms(3)] finite_subset [OF assms(4,1)] by (simp add: card_Diff_subset)

end

definition faults_of :: "nat \<Rightarrow> nat" where
  "faults_of n = nat (ceil_div3 n - 1)"

interpretation istanbul_quorum: byzantine_quorum quorum_of faults_of
proof
  fix n :: nat
  assume "0 < n"
  have "nat (int ((n + 2) div 3) - 1) = (n + 2) div 3 - 1" by linarith
  moreover have "n + ((n + 2) div 3 - 1) < 2 * (if n < 4 then n else (2 * n + 2) div 3)"
    using \<open>0 < n\<close> by auto
  moreover have "(if n < 4 then n else (2 * n + 2) div 3) + ((n + 2) div 3 - 1) \<le> n"
    using \<open>0 < n\<close> by auto
  ultimately show "n + faults_of n < 2 * quorum_of n" "quorum_of n + faults_of n \<le> n"
    by (simp_all only: faults_of_def quorum_of_def ceil_div3_def)
qed

lemma vs_F_ceil: "vs_F v = ceil_div3 (voting_size v) - 1"
  by (cases v) (simp_all add: ds_F_def wc_F_def voting_size_def vs_Size_def ds_IsSubSet_def wc_IsSubSet_def)

lemma vs_F_faults: "0 < voting_size v \<Longrightarrow> nat (vs_F v) = faults_of (voting_size v) \<and> 0 \<le> vs_F v"
  by (auto simp: vs_F_ceil faults_of_def ceil_div3_def)

text \<open>C10: quorums of \<open>RequiredMessageCount\<close> messages from a group of at most the voting size always
  share a member outside any set of at most \<open>F\<close> faulty ones, for every size of the group, and
  the members outside such a set are enough for a quorum.\<close>

theorem RequiredMessageCount_quorum:
  assumes "0 < voting_size v" "finite C" "card C = voting_size v" "B \<subseteq> C" "int (card B) \<le> vs_F v"
  shows "RequiredMessageCount v \<le> card (C - B) \<and>
    (\<forall>Q R. Q \<subseteq> C \<longrightarrow> R \<subseteq> C \<longrightarrow> RequiredMessageCount v \<le> card Q \<longrightarrow> RequiredMessageCount v \<le> card R \<longrightarrow>
       (\<exists>x. x \<in> Q \<and> x \<in> R \<and> x \<notin> B))"
proof -
  have B: "card B \<le> faults_of (voting_size v)"
    using vs_F_faults [OF assms(1)] assms(5) by linarith
  show ?thesis
    unfolding RequiredMessageCount_def
    using istanbul_quorum.correct_form_quorum [OF assms(2,3,1,4) B]
      istanbul_quorum.quorums_share_correct [OF assms(2,1) _ _ _ _ _ finite_subset [OF assms(4,2)] B]
      assms(3)
    by auto
qed

section \<open>Shuffles and committees\<close>

definition rand_ok :: "valEnv \<Rightarrow> bool" where
  "rand_ok env \<longleftrightarrow> (\<forall>seed k n. 0 < n \<longrightarrow> randn env seed k n < n)"

lemma mset_swap_loop:
  assumes "\<forall>k. draw k < length xs" "i + n \<le> length xs"
  shows "mset (swap_loop draw i n xs) = mset xs"
  using assms by (induction n arbitrary: i xs) auto

lemma mset_shuffle_loop:
  assumes "\<forall>k m. 0 < m \<longrightarrow> draw k m < m" "i < length xs"
  shows "mset (shuffle_loop draw k i xs) = mset xs"
  using assms
proof (induction i arbitrary: k xs)
  case (Suc i)
  have "draw k (Suc (Suc i)) < length xs" using Suc.prems by (meson Suc_leI less_le_trans zero_less_Suc)
  with Suc show ?case by simp
qed simp

lemma shuffleValidators_mset:
  assumes "rand_ok env"
  shows "mset (shuffleValidators env vs seed) = mset vs"
proof (cases vs)
  case Nil
  then show ?thesis by (simp add: shuffleValidators_def)
next
  case (Cons v ws)
  then show ?thesis
    unfolding shuffleValidators_def
    by (intro mset_shuffle_loop) (use assms in \<open>auto simp: rand_ok_def\<close>)
qed

lemma two_indices_filtered:
  assumes "p < n" "q < n" "p \<noteq> q"
  shows "length (filter (\<lambda>i. i \<noteq> p \<and> i \<noteq> q) [0..<n]) = n - 2"
proof -
  have "length (filter (\<lambda>i. i \<noteq> p \<and> i \<noteq> q) [0..<n]) = card ({0..<n} - {p, q})"
    by (subst distinct_card [symmetric]) (auto intro: arg_cong [where f = card])
  also have "\<dots> = n - 2" using assms by (subst card_Diff_subset) auto
  finally show ?thesis .
qed

lemma SelectRandomCommittee_eq:
  assumes "rand_ok env" "p < length vs" "q < length vs" "p \<noteq> q" "2 \<le> unat k" "unat k \<le> length vs"
  shows "\<exists>idxs. SelectRandomCommittee env vs k seed p q = Some (map (\<lambda>i. vs ! i) (p # q # idxs)) \<and>
    length idxs = unat k - 2 \<and> distinct (p # q # idxs) \<and> set idxs \<subseteq> {..<length vs}"
proof -
  let ?ix = "filter (\<lambda>i. i \<noteq> p \<and> i \<noteq> q) [0..<length vs]"
  let ?n = "length vs - 2"
  let ?sh = "swap_loop (\<lambda>j. randn env seed j ?n) 0 ?n ?ix"
  have len: "length ?ix = ?n" by (rule two_indices_filtered [OF assms(2-4)])
  have perm: "mset ?sh = mset ?ix"
  proof (cases "?n = 0")
    case False
    then show ?thesis using assms(1) len by (intro mset_swap_loop) (auto simp: rand_ok_def)
  qed simp
  have "k \<noteq> 0" "k \<noteq> 1" using assms(5) by auto
  then have "SelectRandomCommittee env vs k seed p q =
      Some (map (\<lambda>i. vs ! i) (p # q # take (unat k - 2) ?sh))"
    using assms by (simp add: SelectRandomCommittee_def Let_def)
  moreover have "distinct ?sh" "set ?sh = set ?ix" "length ?sh = ?n"
    using perm len mset_eq_imp_distinct_iff [OF perm] mset_eq_setD [OF perm] mset_eq_length [OF perm]
    by auto
  moreover have "distinct (p # q # take (unat k - 2) ?sh)"
    using calculation assms(4) by (auto dest: in_set_takeD)
  moreover have "set (take (unat k - 2) ?sh) \<subseteq> {..<length vs}"
    using calculation(3) by (auto dest: in_set_takeD)
  ultimately show ?thesis using assms(6) by (intro exI [of _ "take (unat k - 2) ?sh"]) auto
qed

text \<open>C19: for any draws of the random source, a committee selected from distinct validators has
  exactly the requested size, has no member twice, consists of validators only, and starts with
  the proposer and the next proposer.\<close>

theorem SelectRandomCommittee_valid:
  assumes "rand_ok env" "distinct vs" "p < length vs" "q < length vs" "p \<noteq> q"
    and "2 \<le> unat k" "unat k \<le> length vs"
  shows "\<exists>committee. SelectRandomCommittee env vs k seed p q = Some committee \<and>
    length committee = unat k \<and> distinct committee \<and> set committee \<subseteq> set vs \<and>
    take 2 committee = [vs ! p, vs ! q]"
proof -
  from SelectRandomCommittee_eq [OF assms(1,3-7)] obtain idxs where
    eq: "SelectRandomCommittee env vs k seed p q = Some (map (\<lambda>i. vs ! i) (p # q # idxs))"
    and ix: "length idxs = unat k - 2" "distinct (p # q # idxs)" "set idxs \<subseteq> {..<length vs}"
    by blast
  have "inj_on (\<lambda>i. vs ! i) (set (p # q # idxs))"
    using assms(2-4) ix(3) by (intro inj_on_nth) auto
  then have "distinct (map (\<lambda>i. vs ! i) (p # q # idxs))"
    using ix(2) by (simp only: distinct_map)
  moreover have "set (map (\<lambda>i. vs ! i) (p # q # idxs)) \<subseteq> set vs"
    using assms(3,4) ix(3) by auto
  ultimately show ?thesis
    using eq ix(1) assms(6) by (intro exI [of _ "map (\<lambda>i. vs ! i) (p # q # idxs)"]) auto
qed

text \<open>The members of a committee are validators, whatever the way it was composed.\<close>

lemma getByAddress_Some:
  "getByAddress vs a = Some (i, v) \<Longrightarrow> i < length vs \<and> vs ! i = v \<and> val_Address v = a"
  by (induction vs arbitrary: i) (auto split: if_splits)

lemma getByAddress_None: "getByAddress vs a = None \<longleftrightarrow> a \<notin> val_Address ` set vs"
  by (induction vs) auto

lemma SelectRandomCommittee_subset:
  assumes "rand_ok env" "SelectRandomCommittee env vs k seed p q = Some committee"
  shows "set committee \<subseteq> set vs \<and> length committee = unat k"
proof (cases "k = 1")
  case True
  then show ?thesis using assms(2) by (auto simp: SelectRandomCommittee_def split: if_splits)
next
  case False
  have g: "p \<noteq> q" "p < length vs" "q < length vs" "unat k \<le> length vs" "k \<noteq> 0"
    using assms(2) by (auto simp: SelectRandomCommittee_def Let_def split: if_splits)
  have "unat k \<noteq> unat (0 :: u64)" "unat k \<noteq> unat (1 :: u64)"
    using g(5) False by (simp_all only: word_unat_eq_iff [symmetric] not_False_eq_True)
  then have two: "2 \<le> unat k" by simp
  from SelectRandomCommittee_eq [OF assms(1) g(2,3,1) two g(4), of seed] assms(2) obtain idxs where
    "committee = map (\<lambda>i. vs ! i) (p # q # idxs)" "length idxs = unat k - 2" "set idxs \<subseteq> {..<length vs}"
    by auto
  then show ?thesis using g(2,3) two by auto
qed

lemma SelectRandaoCommittee_subset:
  assumes "rand_ok env" "SelectRandaoCommittee env vs k mixHash = Some committee"
  shows "set committee \<subseteq> set vs"
proof -
  have "set (shuffleValidators env vs seed) = set vs" for seed
    using mset_eq_setD [OF shuffleValidators_mset [OF assms(1)]] .
  then show ?thesis
    using assms(2) by (auto simp: SelectRandaoCommittee_def Let_def split: if_splits dest: in_set_takeD)
qed

lemma ds_SubListWithProposer_subset:
  assumes "rand_ok env"
  shows "set (ds_SubListWithProposer env s h a view) \<subseteq> set (ds_validators s)"
  using SelectRandomCommittee_subset [OF assms] getByAddress_Some
  by (auto simp: ds_SubListWithProposer_def Let_def split: option.splits if_splits) fastforce+

lemma wc_SubListWithProposer_subset:
  assumes "rand_ok env" "wc_SubListWithProposer env c h a view = Some l"
  shows "set l \<subseteq> set (wc_validators c)"
  using assms(2) SelectRandomCommittee_subset [OF assms(1)] SelectRandaoCommittee_subset [OF assms(1)]
    getByAddress_Some
  by (auto simp: wc_SubListWithProposer_def Let_def split: option.splits if_splits) fastforce+

lemma vs_SubList_subset:
  assumes "rand_ok env" "vs_SubList env v h view = Some l"
  shows "set l \<subseteq> set (vs_List v)"
  using assms(2) ds_SubListWithProposer_subset [OF assms(1)] wc_SubListWithProposer_subset [OF assms(1)]
  by (cases v) (auto simp: ds_SubList_def wc_SubList_def subset_iff split: option.splits)

lemma vs_CheckInSubList_iff:
  "vs_CheckInSubList env v h view a = Some b \<longleftrightarrow>
     (\<exists>l. vs_SubList env v h view = Some l \<and> b = (a \<in> val_Address ` set l))"
  by (cases v) (auto simp: ds_CheckInSubList_def wc_CheckInSubList_def image_iff)

lemma whole_council:
  assumes "\<not> vs_IsSubSet v" "vs_SubList env v h view = Some l"
  shows "l = vs_List v"
  using assms
  by (cases v) (auto simp: ds_SubList_def wc_SubList_def ds_SubListWithProposer_def wc_SubListWithProposer_def
      ds_IsSubSet_def wc_IsSubSet_def Let_def split: option.splits)

section \<open>Proposers\<close>

lemma mod_add_inj:
  fixes n :: nat
  assumes "(s + a) mod n = (s + b) mod n" "a < n" "b < n"
  shows "a = b"
proof -
  have "x = y" if "(s + x) mod n = (s + y) mod n" "x < n" "y \<le> x" for x y
  proof -
    have "n dvd (s + x) - (s + y)" using that by (subst mod_eq_dvd_iff_nat [symmetric]) auto
    then show ?thesis using that by (auto dest: dvd_imp_le)
  qed
  from this [of a b] this [of b a] assms show ?thesis by (cases "b \<le> a") auto
qed

lemma mod_window:
  fixes n :: nat
  assumes "j < n"
  shows "\<exists>!r. r < n \<and> (s + r) mod n = j"
proof
  let ?r = "(j + n - s mod n) mod n"
  have n: "0 < n" using assms by simp
  have "(s + ?r) mod n = (s mod n + (j + n - s mod n)) mod n"
    by (simp add: mod_add_left_eq mod_add_right_eq)
  also have "s mod n + (j + n - s mod n) = j + n"
    using mod_less_divisor [OF n, of s] by linarith
  finally have eq: "(s + ?r) mod n = j" using assms by simp
  then show "?r < n \<and> (s + ?r) mod n = j" using n by simp
  fix r assume r: "r < n \<and> (s + r) mod n = j"
  then show "r = ?r" using mod_add_inj [of s r n ?r] eq n by simp
qed

text \<open>C18: round robin is fair: from any last proposer, every validator is the proposer of exactly one of
  as many consecutive rounds as there are validators, so a correct validator proposes after a
  bounded number of round changes.\<close>

theorem roundRobinProposer_fair:
  assumes "distinct vs" "v \<in> set vs" "\<not> EmptyAddress prev"
    and "unat start + 2 * length vs + 1 < 2 ^ 64"
  shows "\<exists>!r. r < length vs \<and> roundRobinProposer vs prev (start + of_nat r) = Some v"
proof -
  define off where "off = (case getByAddress vs prev of None \<Rightarrow> 0 | Some (i, _) \<Rightarrow> i)"
  have "vs \<noteq> []" using assms(2) by auto
  then have n: "0 < length vs" by simp
  have off: "off < length vs"
    using getByAddress_Some n by (auto simp: off_def split: option.splits)
  obtain j where j: "j < length vs" "vs ! j = v" using assms(2) by (auto simp: in_set_conv_nth)
  have pick: "roundRobinProposer vs prev (start + of_nat r) = Some (vs ! ((off + unat start + 1 + r) mod length vs))"
    if "r < length vs" for r
  proof -
    have "unat (of_nat off + (start + of_nat r) + 1 :: u64) = off + unat start + 1 + r"
      using assms(4) off that by (simp add: unat_word_ariths unat_of_nat)
    then show ?thesis
      using assms(3) \<open>vs \<noteq> []\<close> by (simp add: roundRobinProposer_def pick_validator_def calcSeed_def off_def)
  qed
  have eq: "roundRobinProposer vs prev (start + of_nat r) = Some v \<longleftrightarrow> (off + unat start + 1 + r) mod length vs = j"
    if "r < length vs" for r
    using pick [OF that] j assms(1) n by (auto simp: nth_eq_iff_index_eq)
  from mod_window [OF j(1), of "off + unat start + 1"] show ?thesis
    by (metis (no_types, lifting) eq)
qed

lemma getByAddress_distinct:
  assumes "distinct (map val_Address vs)" "v \<in> set vs"
  shows "\<exists>i. getByAddress vs (val_Address v) = Some (i, v) \<and> i < length vs \<and> vs ! i = v"
proof -
  obtain i w where g: "getByAddress vs (val_Address v) = Some (i, w)"
    using getByAddress_None [of vs "val_Address v"] assms(2) by (cases "getByAddress vs (val_Address v)") auto
  note s = getByAddress_Some [OF g]
  then have "w = v" using assms by (metis distinct_map inj_onD nth_mem)
  with g s show ?thesis by auto
qed

text \<open>C39: under the sticky policy the next proposer of round 0 is the proposer itself, no committee is
  selected, and the whole council votes although the quorum is computed from the committee size.\<close>

theorem sticky_committee_is_council:
  assumes "ds_policy s = Sticky" "ds_proposer s = Some p" "p \<in> set (ds_validators s)"
    and "distinct (map val_Address (ds_validators s))" "\<not> EmptyAddress (val_Address p)"
    and "ds_IsSubSet s" "2 \<le> unat (ds_subSize s)" "length (ds_validators s) < 2 ^ 64"
    and "view_Round view = 0"
  shows "ds_SubList env s prevHash view = ds_validators s \<and>
    RequiredMessageCount (DefSet s) = quorum_of (unat (ds_subSize s))"
proof -
  obtain i where i: "getByAddress (ds_validators s) (val_Address p) = Some (i, p)" "i < length (ds_validators s)"
    "ds_validators s ! i = p"
    using getByAddress_distinct [OF assms(4,3)] by blast
  have "unat (of_nat i :: u64) = i" using i(2) assms(8) by (simp add: unat_of_nat)
  then have "ds_selector s (val_Address p) 0 = Some p"
    using i assms(1,5) by (auto simp: ds_selector_def stickyProposer_def pick_validator_def calcSeed_def)
  moreover have "ds_subSize s \<noteq> 1" using assms(7) by auto
  ultimately have "ds_SubList env s prevHash view = ds_validators s"
    using i assms(2,9) by (simp add: ds_SubList_def ds_SubListWithProposer_def Let_def big_Uint64_def
        SelectRandomCommittee_def)
  moreover have "RequiredMessageCount (DefSet s) = quorum_of (unat (ds_subSize s))"
    using assms(6) by (simp add: RequiredMessageCount_def voting_size_def)
  ultimately show ?thesis by blast
qed

text \<open>A council without a mix hash falls back to round robin after Randao, but its copy panics.\<close>

lemma wc_Copy_panics:
  assumes "wc_mixHash c = None" "wc_validators c \<noteq> []" "2 \<le> wc_subSize c"
    and "IsRandao (fork_rules env (uint (wc_blockNum c + 1)))"
  shows "wc_CalcProposer env prev rnd c \<noteq> None \<and> wc_CalcProposer env prev rnd (wc_Copy c) = None"
  using assms
  by (simp add: wc_CalcProposer_def weightedRandomProposer_def wc_Copy_def SelectRandaoCommittee_def not_less)

section \<open>Filtering by stake\<close>

lemma filter_loop_eq:
  "filter_loop single gov m cs (g, e, l) =
     ((case filter (\<lambda>(w, _). single \<and> gov = wv_address w) cs of [] \<Rightarrow> g | xs \<Rightarrow> Some (last xs)),
      e @ filter (\<lambda>(w, a). \<not> (single \<and> gov = wv_address w) \<and> a \<ge> uint m) cs,
      l @ filter (\<lambda>(w, a). \<not> (single \<and> gov = wv_address w) \<and> a < uint m) cs)"
proof (induction cs arbitrary: g e l)
  case (Cons c cs)
  show ?case
    using Cons.IH [of "Some c" e l] Cons.IH [of g "e @ [c]" l] Cons.IH [of g e "l @ [c]"]
    by (cases c; cases "single \<and> gov = wv_address (fst c)") (auto split: list.splits)
qed simp

lemma filter_address:
  assumes "distinct (map (\<lambda>c. wv_address (fst c)) cs)"
  shows "filter (\<lambda>(w, _). gov = wv_address w) cs = [] \<or>
    (\<exists>c. filter (\<lambda>(w, _). gov = wv_address w) cs = [c] \<and> c \<in> set cs)"
  using assms
proof (induction cs)
  case (Cons c cs)
  have "filter (\<lambda>(w, _). gov = wv_address w) cs = []" if "gov = wv_address (fst c)"
    using Cons.prems that by (auto simp: filter_empty_conv image_iff)
  with Cons show ?case by (cases c) auto
qed simp

lemma mset_three_way:
  "mset (filter P cs) + mset (filter (\<lambda>x. \<not> P x \<and> Q x) cs) + mset (filter (\<lambda>x. \<not> P x \<and> \<not> Q x) cs) = mset cs"
  by (induction cs) auto


section \<open>Concrete instances\<close>

definition four_validators :: "Validator list" where
  "four_validators = map DefaultVal [1, 2, 3, 4]"

definition four_set :: "u64 \<Rightarrow> u64 \<Rightarrow> defaultSet" where
  "four_set policy subSize =
     \<lparr> ds_subSize = subSize, ds_validators = four_validators, ds_policy = policy,
       ds_proposer = Some (DefaultVal 1) \<rparr>"

definition no_rules :: Rules where
  "no_rules = \<lparr> rules_ChainID = 0, IsIstanbul = False, IsLondon = False, IsEthTxType = False, IsMagma = False,
     IsKore = False, IsShanghai = False, IsCancun = False, IsKaia = False, IsRandao = False \<rparr>"

definition mod_env :: valEnv where
  "mod_env = \<lparr> addr_string = (\<lambda>a. replicate (unat a) CHR ''a''), randn = (\<lambda>_ k n. k mod n),
     fork_rules = (\<lambda>_. no_rules), proposer_interval = 3600, staking_at = (\<lambda>_. None) \<rparr>"

lemmas concrete_sets = four_validators_def four_set_def mod_env_def ds_IsSubSet_def voting_size_def vs_Size_def

lemma four_faults: "vs_F (DefSet (four_set 0 21)) = 1" "ds_F (four_set 0 21) = 1"
  by (simp_all add: four_set_def four_validators_def ds_F_def ceil_div3_def ds_IsSubSet_def)

theorem RequiredMessageCount_quorum_witness:
  "RequiredMessageCount (DefSet (four_set 0 21)) \<le> card ({0, 1, 2, 3} - {3 :: nat}) \<and>
   (\<exists>x :: nat. x \<in> {0, 1, 2} \<and> x \<in> {1, 2, 3} \<and> x \<notin> {3})"
proof -
  have q: "RequiredMessageCount (DefSet (four_set 0 21)) = 3"
    by (simp add: RequiredMessageCount_def quorum_of_def concrete_sets)
  have "0 < voting_size (DefSet (four_set 0 21))" "card {0, 1, 2, 3 :: nat} = voting_size (DefSet (four_set 0 21))"
    "int (card {3 :: nat}) \<le> vs_F (DefSet (four_set 0 21))"
    by (simp_all add: concrete_sets four_faults [unfolded four_set_def four_validators_def, simplified])
  note all = RequiredMessageCount_quorum [OF this(1) _ this(2) _ this(3)]
  have "RequiredMessageCount (DefSet (four_set 0 21)) \<le> card ({0, 1, 2, 3} - {3 :: nat})"
    using all by auto
  moreover have "\<exists>x :: nat. x \<in> {0, 1, 2} \<and> x \<in> {1, 2, 3} \<and> x \<notin> {3}"
    by (rule conjunct2 [OF all, rule_format]) (simp_all add: q)
  ultimately show ?thesis by blast
qed

theorem SelectRandomCommittee_valid_witness:
  "rand_ok mod_env \<and> (\<exists>committee. SelectRandomCommittee mod_env four_validators 3 7 0 2 = Some committee \<and>
     length committee = 3 \<and> distinct committee \<and> take 2 committee = [DefaultVal 1, DefaultVal 3])"
proof -
  have "rand_ok mod_env" by (simp add: rand_ok_def mod_env_def)
  moreover have "\<exists>committee. SelectRandomCommittee mod_env four_validators 3 7 0 2 = Some committee \<and>
    length committee = unat (3 :: u64) \<and> distinct committee \<and> set committee \<subseteq> set four_validators \<and>
    take 2 committee = [four_validators ! 0, four_validators ! 2]"
    by (rule SelectRandomCommittee_valid) (use calculation in \<open>simp_all add: four_validators_def\<close>)
  ultimately show ?thesis by (auto simp: four_validators_def)
qed

theorem roundRobinProposer_fair_witness:
  "\<exists>!r. r < length four_validators \<and> roundRobinProposer four_validators 2 (9 + of_nat r) = Some (DefaultVal 3)"
  by (rule roundRobinProposer_fair) (simp_all add: four_validators_def EmptyAddress_def)

theorem sticky_committee_is_council_witness:
  "ds_SubList mod_env (four_set Sticky 3) 9 \<lparr> view_Round = 0, view_Sequence = 5 \<rparr> = four_validators \<and>
   RequiredMessageCount (DefSet (four_set Sticky 3)) = 3"
  using sticky_committee_is_council [of "four_set Sticky 3" "DefaultVal 1" "\<lparr> view_Round = 0, view_Sequence = 5 \<rparr>"
      mod_env 9]
  by (simp add: four_set_def four_validators_def EmptyAddress_def ds_IsSubSet_def quorum_of_def)

definition staked :: "address \<Rightarrow> weightedValidator" where
  "staked a = \<lparr> wv_address = a, wv_rewardAddress = a, wv_votingPower = 1, wv_weight = 0 \<rparr>"


end
