(* ===== verification/Prque.thy ===== *)
theory Prque
  imports Klaytn_Prelude
begin

text \<open>
  The priority queue of \<open>common/prque\<close>: \<open>sstack.go\<close> (a stack of fixed-size blocks that implements
  \<open>heap.Interface\<close>) and \<open>prque.go\<close> (the queue), with the algorithms of Go's \<open>container/heap\<close> they call.
  The slice \<open>active\<close> of the stack aliases one of the blocks and is modelled by the index of that block; empty
  slots of a block are nil pointers. The locale \<open>heap_interface\<close> states what \<open>container/heap\<close> needs of its
  argument and proves the heap algorithms once; \<open>priority_queue\<close> is what the users of the queue rely on.
\<close>

section \<open>Code\<close>

definition blockSize :: nat where "blockSize = 4096"

record 'v item =
  item_value :: 'v
  item_priority :: u64

record 'v sstack =
  ss_size :: nat
  ss_capacity :: nat
  ss_offset :: nat
  ss_blocks :: "'v item option list list"
  ss_active :: nat

definition newSstack :: "'v sstack" where
  "newSstack = \<lparr> ss_size = 0, ss_capacity = blockSize, ss_offset = 0,
     ss_blocks = [replicate blockSize None], ss_active = 0 \<rparr>"

definition sstack_room :: "'v sstack \<Rightarrow> 'v sstack" where
  "sstack_room s =
     (if ss_size s = ss_capacity s
      then s\<lparr> ss_active := length (ss_blocks s), ss_blocks := ss_blocks s @ [replicate blockSize None],
              ss_capacity := ss_capacity s + blockSize, ss_offset := 0 \<rparr>
      else if ss_offset s = blockSize
      then s\<lparr> ss_active := ss_size s div blockSize, ss_offset := 0 \<rparr>
      else s)"

definition sstack_Push :: "'v sstack \<Rightarrow> 'v item \<Rightarrow> 'v sstack" where
  "sstack_Push s x =
     (let s1 = sstack_room s;
          block = ss_blocks s1 ! ss_active s1
      in s1\<lparr> ss_blocks := (ss_blocks s1)[ss_active s1 := block[ss_offset s1 := Some x]],
             ss_offset := ss_offset s1 + 1, ss_size := ss_size s1 + 1 \<rparr>)"

text \<open>\<open>None\<close>: popping an empty stack or a nil entry is a panic of the callers.\<close>

definition sstack_Pop :: "'v sstack \<Rightarrow> ('v item \<times> 'v sstack) option" where
  "sstack_Pop s =
     (if ss_size s = 0 then None
      else
        let size' = ss_size s - 1;
            s1 = (if ss_offset s = 0
                  then s\<lparr> ss_size := size', ss_offset := blockSize - 1, ss_active := size' div blockSize \<rparr>
                  else s\<lparr> ss_size := size', ss_offset := ss_offset s - 1 \<rparr>);
            block = ss_blocks s1 ! ss_active s1
        in case block ! ss_offset s1 of
             None \<Rightarrow> None
           | Some x \<Rightarrow> Some (x, s1\<lparr> ss_blocks := (ss_blocks s1)[ss_active s1 := block[ss_offset s1 := None]] \<rparr>))"

definition sstack_Len :: "'v sstack \<Rightarrow> nat" where
  "sstack_Len s = ss_size s"

definition item_at :: "'v sstack \<Rightarrow> nat \<Rightarrow> 'v item option" where
  "item_at s i = ss_blocks s ! (i div blockSize) ! (i mod blockSize)"

text \<open>The difference of the two priorities is a wrapping \<open>int64\<close>. Entries below the length are never nil.\<close>

definition item_before :: "'v item \<Rightarrow> 'v item \<Rightarrow> bool" where
  "item_before x y \<longleftrightarrow> 0 < sint (item_priority x - item_priority y)"

definition sstack_Less :: "'v sstack \<Rightarrow> nat \<Rightarrow> nat \<Rightarrow> bool" where
  "sstack_Less s i j =
     (case (item_at s i, item_at s j) of (Some x, Some y) \<Rightarrow> item_before x y | _ \<Rightarrow> False)"

definition put_at :: "nat \<Rightarrow> 'v item option \<Rightarrow> 'v item option list list \<Rightarrow> 'v item option list list" where
  "put_at i v bs = bs[i div blockSize := (bs ! (i div blockSize))[i mod blockSize := v]]"

definition sstack_Swap :: "'v sstack \<Rightarrow> nat \<Rightarrow> nat \<Rightarrow> 'v sstack" where
  "sstack_Swap s i j = s\<lparr> ss_blocks := put_at j (item_at s i) (put_at i (item_at s j) (ss_blocks s)) \<rparr>"

text \<open>\<open>up\<close> and \<open>down\<close> of \<open>container/heap\<close>, over the methods of the interface.\<close>

function heap_up :: "('h \<Rightarrow> nat \<Rightarrow> nat \<Rightarrow> bool) \<Rightarrow> ('h \<Rightarrow> nat \<Rightarrow> nat \<Rightarrow> 'h) \<Rightarrow> 'h \<Rightarrow> nat \<Rightarrow> 'h" where
  "heap_up lt swap h j =
     (let i = (j - 1) div 2
      in if i = j \<or> \<not> lt h j i then h else heap_up lt swap (swap h i j) i)"
  by pat_completeness auto
termination by (relation "measure (\<lambda>(_, _, _, j). j)") auto

function heap_down ::
    "('h \<Rightarrow> nat \<Rightarrow> nat \<Rightarrow> bool) \<Rightarrow> ('h \<Rightarrow> nat \<Rightarrow> nat \<Rightarrow> 'h) \<Rightarrow> 'h \<Rightarrow> nat \<Rightarrow> nat \<Rightarrow> 'h" where
  "heap_down lt swap h i n =
     (let j1 = 2 * i + 1
      in if j1 \<ge> n then h
         else let j = (if j1 + 1 < n \<and> lt h (j1 + 1) j1 then j1 + 1 else j1)
              in if \<not> lt h j i then h else heap_down lt swap (swap h i j) j n)"
  by pat_completeness auto
termination by (relation "measure (\<lambda>(_, _, _, i, n). n - i)") (auto split: if_splits)

declare heap_up.simps [simp del] heap_down.simps [simp del]

definition prque_New :: "'v sstack" where
  "prque_New = newSstack"

definition prque_Push :: "'v sstack \<Rightarrow> 'v \<Rightarrow> u64 \<Rightarrow> 'v sstack" where
  "prque_Push q v p =
     (let q1 = sstack_Push q \<lparr> item_value = v, item_priority = p \<rparr>
      in heap_up sstack_Less sstack_Swap q1 (sstack_Len q1 - 1))"

definition prque_Peek :: "'v sstack \<Rightarrow> ('v \<times> u64) option" where
  "prque_Peek q = map_option (\<lambda>x. (item_value x, item_priority x)) (item_at q 0)"

definition prque_Pop :: "'v sstack \<Rightarrow> (('v \<times> u64) \<times> 'v sstack) option" where
  "prque_Pop q =
     (if sstack_Len q = 0 then None
      else
        let n = sstack_Len q - 1;
            q1 = sstack_Swap q 0 n;
            q2 = heap_down sstack_Less sstack_Swap q1 0 n
        in map_option (\<lambda>(x, q3). ((item_value x, item_priority x), q3)) (sstack_Pop q2))"

definition prque_PopItem :: "'v sstack \<Rightarrow> ('v \<times> 'v sstack) option" where
  "prque_PopItem q = map_option (\<lambda>((v, _), q'). (v, q')) (prque_Pop q)"

definition prque_Empty :: "'v sstack \<Rightarrow> bool" where
  "prque_Empty q \<longleftrightarrow> sstack_Len q = 0"

definition prque_Size :: "'v sstack \<Rightarrow> nat" where
  "prque_Size q = sstack_Len q"

definition prque_Reset :: "'v sstack \<Rightarrow> 'v sstack" where
  "prque_Reset q = prque_New"

section \<open>The block stack is a list\<close>

definition blocks_ok :: "'v item option list list \<Rightarrow> bool" where
  "blocks_ok bs \<longleftrightarrow> (\<forall>b \<in> set bs. length b = blockSize)"

definition sstack_inv :: "'v sstack \<Rightarrow> bool" where
  "sstack_inv s \<longleftrightarrow> blocks_ok (ss_blocks s) \<and> ss_capacity s = length (ss_blocks s) * blockSize \<and>
     ss_size s = ss_active s * blockSize + ss_offset s \<and> ss_offset s \<le> blockSize \<and>
     ss_active s < length (ss_blocks s) \<and>
     (\<forall>k < ss_size s. concat (ss_blocks s) ! k \<noteq> None)"

definition sstack_list :: "'v sstack \<Rightarrow> 'v item list" where
  "sstack_list s = map the (take (ss_size s) (concat (ss_blocks s)))"

lemma blockSize_pos [simp]: "0 < blockSize" "blockSize \<noteq> 0"
  by (simp_all add: blockSize_def)

lemma length_concat_blocks: "blocks_ok bs \<Longrightarrow> length (concat bs) = length bs * blockSize"
  by (induction bs) (auto simp: blocks_ok_def)

lemma nth_concat_blocks:
  "blocks_ok bs \<Longrightarrow> k < length bs * blockSize \<Longrightarrow> concat bs ! k = bs ! (k div blockSize) ! (k mod blockSize)"
proof (induction bs arbitrary: k)
  case (Cons b bs)
  have b: "length b = blockSize" "blocks_ok bs" using Cons.prems(1) by (auto simp: blocks_ok_def)
  show ?case
  proof (cases "k < blockSize")
    case False
    then have "k div blockSize = Suc ((k - blockSize) div blockSize)" "k mod blockSize = (k - blockSize) mod blockSize"
      by (simp_all add: le_div_geq le_mod_geq)
    with False b Cons.IH [of "k - blockSize"] Cons.prems(2) show ?thesis by (simp add: nth_append)
  qed (simp add: b nth_append)
qed simp

lemma blocks_ok_put: "blocks_ok bs \<Longrightarrow> i < length bs * blockSize \<Longrightarrow> blocks_ok (put_at i v bs)"
  by (auto simp: blocks_ok_def put_at_def less_mult_imp_div_less dest!: set_update_subset_insert [THEN subsetD])

lemma length_put_at [simp]: "length (put_at i v bs) = length bs"
  by (simp add: put_at_def)

lemma concat_put_at:
  assumes "blocks_ok bs" "i < length bs * blockSize"
  shows "concat (put_at i v bs) = (concat bs)[i := v]"
proof (rule nth_equalityI)
  show "length (concat (put_at i v bs)) = length ((concat bs)[i := v])"
    using assms by (simp add: length_concat_blocks blocks_ok_put)
next
  fix k assume "k < length (concat (put_at i v bs))"
  then have k: "k < length bs * blockSize" using assms by (simp add: length_concat_blocks blocks_ok_put)
  have q: "i div blockSize < length bs" using assms(2) by (simp add: less_mult_imp_div_less)
  have len: "length (bs ! (i div blockSize)) = blockSize" using assms(1) q by (simp add: blocks_ok_def)
  have ki: "k = i \<longleftrightarrow> k div blockSize = i div blockSize \<and> k mod blockSize = i mod blockSize"
    by (metis div_mult_mod_eq)
  have "concat (put_at i v bs) ! k = put_at i v bs ! (k div blockSize) ! (k mod blockSize)"
    using nth_concat_blocks [OF blocks_ok_put [OF assms]] k by simp
  also have "\<dots> = (if k = i then v else bs ! (k div blockSize) ! (k mod blockSize))"
    using q len ki by (auto simp: put_at_def nth_list_update)
  also have "\<dots> = (concat bs)[i := v] ! k"
    using assms k by (simp add: nth_concat_blocks length_concat_blocks nth_list_update)
  finally show "concat (put_at i v bs) ! k = (concat bs)[i := v] ! k" .
qed

lemma put_at_eq: "o' < blockSize \<Longrightarrow> put_at (a * blockSize + o') v bs = bs[a := (bs ! a)[o' := v]]"
  by (simp add: put_at_def)

lemma sstack_size_le:
  assumes "sstack_inv s"
  shows "ss_size s \<le> length (ss_blocks s) * blockSize"
proof -
  have "ss_size s \<le> Suc (ss_active s) * blockSize" using assms by (simp add: sstack_inv_def)
  also have "\<dots> \<le> length (ss_blocks s) * blockSize"
    using assms unfolding sstack_inv_def by (intro mult_le_mono1) simp
  finally show ?thesis .
qed

lemma sstack_list_len: "sstack_inv s \<Longrightarrow> length (sstack_list s) = ss_size s"
  using sstack_size_le [of s] by (simp add: sstack_inv_def sstack_list_def length_concat_blocks)

lemma sstack_list_nth:
  assumes "sstack_inv s" "k < ss_size s"
  shows "sstack_list s ! k = the (concat (ss_blocks s) ! k)"
  using assms sstack_list_len [OF assms(1)] by (simp add: sstack_list_def)

lemma update_not_None: "xs ! k \<noteq> None \<Longrightarrow> (xs[i := Some a]) ! k \<noteq> None"
  by (cases "i = k"; cases "k < length xs") (auto simp: list_update_beyond)

lemma item_at_list:
  assumes "sstack_inv s" "i < ss_size s"
  shows "item_at s i = Some (sstack_list s ! i)"
proof -
  have "i < length (ss_blocks s) * blockSize" using sstack_size_le [OF assms(1)] assms(2) by simp
  with assms show ?thesis
    by (auto simp: item_at_def sstack_list_nth) (auto simp: sstack_inv_def nth_concat_blocks)
qed

lemma sstack_Less_list:
  "sstack_inv s \<Longrightarrow> i < ss_size s \<Longrightarrow> j < ss_size s \<Longrightarrow>
   sstack_Less s i j = item_before (sstack_list s ! i) (sstack_list s ! j)"
  by (simp add: sstack_Less_def item_at_list)

lemma sstack_Swap_list:
  assumes "sstack_inv s" "i < ss_size s" "j < ss_size s"
  shows "sstack_inv (sstack_Swap s i j) \<and> sstack_list (sstack_Swap s i j) = swap_at (sstack_list s) i j"
proof -
  let ?bs = "ss_blocks s"
  let ?bs' = "put_at j (item_at s i) (put_at i (item_at s j) ?bs)"
  have bound: "i < length ?bs * blockSize" "j < length ?bs * blockSize"
    using sstack_size_le [OF assms(1)] assms(2,3) by simp_all
  have ok: "blocks_ok ?bs" using assms(1) by (simp add: sstack_inv_def)
  have flat: "concat ?bs' = (concat ?bs)[i := Some (sstack_list s ! j), j := Some (sstack_list s ! i)]"
    using ok bound assms by (simp add: concat_put_at blocks_ok_put item_at_list)
  have inv: "sstack_inv (sstack_Swap s i j)"
    using assms(1) ok bound
    unfolding sstack_inv_def sstack_Swap_def
    by (simp add: blocks_ok_put flat update_not_None del: not_None_eq)
  moreover have "sstack_list (sstack_Swap s i j) = swap_at (sstack_list s) i j"
  proof (rule nth_equalityI)
    show "length (sstack_list (sstack_Swap s i j)) = length (swap_at (sstack_list s) i j)"
      using sstack_list_len [OF inv] sstack_list_len [OF assms(1)] by (simp add: sstack_Swap_def)
  next
    fix k assume "k < length (sstack_list (sstack_Swap s i j))"
    then have k: "k < ss_size s" "k < ss_size (sstack_Swap s i j)"
      using sstack_list_len [OF inv] by (simp_all add: sstack_Swap_def)
    have "i < length (concat ?bs)" "j < length (concat ?bs)" using bound ok by (simp_all add: length_concat_blocks)
    then have "the (concat ?bs' ! k) = swap_at (sstack_list s) i j ! k"
      using assms k(1) unfolding flat
      by (simp add: nth_swap_at nth_list_update sstack_list_len) (simp add: sstack_list_nth)
    then show "sstack_list (sstack_Swap s i j) ! k = swap_at (sstack_list s) i j ! k"
      unfolding sstack_list_nth [OF inv k(2)] by (simp add: sstack_Swap_def)
  qed
  ultimately show ?thesis by blast
qed

lemma sstack_list_cong:
  "ss_size s = ss_size t \<Longrightarrow> take (ss_size t) (concat (ss_blocks s)) = take (ss_size t) (concat (ss_blocks t)) \<Longrightarrow>
   sstack_list s = sstack_list t"
  by (simp add: sstack_list_def)

lemma sstack_room_list:
  assumes "sstack_inv s"
  shows "sstack_inv (sstack_room s) \<and> sstack_list (sstack_room s) = sstack_list s \<and>
    ss_size (sstack_room s) = ss_size s \<and> ss_offset (sstack_room s) < blockSize"
proof -
  let ?bs = "ss_blocks s"
  have ok: "blocks_ok ?bs" and cap: "ss_capacity s = length ?bs * blockSize"
    and size: "ss_size s = ss_active s * blockSize + ss_offset s"
    and off: "ss_offset s \<le> blockSize" and some: "\<And>k. k < ss_size s \<Longrightarrow> concat ?bs ! k \<noteq> None"
    using assms by (auto simp: sstack_inv_def)
  consider (full) "ss_size s = ss_capacity s" | (edge) "ss_size s \<noteq> ss_capacity s" "ss_offset s = blockSize"
    | (here) "ss_size s \<noteq> ss_capacity s" "ss_offset s < blockSize"
    using off by linarith
  then show ?thesis
  proof cases
    case full
    have len: "length (concat ?bs) = ss_size s" using full cap ok by (simp add: length_concat_blocks)
    have "sstack_inv (sstack_room s)"
      using full cap ok some len
      by (auto simp: sstack_inv_def sstack_room_def blocks_ok_def nth_append simp del: not_None_eq)
    moreover have "sstack_list (sstack_room s) = sstack_list s"
      using full len by (intro sstack_list_cong) (simp_all add: sstack_room_def)
    ultimately show ?thesis using full by (simp add: sstack_room_def)
  next
    case edge
    have "Suc (ss_active s) * blockSize < length ?bs * blockSize"
      using edge(1) sstack_size_le [OF assms] cap size edge(2) by simp
    then have "Suc (ss_active s) < length ?bs" by (metis mult_less_cancel2)
    moreover have "ss_size s div blockSize = Suc (ss_active s)" using size edge(2) by simp
    ultimately show ?thesis
      using edge assms by (simp add: sstack_room_def sstack_inv_def sstack_list_def)
  next
    case here
    then show ?thesis using assms by (simp add: sstack_room_def)
  qed
qed

lemma sstack_Push_list:
  assumes "sstack_inv s"
  shows "sstack_inv (sstack_Push s x) \<and> sstack_list (sstack_Push s x) = sstack_list s @ [x]"
proof -
  define t where "t = sstack_room s"
  let ?bs = "ss_blocks t"
  have t: "sstack_inv t" "sstack_list t = sstack_list s" "ss_offset t < blockSize"
    using sstack_room_list [OF assms] by (auto simp: t_def)
  have ok: "blocks_ok ?bs" and size: "ss_size t = ss_active t * blockSize + ss_offset t"
    using t(1) by (auto simp: sstack_inv_def)
  have put: "?bs[ss_active t := (?bs ! ss_active t)[ss_offset t := Some x]] = put_at (ss_size t) (Some x) ?bs"
    unfolding size using t(3) by (simp add: put_at_eq)
  have "Suc (ss_active t) * blockSize \<le> length ?bs * blockSize"
    using t(1) unfolding sstack_inv_def by (intro mult_le_mono1) simp
  then have bound: "ss_size t < length ?bs * blockSize" using size t(3) by simp
  have flat: "concat (put_at (ss_size t) (Some x) ?bs) = (concat ?bs)[ss_size t := Some x]"
    using ok bound by (rule concat_put_at)
  have push: "sstack_Push s x = t\<lparr> ss_blocks := put_at (ss_size t) (Some x) ?bs,
      ss_offset := ss_offset t + 1, ss_size := ss_size t + 1 \<rparr>"
    by (simp add: sstack_Push_def Let_def put flip: t_def)
  have len: "ss_size t < length (concat ?bs)" using bound ok by (simp add: length_concat_blocks)
  have "\<forall>k < Suc (ss_size t). (concat ?bs)[ss_size t := Some x] ! k \<noteq> None"
    using t(1) len by (auto simp: sstack_inv_def nth_list_update less_Suc_eq simp del: not_None_eq)
  then have "sstack_inv (sstack_Push s x)"
    unfolding push sstack_inv_def using t(1,3) ok bound flat size
    by (simp add: blocks_ok_put sstack_inv_def del: not_None_eq)
  moreover have "sstack_list (sstack_Push s x) = sstack_list t @ [x]"
    unfolding push sstack_list_def using flat len by (simp add: take_Suc_conv_app_nth)
  ultimately show ?thesis using t(2) by simp
qed

lemma sstack_Pop_list:
  assumes "sstack_inv s" "sstack_list s \<noteq> []"
  shows "\<exists>t. sstack_Pop s = Some (last (sstack_list s), t) \<and> sstack_inv t \<and> sstack_list t = butlast (sstack_list s)"
proof -
  let ?bs = "ss_blocks s"
  have ok: "blocks_ok ?bs" and size: "ss_size s = ss_active s * blockSize + ss_offset s"
    and act: "ss_active s < length ?bs" and off: "ss_offset s \<le> blockSize"
    using assms(1) by (auto simp: sstack_inv_def)
  have pos: "0 < ss_size s" using assms(2) sstack_list_len [OF assms(1)] by (cases "sstack_list s") auto
  define n where "n = ss_size s - 1"
  have n: "ss_size s = Suc n" "n < ss_size s" using pos by (simp_all add: n_def)
  have bound: "n < length ?bs * blockSize" using sstack_size_le [OF assms(1)] n by simp
  define a where "a = (if ss_offset s = 0 then n div blockSize else ss_active s)"
  define o' where "o' = (if ss_offset s = 0 then blockSize - 1 else ss_offset s - 1)"
  have ao: "n = a * blockSize + o' \<and> o' < blockSize \<and> a < length ?bs"
  proof (cases "ss_offset s = 0")
    case True
    then have "ss_active s \<noteq> 0" using size pos by (cases "ss_active s") auto
    then have "n = (ss_active s - 1) * blockSize + (blockSize - 1)"
      using size True n(1) by (cases "ss_active s") (auto simp: blockSize_def)
    then show ?thesis using True act by (simp add: a_def o'_def)
  next
    case False
    then have "n = ss_active s * blockSize + (ss_offset s - 1)" "ss_offset s - 1 < blockSize"
      using size off n(1) by linarith+
    then show ?thesis using False act by (simp add: a_def o'_def)
  qed
  have here: "?bs ! a ! o' = Some (sstack_list s ! n)"
    using item_at_list [OF assms(1) n(2)] ao by (simp add: item_at_def)
  define t where "t = s\<lparr> ss_size := n, ss_offset := o', ss_active := a, ss_blocks := put_at n None ?bs \<rparr>"
  have "?bs[a := (?bs ! a)[o' := None]] = put_at n None ?bs" using ao by (simp add: put_at_eq)
  then have "sstack_Pop s = Some (sstack_list s ! n, t)"
    using pos here
    by (cases "ss_offset s = 0") (simp_all add: sstack_Pop_def Let_def t_def a_def o'_def n_def)
  moreover have "sstack_list s ! n = last (sstack_list s)"
    using assms sstack_list_len [OF assms(1)] n by (simp add: last_conv_nth)
  moreover have flat: "concat (put_at n None ?bs) = (concat ?bs)[n := None]"
    using ok bound by (rule concat_put_at)
  moreover have "sstack_inv t"
    using assms(1) ao ok bound n flat
    by (auto simp: sstack_inv_def t_def blocks_ok_put nth_list_update simp del: not_None_eq)
  moreover have "sstack_list t = butlast (sstack_list s)"
    using sstack_size_le [OF assms(1)] n flat ok
    by (simp add: sstack_list_def t_def butlast_take length_concat_blocks flip: map_butlast)
  ultimately show ?thesis by auto
qed

section \<open>Heaps\<close>

definition heap_upto :: "('x \<Rightarrow> int) \<Rightarrow> nat \<Rightarrow> 'x list \<Rightarrow> bool" where
  "heap_upto key n xs \<longleftrightarrow> (\<forall>i. 0 < i \<longrightarrow> i < n \<longrightarrow> key (xs ! i) \<le> key (xs ! ((i - 1) div 2)))"

lemma heap_upto_root: "heap_upto key n xs \<Longrightarrow> i < n \<Longrightarrow> key (xs ! i) \<le> key (xs ! 0)"
proof (induction i rule: less_induct)
  case (less i)
  show ?case
  proof (cases "i = 0")
    case False
    then have p: "(i - 1) div 2 < i" by auto
    have "key (xs ! i) \<le> key (xs ! ((i - 1) div 2))" using less.prems False unfolding heap_upto_def by blast
    also have "\<dots> \<le> key (xs ! 0)" by (rule less.IH [OF p less.prems(1)]) (use p less.prems(2) in linarith)
    finally show ?thesis .
  qed simp
qed

lemma parent_eq: "0 < k \<Longrightarrow> (k - 1) div 2 = i \<longleftrightarrow> k = 2 * i + 1 \<or> k = 2 * i + (2 :: nat)"
  by auto

text \<open>The state of \<open>up\<close> at \<open>j\<close> and of \<open>down\<close> at \<open>i\<close>: the heap order may fail only above \<open>j\<close>,
  only below \<open>i\<close>.\<close>

definition up_state :: "('x \<Rightarrow> int) \<Rightarrow> nat \<Rightarrow> 'x list \<Rightarrow> nat \<Rightarrow> bool" where
  "up_state key n xs j \<longleftrightarrow>
     (\<forall>k. 0 < k \<longrightarrow> k < n \<longrightarrow> k \<noteq> j \<longrightarrow> key (xs ! k) \<le> key (xs ! ((k - 1) div 2))) \<and>
     (0 < j \<longrightarrow> (\<forall>k. 0 < k \<longrightarrow> k < n \<longrightarrow> (k - 1) div 2 = j \<longrightarrow> key (xs ! k) \<le> key (xs ! ((j - 1) div 2))))"

definition down_state :: "('x \<Rightarrow> int) \<Rightarrow> nat \<Rightarrow> 'x list \<Rightarrow> nat \<Rightarrow> bool" where
  "down_state key n xs i \<longleftrightarrow>
     (\<forall>k. 0 < k \<longrightarrow> k < n \<longrightarrow> (k - 1) div 2 \<noteq> i \<longrightarrow> key (xs ! k) \<le> key (xs ! ((k - 1) div 2))) \<and>
     (0 < i \<longrightarrow> (\<forall>k. 0 < k \<longrightarrow> k < n \<longrightarrow> (k - 1) div 2 = i \<longrightarrow> key (xs ! k) \<le> key (xs ! ((i - 1) div 2))))"

lemma up_state_swap:
  assumes "up_state key n xs j" "0 < j" "j < n" "n = length xs" "key (xs ! ((j - 1) div 2)) < key (xs ! j)"
  shows "up_state key n (swap_at xs ((j - 1) div 2) j) ((j - 1) div 2)"
proof -
  define i where "i = (j - 1) div 2"
  have ij: "i < j" "i < n" using assms(2,3) by (auto simp: i_def)
  have ord: "\<And>k. 0 < k \<Longrightarrow> k < n \<Longrightarrow> k \<noteq> j \<Longrightarrow> key (xs ! k) \<le> key (xs ! ((k - 1) div 2))"
    and below: "\<And>k. 0 < k \<Longrightarrow> k < n \<Longrightarrow> (k - 1) div 2 = j \<Longrightarrow> key (xs ! k) \<le> key (xs ! i)"
    using assms(1,2) by (auto simp: up_state_def i_def)
  have lt: "key (xs ! i) < key (xs ! j)" using assms(5) by (simp add: i_def)
  have at: "swap_at xs i j ! k = (if k = j then xs ! i else if k = i then xs ! j else xs ! k)" if "k < n" for k
    using nth_swap_at [of i xs j k] that ij assms(3,4) by simp
  have child: "key (xs ! k) \<le> key (xs ! i)" if "0 < k" "k < n" "k \<noteq> j" "(k - 1) div 2 = i" for k
    using ord [OF that(1-3)] that(4) by simp
  have first: "key (swap_at xs i j ! k) \<le> key (swap_at xs i j ! ((k - 1) div 2))" if "0 < k" "k < n" "k \<noteq> i" for k
  proof -
    define p where "p = (k - 1) div 2"
    have p: "p < n" "p < k" using that by (auto simp: p_def)
    consider "k = j" | "k \<noteq> j" "p = i" | "k \<noteq> j" "p = j" | "k \<noteq> j" "p \<noteq> i" "p \<noteq> j" by blast
    then have "key (swap_at xs i j ! k) \<le> key (swap_at xs i j ! p)"
    proof cases
      case 1
      then have "p = i" by (simp add: p_def i_def)
      then show ?thesis using 1 that ij lt by (simp add: at)
    next
      case 2
      then have "key (xs ! k) \<le> key (xs ! i)" using child [of k] that by (simp add: p_def)
      then show ?thesis using 2 that p ij lt by (simp add: at)
    next
      case 3
      then have "key (xs ! k) \<le> key (xs ! i)" using below [of k] that by (simp add: p_def)
      then show ?thesis using 3 that p by (simp add: at)
    next
      case 4
      then have "key (xs ! k) \<le> key (xs ! p)" using ord [of k] that by (simp add: p_def)
      then show ?thesis using 4 that p by (simp add: at)
    qed
    then show ?thesis by (simp add: p_def)
  qed
  have second: "key (swap_at xs i j ! k) \<le> key (swap_at xs i j ! ((i - 1) div 2))"
    if "0 < i" "0 < k" "k < n" "(k - 1) div 2 = i" for k
  proof -
    define q where "q = (i - 1) div 2"
    have q: "q < i" "q < n" using that(1) ij by (auto simp: q_def)
    have up: "key (xs ! i) \<le> key (xs ! q)" using ord [of i] that(1) ij by (simp add: q_def)
    have "k \<noteq> i" using that by auto
    then have "key (swap_at xs i j ! k) \<le> key (xs ! i)"
      using child [OF that(2,3) _ that(4)] that(3) by (auto simp: at)
    also have "\<dots> \<le> key (swap_at xs i j ! q)" using up q ij by (simp add: at)
    finally show ?thesis by (simp add: q_def)
  qed
  show ?thesis using first second unfolding up_state_def i_def [symmetric] by blast
qed

lemma down_state_swap:
  assumes "down_state key n xs i" "i < j" "j < n" "n \<le> length xs" "(j - 1) div 2 = i"
    and "key (xs ! i) < key (xs ! j)"
    and max: "\<And>k. 0 < k \<Longrightarrow> k < n \<Longrightarrow> (k - 1) div 2 = i \<Longrightarrow> key (xs ! k) \<le> key (xs ! j)"
  shows "down_state key n (swap_at xs i j) j"
proof -
  have ord: "\<And>k. 0 < k \<Longrightarrow> k < n \<Longrightarrow> (k - 1) div 2 \<noteq> i \<Longrightarrow> key (xs ! k) \<le> key (xs ! ((k - 1) div 2))"
    and above: "0 < i \<Longrightarrow> key (xs ! j) \<le> key (xs ! ((i - 1) div 2))"
    using assms(1-3,5) by (auto simp: down_state_def)
  have at: "swap_at xs i j ! k = (if k = j then xs ! i else if k = i then xs ! j else xs ! k)" if "k < n" for k
    using nth_swap_at [of i xs j k] that assms(2-4) by simp
  have first: "key (swap_at xs i j ! k) \<le> key (swap_at xs i j ! ((k - 1) div 2))"
    if "0 < k" "k < n" "(k - 1) div 2 \<noteq> j" for k
  proof -
    define p where "p = (k - 1) div 2"
    have p: "p < n" "p < k" "p \<noteq> j" using that by (auto simp: p_def)
    consider "k = j" | "k \<noteq> j" "p = i" | "k = i" | "k \<noteq> j" "k \<noteq> i" "p \<noteq> i" by blast
    then have "key (swap_at xs i j ! k) \<le> key (swap_at xs i j ! p)"
    proof cases
      case 1
      then have "p = i" using assms(5) by (simp add: p_def)
      then show ?thesis using 1 that assms(2,6) by (simp add: at)
    next
      case 2
      then show ?thesis using max [of k] that p by (simp add: at p_def)
    next
      case 3
      then show ?thesis using above that p assms(2) by (simp add: at p_def)
    next
      case 4
      then show ?thesis using ord [of k] that p by (simp add: at p_def)
    qed
    then show ?thesis by (simp add: p_def)
  qed
  have second: "key (swap_at xs i j ! k) \<le> key (swap_at xs i j ! ((j - 1) div 2))"
    if "0 < k" "k < n" "(k - 1) div 2 = j" for k
  proof -
    have "key (xs ! k) \<le> key (xs ! j)" using ord [of k] that assms(2) by simp
    moreover have "k \<noteq> j" "k \<noteq> i" using that assms(2) by auto
    ultimately show ?thesis using that assms(2,3,5) by (simp add: at)
  qed
  show ?thesis unfolding down_state_def using first second by blast
qed

lemma last_conv_nth_Suc: "length xs = Suc n \<Longrightarrow> last xs = xs ! n"
  by (subst last_conv_nth) auto

lemma up_state_append:
  assumes "heap_upto key (length xs) xs"
  shows "up_state key (Suc (length xs)) (xs @ [x]) (length xs)"
proof -
  have "key ((xs @ [x]) ! k) \<le> key ((xs @ [x]) ! ((k - 1) div 2))" if "0 < k" "k < length xs" for k
  proof -
    have "(k - 1) div 2 < length xs" using that by linarith
    then show ?thesis using assms that by (simp add: heap_upto_def nth_append)
  qed
  moreover have "(k - 1) div 2 \<noteq> length xs" if "0 < k" "k < Suc (length xs)" for k
    using that by linarith
  ultimately show ?thesis unfolding up_state_def by (metis less_Suc_eq)
qed

lemma down_state_swap_root:
  assumes "heap_upto key (length xs) xs" "Suc n = length xs"
  shows "down_state key n (swap_at xs 0 n) 0"
proof -
  have at: "swap_at xs 0 n ! k = xs ! k" if "0 < k" "k < n" for k
    using that assms(2) by (subst nth_swap_at) auto
  have "key (swap_at xs 0 n ! k) \<le> key (swap_at xs 0 n ! ((k - 1) div 2))"
    if "0 < k" "k < n" "(k - 1) div 2 \<noteq> 0" for k
  proof -
    have "(k - 1) div 2 < n" "k < length xs" using that assms(2) by linarith+
    then show ?thesis using assms(1) that at by (simp add: heap_upto_def)
  qed
  then show ?thesis by (simp add: down_state_def)
qed

locale swappable =
  fixes Swap :: "'h \<Rightarrow> nat \<Rightarrow> nat \<Rightarrow> 'h" and elems :: "'h \<Rightarrow> 'x list" and inv :: "'h \<Rightarrow> bool"
  assumes Swap_inv: "inv h \<Longrightarrow> i < length (elems h) \<Longrightarrow> j < length (elems h) \<Longrightarrow> inv (Swap h i j)"
    and Swap_elems: "inv h \<Longrightarrow> i < length (elems h) \<Longrightarrow> j < length (elems h) \<Longrightarrow>
      elems (Swap h i j) = swap_at (elems h) i j"
begin

text \<open>Whatever the comparison answers, the algorithms only rearrange the elements.\<close>

lemma up_mset:
  "inv h \<Longrightarrow> j < length (elems h) \<Longrightarrow>
   inv (heap_up lt Swap h j) \<and> mset (elems (heap_up lt Swap h j)) = mset (elems h)"
proof (induction j arbitrary: h rule: less_induct)
  case (less j)
  define i where "i = (j - 1) div 2"
  have i: "i \<le> j" "i < length (elems h)" using less.prems(2) by (auto simp: i_def)
  show ?case
  proof (cases "i = j \<or> \<not> lt h j i")
    case True
    then have "heap_up lt Swap h j = h" unfolding i_def by (subst heap_up.simps) (simp add: Let_def)
    then show ?thesis using less.prems by simp
  next
    case False
    then have "heap_up lt Swap h j = heap_up lt Swap (Swap h i j) i"
      unfolding i_def by (subst heap_up.simps) (simp add: Let_def)
    then show ?thesis
      using less.IH [of i "Swap h i j"] False i less.prems Swap_inv [OF less.prems(1) i(2) less.prems(2)]
        Swap_elems [OF less.prems(1) i(2) less.prems(2)] by simp
  qed
qed

lemma down_mset:
  "inv h \<Longrightarrow> n \<le> length (elems h) \<Longrightarrow>
   inv (heap_down lt Swap h i n) \<and> mset (elems (heap_down lt Swap h i n)) = mset (elems h)"
proof (induction "n - i" arbitrary: h i rule: less_induct)
  case less
  define j where "j = (if 2 * i + 1 + 1 < n \<and> lt h (2 * i + 1 + 1) (2 * i + 1) then 2 * i + 1 + 1 else 2 * i + 1)"
  show ?case
  proof (cases "2 * i + 1 < n \<and> lt h j i")
    case True
    then have j: "i < j" "j < n" "i < n" by (auto simp: j_def)
    then have ij: "i < length (elems h)" "j < length (elems h)" using less.prems(2) by auto
    have "heap_down lt Swap h i n = heap_down lt Swap (Swap h i j) j n"
      using True unfolding j_def by (subst heap_down.simps) (auto simp: Let_def)
    then show ?thesis
      using less.hyps [of j "Swap h i j"] j less.prems ij Swap_inv [OF less.prems(1) ij]
        Swap_elems [OF less.prems(1) ij] by simp
  next
    case False
    then have "heap_down lt Swap h i n = h"
      unfolding j_def by (subst heap_down.simps) (auto simp: Let_def)
    then show ?thesis using less.prems by simp
  qed
qed

end

locale heap_interface = swappable Swap elems inv
  for Swap :: "'h \<Rightarrow> nat \<Rightarrow> nat \<Rightarrow> 'h" and elems :: "'h \<Rightarrow> 'x list" and inv :: "'h \<Rightarrow> bool" +
  fixes Len :: "'h \<Rightarrow> nat" and Less :: "'h \<Rightarrow> nat \<Rightarrow> nat \<Rightarrow> bool"
    and Push :: "'h \<Rightarrow> 'x \<Rightarrow> 'h" and Pop :: "'h \<Rightarrow> ('x \<times> 'h) option"
    and key :: "'x \<Rightarrow> int" and safe :: "'x \<Rightarrow> bool"
  assumes Len_elems: "inv h \<Longrightarrow> Len h = length (elems h)"
    and Less_key: "inv h \<Longrightarrow> i < length (elems h) \<Longrightarrow> j < length (elems h) \<Longrightarrow>
      Less h i j \<longleftrightarrow> key (elems h ! j) < key (elems h ! i)"
    and Push_law: "inv h \<Longrightarrow> safe x \<Longrightarrow> inv (Push h x) \<and> elems (Push h x) = elems h @ [x]"
    and Pop_law: "inv h \<Longrightarrow> elems h \<noteq> [] \<Longrightarrow>
      \<exists>h'. Pop h = Some (last (elems h), h') \<and> inv h' \<and> elems h' = butlast (elems h)"
begin

lemma up_correct:
  assumes "inv h" "j < length (elems h)" "up_state key (length (elems h)) (elems h) j"
  shows "inv (heap_up Less Swap h j) \<and> mset (elems (heap_up Less Swap h j)) = mset (elems h) \<and>
    heap_upto key (length (elems h)) (elems (heap_up Less Swap h j))"
  using assms
proof (induction j arbitrary: h rule: less_induct)
  case (less j)
  define i where "i = (j - 1) div 2"
  have i: "i \<le> j" "i < length (elems h)" using less.prems(2) by (auto simp: i_def)
  show ?case
  proof (cases "i = j \<or> \<not> Less h j i")
    case True
    then have "heap_up Less Swap h j = h" unfolding i_def by (subst heap_up.simps) (simp add: Let_def)
    moreover have "0 < j \<longrightarrow> key (elems h ! j) \<le> key (elems h ! i)"
      using True Less_key [OF less.prems(1,2) i(2)] by auto
    then have "heap_upto key (length (elems h)) (elems h)"
      using less.prems(3) unfolding heap_upto_def up_state_def i_def by metis
    ultimately show ?thesis using less.prems(1) by simp
  next
    case False
    then have ij: "i < j" "0 < j" using i(1) by auto
    have step: "heap_up Less Swap h j = heap_up Less Swap (Swap h i j) i"
      using False unfolding i_def by (subst heap_up.simps) (simp add: Let_def)
    have e: "elems (Swap h i j) = swap_at (elems h) i j" "inv (Swap h i j)"
      using Swap_elems Swap_inv less.prems(1,2) i(2) by auto
    have "key (elems h ! i) < key (elems h ! j)" using False Less_key [OF less.prems(1,2) i(2)] by simp
    then have "up_state key (length (elems h)) (swap_at (elems h) i j) i"
      using up_state_swap [OF less.prems(3) ij(2) less.prems(2)] by (simp add: i_def)
    then show ?thesis
      using less.IH [OF ij(1) e(2)] e(1) i(2) less.prems(2) step by simp
  qed
qed

lemma down_correct:
  assumes "inv h" "i < n \<or> n = 0" "n \<le> length (elems h)" "down_state key n (elems h) i"
  shows "inv (heap_down Less Swap h i n) \<and> mset (elems (heap_down Less Swap h i n)) = mset (elems h) \<and>
    heap_upto key n (elems (heap_down Less Swap h i n)) \<and> drop n (elems (heap_down Less Swap h i n)) = drop n (elems h)"
  using assms
proof (induction "n - i" arbitrary: h i rule: less_induct)
  case less
  define j1 where "j1 = 2 * i + 1"
  define j where "j = (if j1 + 1 < n \<and> Less h (j1 + 1) j1 then j1 + 1 else j1)"
  show ?case
  proof (cases "j1 < n \<and> Less h j i")
    case False
    then have "heap_down Less Swap h i n = h"
      by (subst heap_down.simps) (auto simp: Let_def j_def j1_def)
    moreover have "heap_upto key n (elems h)"
    proof (cases "j1 < n")
      case True
      have "key (elems h ! k) \<le> key (elems h ! i)" if "0 < k" "k < n" "(k - 1) div 2 = i" for k
        using that False True Less_key [OF less.prems(1)] less.prems(3) parent_eq [of k i]
        by (fastforce simp: j_def j1_def split: if_splits)
      then show ?thesis using less.prems(4) unfolding heap_upto_def down_state_def by metis
    next
      case False
      then show ?thesis using less.prems(4) by (auto simp: heap_upto_def down_state_def j1_def parent_eq)
    qed
    ultimately show ?thesis using less.prems(1) by simp
  next
    case True
    have j: "i < j" "j < n" "(j - 1) div 2 = i" using True by (auto simp: j_def j1_def)
    have step: "heap_down Less Swap h i n = heap_down Less Swap (Swap h i j) j n"
      using True unfolding j_def j1_def by (subst heap_down.simps) (auto simp: Let_def)
    have ij: "i < length (elems h)" "j < length (elems h)" using j less.prems(3) by auto
    note lt = Less_key [OF less.prems(1)]
    have e: "elems (Swap h i j) = swap_at (elems h) i j" "inv (Swap h i j)"
      using Swap_elems Swap_inv less.prems(1) ij by auto
    have max: "key (elems h ! k) \<le> key (elems h ! j)" if "0 < k" "k < n" "(k - 1) div 2 = i" for k
      using that True lt [of "j1 + 1" j1] less.prems(3) parent_eq [of k i]
      by (auto simp: j_def j1_def)
    have "down_state key n (swap_at (elems h) i j) j"
      using down_state_swap [OF less.prems(4) j(1,2) less.prems(3) j(3) _ max] True lt [OF ij(2,1)] by simp
    moreover have "drop n (swap_at (elems h) i j) = drop n (elems h)"
      using j by (simp add: swap_at_def drop_update_cancel)
    ultimately show ?thesis
      using less.hyps [of j "Swap h i j"] j e ij less.prems(3) step by simp
  qed
qed

lemma heap_Push_correct:
  assumes "inv h" "heap_upto key (length (elems h)) (elems h)" "safe x"
  defines "h' \<equiv> heap_up Less Swap (Push h x) (Len (Push h x) - 1)"
  shows "inv h' \<and> heap_upto key (length (elems h')) (elems h') \<and> mset (elems h') = add_mset x (mset (elems h))"
proof -
  have p: "inv (Push h x)" "elems (Push h x) = elems h @ [x]" using Push_law assms(1,3) by auto
  have "up_state key (length (elems (Push h x))) (elems (Push h x)) (Len (Push h x) - 1)"
    using up_state_append [OF assms(2)] p Len_elems [OF p(1)] by simp
  then have up: "inv h' \<and> mset (elems h') = mset (elems (Push h x)) \<and>
      heap_upto key (length (elems (Push h x))) (elems h')"
    unfolding h'_def using p Len_elems [OF p(1)] by (intro up_correct) auto
  then have "length (elems h') = length (elems (Push h x))" by (metis size_mset)
  with up p show ?thesis by simp
qed

lemma heap_Pop_correct:
  assumes "inv h" "heap_upto key (length (elems h)) (elems h)" "elems h \<noteq> []"
  defines "n \<equiv> Len h - 1"
  shows "\<exists>x h'. Pop (heap_down Less Swap (Swap h 0 n) 0 n) = Some (x, h') \<and> inv h' \<and>
    heap_upto key (length (elems h')) (elems h') \<and> mset (elems h) = add_mset x (mset (elems h')) \<and>
    (\<forall>y \<in> set (elems h). key y \<le> key x)"
proof -
  have n: "Suc n = length (elems h)" using assms(1,3) Len_elems by (simp add: n_def)
  define h1 where "h1 = Swap h 0 n"
  define h2 where "h2 = heap_down Less Swap h1 0 n"
  have bounds: "0 < length (elems h)" "n < length (elems h)" using n by linarith+
  have h1: "inv h1" "elems h1 = swap_at (elems h) 0 n"
    unfolding h1_def using Swap_inv Swap_elems assms(1) bounds by blast+
  have "down_state key n (elems h1) 0"
    unfolding h1(2) using down_state_swap_root [OF assms(2) n] .
  then have h2: "inv h2" "mset (elems h2) = mset (elems h1)" "heap_upto key n (elems h2)"
      "drop n (elems h2) = drop n (elems h1)"
    using down_correct [of h1 0 n] h1 n by (auto simp: h2_def)
  have len: "length (elems h2) = Suc n" using arg_cong [OF h2(2), of size] h1 n by simp
  have "elems h2 ! n = drop n (elems h1) ! 0" using len by (simp flip: h2(4))
  also have "\<dots> = elems h ! 0" unfolding h1(2) using bounds by (simp add: nth_swap_at)
  finally have last: "last (elems h2) = elems h ! 0" using len by (simp add: last_conv_nth_Suc)
  have split: "elems h2 = butlast (elems h2) @ [elems h ! 0]"
    using len append_butlast_last_id [of "elems h2"] last by fastforce
  from Pop_law [OF h2(1)] len obtain h' where
    h': "Pop h2 = Some (elems h ! 0, h')" "inv h'" "elems h' = butlast (elems h2)"
    unfolding last by (metis list.size(3) nat.distinct(1))
  have "length (elems h') = n" using h'(3) len by simp
  then have "heap_upto key (length (elems h')) (elems h')"
    using h2(3) len by (auto simp: heap_upto_def h'(3) nth_butlast)
  moreover have "mset (elems h) = add_mset (elems h ! 0) (mset (elems h'))"
    using arg_cong [OF split, of mset] h2(2) h1(2) bounds h'(3) by simp
  moreover have "\<forall>y \<in> set (elems h). key y \<le> key (elems h ! 0)"
    using heap_upto_root [OF assms(2)] by (auto simp: in_set_conv_nth)
  ultimately show ?thesis using h'(1,2) by (auto simp: h2_def h1_def)
qed

end

section \<open>The queue\<close>

text \<open>Priorities in this range cannot make the difference in \<open>Less\<close> wrap around.\<close>

definition safe_priority :: "u64 \<Rightarrow> bool" where
  "safe_priority p \<longleftrightarrow> - (2 ^ 62) \<le> sint p \<and> sint p < 2 ^ 62"

definition stack_safe :: "'v sstack \<Rightarrow> bool" where
  "stack_safe s \<longleftrightarrow> sstack_inv s \<and> (\<forall>x \<in> set (sstack_list s). safe_priority (item_priority x))"

lemma item_before_safe:
  assumes "safe_priority (item_priority x)" "safe_priority (item_priority y)"
  shows "item_before x y \<longleftrightarrow> sint (item_priority y) < sint (item_priority x)"
proof -
  have "sint (item_priority x - item_priority y) = sint (item_priority x) - sint (item_priority y)"
    using assms unfolding safe_priority_def
    by (simp add: sint_word_ariths(2) signed_take_bit_int_eq_self)
  then show ?thesis by (simp add: item_before_def)
qed

lemma stack_safe_Pop:
  assumes "stack_safe s" "sstack_list s \<noteq> []"
  shows "\<exists>t. sstack_Pop s = Some (last (sstack_list s), t) \<and> stack_safe t \<and> sstack_list t = butlast (sstack_list s)"
  using sstack_Pop_list [of s] assms by (fastforce simp: stack_safe_def dest: in_set_butlastD)

interpretation block_list: swappable sstack_Swap sstack_list sstack_inv
  using sstack_Swap_list by unfold_locales (auto simp: sstack_list_len)

interpretation block_heap: heap_interface sstack_Swap sstack_list stack_safe sstack_Len sstack_Less sstack_Push
  sstack_Pop "\<lambda>x. sint (item_priority x)" "\<lambda>x. safe_priority (item_priority x)"
proof
  fix h :: "'v sstack" and i j :: nat and x :: "'v item"
  assume h: "stack_safe h"
  then have inv: "sstack_inv h" by (simp add: stack_safe_def)
  show "sstack_Len h = length (sstack_list h)" by (simp add: sstack_Len_def sstack_list_len [OF inv])
  show "\<exists>h'. sstack_Pop h = Some (last (sstack_list h), h') \<and> stack_safe h' \<and> sstack_list h' = butlast (sstack_list h)"
    if "sstack_list h \<noteq> []" using stack_safe_Pop [OF h that] .
  show "stack_safe (sstack_Push h x) \<and> sstack_list (sstack_Push h x) = sstack_list h @ [x]"
    if "safe_priority (item_priority x)" using sstack_Push_list [OF inv, of x] that h by (simp add: stack_safe_def)
  assume ij: "i < length (sstack_list h)" "j < length (sstack_list h)"
  then have ij': "i < ss_size h" "j < ss_size h" by (simp_all add: sstack_list_len [OF inv])
  show "sstack_Less h i j = (sint (item_priority (sstack_list h ! j)) < sint (item_priority (sstack_list h ! i)))"
    using h ij by (simp add: sstack_Less_list [OF inv ij'] item_before_safe stack_safe_def)
  show "sstack_list (sstack_Swap h i j) = swap_at (sstack_list h) i j"
    using sstack_Swap_list [OF inv ij'] by blast
  show "stack_safe (sstack_Swap h i j)"
    using sstack_Swap_list [OF inv ij'] h ij mset_eq_setD [OF mset_swap_at [OF ij]] by (simp add: stack_safe_def)
qed

definition prque_wf :: "'v sstack \<Rightarrow> bool" where
  "prque_wf q \<longleftrightarrow> stack_safe q \<and>
     heap_upto (\<lambda>x. sint (item_priority x)) (length (sstack_list q)) (sstack_list q)"

definition prque_contents :: "'v sstack \<Rightarrow> ('v \<times> u64) multiset" where
  "prque_contents q = image_mset (\<lambda>x. (item_value x, item_priority x)) (mset (sstack_list q))"

text \<open>Without any bound on the priorities the queue still holds exactly what was put in.\<close>

lemma prque_Push_mset:
  assumes "sstack_inv q"
  shows "sstack_inv (prque_Push q v p) \<and>
    mset (sstack_list (prque_Push q v p)) = add_mset \<lparr> item_value = v, item_priority = p \<rparr> (mset (sstack_list q))"
proof -
  define q1 where "q1 = sstack_Push q \<lparr> item_value = v, item_priority = p \<rparr>"
  have q1: "sstack_inv q1" "sstack_list q1 = sstack_list q @ [\<lparr> item_value = v, item_priority = p \<rparr>]"
    using sstack_Push_list [OF assms] by (auto simp: q1_def)
  then have "sstack_Len q1 - 1 < length (sstack_list q1)" using sstack_list_len [of q1] by (simp add: sstack_Len_def)
  from block_list.up_mset [OF q1(1) this] q1(2) show ?thesis by (simp add: prque_Push_def Let_def q1_def)
qed

lemma prque_Pop_mset:
  assumes "sstack_inv q" "prque_Pop q = Some ((v, p), q')"
  shows "sstack_inv q' \<and>
    mset (sstack_list q) = add_mset \<lparr> item_value = v, item_priority = p \<rparr> (mset (sstack_list q'))"
proof -
  define n where "n = sstack_Len q - 1"
  define q2 where "q2 = heap_down sstack_Less sstack_Swap (sstack_Swap q 0 n) 0 n"
  have len: "length (sstack_list q) = Suc n"
    using assms sstack_list_len [OF assms(1)] by (auto simp: prque_Pop_def n_def sstack_Len_def split: if_splits)
  have q1: "sstack_inv (sstack_Swap q 0 n)" "mset (sstack_list (sstack_Swap q 0 n)) = mset (sstack_list q)"
    using block_list.Swap_inv [of q 0 n] block_list.Swap_elems [of q 0 n] assms(1) len by auto
  have "length (sstack_list (sstack_Swap q 0 n)) = Suc n" using arg_cong [OF q1(2), of size] len by simp
  then have q2: "sstack_inv q2" "mset (sstack_list q2) = mset (sstack_list q)"
    using block_list.down_mset [OF q1(1), of n sstack_Less 0] q1(2) by (auto simp: q2_def)
  then have ne: "sstack_list q2 \<noteq> []" using len by auto
  obtain x where x: "sstack_Pop q2 = Some (x, q')" "x = \<lparr> item_value = v, item_priority = p \<rparr>"
    using assms(2) by (auto simp: prque_Pop_def Let_def q2_def n_def split: if_splits)
  then have "x = last (sstack_list q2)" "sstack_inv q'" "sstack_list q' = butlast (sstack_list q2)"
    using sstack_Pop_list [OF q2(1) ne] by auto
  moreover have "mset (sstack_list q2) = add_mset (last (sstack_list q2)) (mset (butlast (sstack_list q2)))"
    using arg_cong [OF append_butlast_last_id [OF ne], of mset] by simp
  ultimately show ?thesis using q2(2) x(2) by simp
qed

text \<open>What the users of the queue rely on: a multiset of prioritised values of which \<open>Pop\<close> returns one with
  the greatest priority.\<close>

locale priority_queue =
  fixes New :: 'q and Push :: "'q \<Rightarrow> 'v \<Rightarrow> u64 \<Rightarrow> 'q" and Pop :: "'q \<Rightarrow> (('v \<times> u64) \<times> 'q) option"
    and Empty :: "'q \<Rightarrow> bool" and contents :: "'q \<Rightarrow> ('v \<times> u64) multiset" and wf :: "'q \<Rightarrow> bool"
    and safe :: "u64 \<Rightarrow> bool"
  assumes New_law: "wf New \<and> contents New = {#}"
    and Push_law: "wf q \<Longrightarrow> safe p \<Longrightarrow> wf (Push q v p) \<and> contents (Push q v p) = add_mset (v, p) (contents q)"
    and Empty_law: "wf q \<Longrightarrow> Empty q \<longleftrightarrow> contents q = {#}"
    and Pop_law: "wf q \<Longrightarrow> contents q \<noteq> {#} \<Longrightarrow>
      \<exists>v p q'. Pop q = Some ((v, p), q') \<and> wf q' \<and> safe p \<and> contents q = add_mset (v, p) (contents q') \<and>
        (\<forall>(w, r) \<in># contents q. sint r \<le> sint p)"

lemma prque_New_wf: "prque_wf (prque_New :: 'v sstack) \<and> prque_contents (prque_New :: 'v sstack) = {#}"
  by (auto simp: prque_wf_def prque_contents_def prque_New_def newSstack_def stack_safe_def sstack_inv_def
      blocks_ok_def sstack_list_def heap_upto_def)

lemma prque_Push_wf:
  assumes "prque_wf q" "safe_priority p"
  shows "prque_wf (prque_Push q v p) \<and> prque_contents (prque_Push q v p) = add_mset (v, p) (prque_contents q)"
  using block_heap.heap_Push_correct [of q "\<lparr> item_value = v, item_priority = p \<rparr>"] assms
  by (simp add: prque_wf_def prque_contents_def prque_Push_def Let_def)

lemma prque_Pop_wf:
  assumes "prque_wf q" "prque_contents q \<noteq> {#}"
  shows "\<exists>v p q'. prque_Pop q = Some ((v, p), q') \<and> prque_wf q' \<and> safe_priority p \<and>
    prque_contents q = add_mset (v, p) (prque_contents q') \<and> (\<forall>(w, r) \<in># prque_contents q. sint r \<le> sint p)"
proof -
  have q: "stack_safe q" "heap_upto (\<lambda>x. sint (item_priority x)) (length (sstack_list q)) (sstack_list q)"
    "sstack_list q \<noteq> []"
    using assms by (auto simp: prque_wf_def prque_contents_def)
  from block_heap.heap_Pop_correct [OF q] obtain x q' where
    pop: "sstack_Pop (heap_down sstack_Less sstack_Swap (sstack_Swap q 0 (sstack_Len q - 1)) 0 (sstack_Len q - 1)) =
      Some (x, q')" and q': "stack_safe q'" "heap_upto (\<lambda>x. sint (item_priority x)) (length (sstack_list q')) (sstack_list q')"
    and ms: "mset (sstack_list q) = add_mset x (mset (sstack_list q'))"
    and max: "\<forall>y \<in> set (sstack_list q). sint (item_priority y) \<le> sint (item_priority x)"
    by blast
  have "sstack_Len q \<noteq> 0" using q block_heap.Len_elems [OF q(1)] by simp
  then have "prque_Pop q = Some ((item_value x, item_priority x), q')" by (simp only: prque_Pop_def Let_def pop) simp
  moreover have "x \<in> set (sstack_list q)" using ms by (metis in_multiset_in_set union_single_eq_member)
  then have "safe_priority (item_priority x)" using q(1) by (simp add: stack_safe_def)
  moreover have "prque_contents q = add_mset (item_value x, item_priority x) (prque_contents q')"
    by (simp add: prque_contents_def ms)
  moreover have "\<forall>(w, r) \<in># prque_contents q. sint r \<le> sint (item_priority x)"
    using max by (auto simp: prque_contents_def)
  ultimately show ?thesis using q' by (auto simp: prque_wf_def)
qed

interpretation prque: priority_queue prque_New prque_Push prque_Pop prque_Empty prque_contents prque_wf safe_priority
proof
  show "prque_Empty q \<longleftrightarrow> prque_contents q = {#}" if "prque_wf q" for q :: "'v sstack"
    using that block_heap.Len_elems [of q] by (simp add: prque_Empty_def prque_contents_def prque_wf_def)
qed (rule prque_New_wf, erule (1) prque_Push_wf, erule (1) prque_Pop_wf)



end
