(* ===== verification/Istanbul_Core.thy ===== *)
theory Istanbul_Core
  imports Validator_Set Prque "HOL-Library.Monad_Syntax"
begin

text \<open>
  The Istanbul BFT state machine of \<open>consensus/istanbul/core\<close>: messages and message sets (\<open>types.go\<close>,
  \<open>message_set.go\<close>), the round state (\<open>roundstate.go\<close>), the engine (\<open>core.go\<close>), the handlers
  (\<open>handler.go\<close>, \<open>preprepare.go\<close>, \<open>prepare.go\<close>, \<open>commit.go\<close>, \<open>roundchange.go\<close>,
  \<open>final_committed.go\<close>), requests (\<open>request.go\<close>) and the backlog (\<open>backlog.go\<close>).

  A method that returns nothing is a function \<open>core \<Rightarrow> core option\<close>, a handler also returns its error;
  \<open>None\<close> is a panic. The calls a method makes on the backend are appended, in order, to \<open>c_outbox\<close>. What the
  backend answers is an \<open>istanbulEnv\<close>, constant while one event is handled. A payload is represented by what it
  decodes to; decoded views and proposals are never nil. Timers are outputs, their expiry is an event. Logging,
  metrics and \<open>vrank\<close> are left out.
\<close>

section \<open>Messages\<close>

text \<open>Of a proposed block the engine reads its hash, number, parent hash and the round byte of its header. The
  hash of an Istanbul block does not depend on the round byte.\<close>

record Proposal =
  p_Hash :: hash
  p_Number :: int
  p_ParentHash :: hash
  p_Round :: u8

definition SetRoundToHeader :: "int \<Rightarrow> Proposal \<Rightarrow> Proposal" where
  "SetRoundToHeader r p = p\<lparr> p_Round := word_of_int r \<rparr>"

definition View_Cmp :: "View \<Rightarrow> View \<Rightarrow> int" where
  "View_Cmp v y =
     (let sdiff = sgn (view_Sequence v - view_Sequence y)
      in if sdiff \<noteq> 0 then sdiff
         else let rdiff = sgn (view_Round v - view_Round y) in if rdiff \<noteq> 0 then rdiff else 0)"

record Preprepare =
  pp_View :: View
  pp_Proposal :: Proposal

record Subject =
  sub_View :: View
  sub_Digest :: hash
  sub_PrevHash :: hash

fun Subject_Equal :: "Subject option \<Rightarrow> Subject option \<Rightarrow> bool" where
  "Subject_Equal None None = True"
| "Subject_Equal None (Some b) = False"
| "Subject_Equal (Some a) None = False"
| "Subject_Equal (Some a) (Some b) \<longleftrightarrow>
     sub_Digest a = sub_Digest b \<and> sub_PrevHash a = sub_PrevHash b \<and> View_Cmp (sub_View a) (sub_View b) = 0"

datatype payload = PreprepareMsg Preprepare | SubjectMsg Subject | MalformedMsg bytes

definition msgPreprepare :: u64 where "msgPreprepare = 0"
definition msgPrepare :: u64 where "msgPrepare = 1"
definition msgCommit :: u64 where "msgCommit = 2"
definition msgRoundChange :: u64 where "msgRoundChange = 3"

lemmas msg_codes = msgPreprepare_def msgPrepare_def msgCommit_def msgRoundChange_def

record message =
  m_Hash :: hash
  m_Code :: u64
  m_Msg :: payload
  m_Address :: address
  m_Signature :: bytes
  m_CommittedSeal :: bytes

fun decode_Preprepare :: "payload \<Rightarrow> Preprepare option" where
  "decode_Preprepare (PreprepareMsg p) = Some p"
| "decode_Preprepare _ = None"

fun decode_Subject :: "payload \<Rightarrow> Subject option" where
  "decode_Subject (SubjectMsg s) = Some s"
| "decode_Subject _ = None"

datatype State = StateAcceptRequest | StatePreprepared | StatePrepared | StateCommitted

fun State_num :: "State \<Rightarrow> nat" where
  "State_num StateAcceptRequest = 0"
| "State_num StatePreprepared = 1"
| "State_num StatePrepared = 2"
| "State_num StateCommitted = 3"

text \<open>\<open>State.Cmp\<close> compares the numbers of the states.\<close>

instantiation State :: linorder
begin

definition less_eq_State :: "State \<Rightarrow> State \<Rightarrow> bool" where
  "less_eq_State s y \<longleftrightarrow> State_num s \<le> State_num y"

definition less_State :: "State \<Rightarrow> State \<Rightarrow> bool" where
  "less_State s y \<longleftrightarrow> State_num s < State_num y"

instance
proof
  fix x y :: State
  assume "x \<le> y" "y \<le> x"
  then show "x = y" by (cases x; cases y) (simp_all add: less_eq_State_def)
qed (auto simp: less_eq_State_def less_State_def)

end

datatype coreError =
    errInconsistentSubject | errNotFromProposer | errNotFromCommittee | errIgnored | errFutureMessage
  | errOldMessage | errInvalidMessage | errInvalidSigner | ErrUnauthorizedAddress
  | errDecode | errSignature | errVerify | ErrFutureBlock

section \<open>Message sets\<close>

record messageSet =
  ms_valSet :: ValidatorSet
  ms_messages :: "(address \<times> message) list"

definition newMessageSet :: "ValidatorSet \<Rightarrow> messageSet" where
  "newMessageSet valSet = \<lparr> ms_valSet = valSet, ms_messages = [] \<rparr>"

definition ms_verify :: "messageSet \<Rightarrow> message \<Rightarrow> coreError option" where
  "ms_verify ms msg = (if vs_GetByAddress (ms_valSet ms) (m_Address msg) = None then Some ErrUnauthorizedAddress else None)"

definition ms_Add :: "messageSet \<Rightarrow> message \<Rightarrow> messageSet \<times> coreError option" where
  "ms_Add ms msg =
     (case ms_verify ms msg of
        Some e \<Rightarrow> (ms, Some e)
      | None \<Rightarrow> (ms\<lparr> ms_messages := AList.update (m_Address msg) msg (ms_messages ms) \<rparr>, None))"

definition ms_Values :: "messageSet \<Rightarrow> message list" where
  "ms_Values ms = map snd (ms_messages ms)"

definition ms_Size :: "messageSet \<Rightarrow> nat" where
  "ms_Size ms = length (ms_messages ms)"

definition ms_Get :: "messageSet \<Rightarrow> address \<Rightarrow> message option" where
  "ms_Get ms a = map_of (ms_messages ms) a"

section \<open>Round state\<close>

record roundState =
  rs_round :: int
  rs_sequence :: int
  rs_Preprepare :: "Preprepare option"
  rs_Prepares :: messageSet
  rs_Commits :: messageSet
  rs_lockedHash :: hash
  rs_pendingRequest :: "Proposal option"

definition newRoundState ::
    "View \<Rightarrow> ValidatorSet \<Rightarrow> hash \<Rightarrow> Preprepare option \<Rightarrow> Proposal option \<Rightarrow> roundState" where
  "newRoundState view validatorSet lockedHash preprepare pendingRequest =
     \<lparr> rs_round = view_Round view, rs_sequence = view_Sequence view, rs_Preprepare = preprepare,
       rs_Prepares = newMessageSet validatorSet, rs_Commits = newMessageSet validatorSet,
       rs_lockedHash = lockedHash, rs_pendingRequest = pendingRequest \<rparr>"

definition GetPrepareOrCommitSize :: "roundState \<Rightarrow> nat" where
  "GetPrepareOrCommitSize s =
     ms_Size (rs_Prepares s) + ms_Size (rs_Commits s)
     - length (filter (\<lambda>m. ms_Get (rs_Commits s) (m_Address m) \<noteq> None) (ms_Values (rs_Prepares s)))"

definition rs_Subject :: "roundState \<Rightarrow> Subject option" where
  "rs_Subject s =
     map_option (\<lambda>pp. \<lparr> sub_View = \<lparr> view_Round = rs_round s, view_Sequence = rs_sequence s \<rparr>,
        sub_Digest = p_Hash (pp_Proposal pp), sub_PrevHash = p_ParentHash (pp_Proposal pp) \<rparr>) (rs_Preprepare s)"

definition SetPreprepare :: "Preprepare \<Rightarrow> roundState \<Rightarrow> roundState" where
  "SetPreprepare pp s = s\<lparr> rs_Preprepare := Some pp \<rparr>"

definition rs_Proposal :: "roundState \<Rightarrow> Proposal option" where
  "rs_Proposal s = map_option pp_Proposal (rs_Preprepare s)"

definition LockHash :: "roundState \<Rightarrow> roundState" where
  "LockHash s = (case rs_Preprepare s of None \<Rightarrow> s | Some pp \<Rightarrow> s\<lparr> rs_lockedHash := p_Hash (pp_Proposal pp) \<rparr>)"

definition UnlockHash :: "roundState \<Rightarrow> roundState" where
  "UnlockHash s = s\<lparr> rs_lockedHash := 0 \<rparr>"

definition IsHashLocked :: "(hash \<Rightarrow> bool) \<Rightarrow> roundState \<Rightarrow> bool" where
  "IsHashLocked hasBadProposal s \<longleftrightarrow> rs_lockedHash s \<noteq> 0 \<and> \<not> hasBadProposal (rs_lockedHash s)"

definition currentView :: "roundState \<Rightarrow> View" where
  "currentView s = \<lparr> view_Round = rs_round s, view_Sequence = rs_sequence s \<rparr>"

section \<open>Round change set\<close>

record roundChangeSet =
  rcs_validatorSet :: ValidatorSet
  rcs_roundChanges :: "(u64 \<times> messageSet) list"

definition newRoundChangeSet :: "ValidatorSet \<Rightarrow> roundChangeSet" where
  "newRoundChangeSet valSet = \<lparr> rcs_validatorSet = valSet, rcs_roundChanges = [] \<rparr>"

text \<open>An empty set for the round stays behind when the message is rejected.\<close>

definition rcs_Add :: "int \<Rightarrow> message \<Rightarrow> roundChangeSet \<Rightarrow> roundChangeSet \<times> (coreError + nat)" where
  "rcs_Add r msg rcs =
     (let rnd = big_Uint64 r;
          ms = (case map_of (rcs_roundChanges rcs) rnd of None \<Rightarrow> newMessageSet (rcs_validatorSet rcs) | Some ms \<Rightarrow> ms);
          (ms', err) = ms_Add ms msg
      in (rcs\<lparr> rcs_roundChanges := AList.update rnd ms' (rcs_roundChanges rcs) \<rparr>,
          (case err of Some e \<Rightarrow> Inl e | None \<Rightarrow> Inr (ms_Size ms'))))"

definition rcs_Clear :: "int \<Rightarrow> roundChangeSet \<Rightarrow> roundChangeSet" where
  "rcs_Clear r rcs =
     rcs\<lparr> rcs_roundChanges :=
        filter (\<lambda>(k, rms). \<not> (ms_Values rms = [] \<or> k < big_Uint64 r)) (rcs_roundChanges rcs) \<rparr>"

fun max_round :: "int \<Rightarrow> (u64 \<times> messageSet) list \<Rightarrow> int option \<Rightarrow> int option" where
  "max_round num [] maxRound = maxRound"
| "max_round num ((k, rms) # rest) maxRound =
     max_round num rest
       (if int (ms_Size rms) < num then maxRound
        else case maxRound of None \<Rightarrow> Some (sint k) | Some m \<Rightarrow> if m < sint k then Some (sint k) else Some m)"

definition rcs_MaxRound :: "int \<Rightarrow> roundChangeSet \<Rightarrow> int option" where
  "rcs_MaxRound num rcs = max_round num (rcs_roundChanges rcs) None"

section \<open>The engine\<close>

datatype verifyResult = VerifyOk | VerifyFuture | VerifyFailed

record istanbulEnv =
  be_val :: valEnv
  be_consensusNode :: bool
  be_LastProposal :: "(Proposal \<times> address) option"
  be_Validators :: "Proposal \<Rightarrow> ValidatorSet"
  be_ParentValidators :: "Proposal \<Rightarrow> ValidatorSet"
  be_GetProposer :: "u64 \<Rightarrow> address"
  be_HasPropsal :: "hash \<Rightarrow> int \<Rightarrow> bool"
  be_HasBadProposal :: "hash \<Rightarrow> bool"
  be_Verify :: "Proposal \<Rightarrow> verifyResult"
  be_Commit :: "Proposal \<Rightarrow> bytes list \<Rightarrow> bool"
  be_Sign :: "bytes \<Rightarrow> bytes option"
  be_PayloadNoSig :: "message \<Rightarrow> bytes"
  be_Signer :: "message \<Rightarrow> address option"
  be_Timeout :: u64

text \<open>The calls on the backend and the event mux. \<open>BroadcastOld\<close> is the broadcast of \<open>sendCommitForOldBlock\<close>.\<close>

datatype coreOut =
    Broadcast hash message
  | BroadcastOld hash message
  | CommitBlock Proposal "bytes list"
  | PostBacklog address message hash
  | PostBacklogLater address message hash
  | PostRequest Proposal
  | SetCurrentView View
  | SetTimer View u64
  | GossipSubPeer hash message

record core =
  c_address :: address
  c_state :: State
  c_valSet :: "ValidatorSet option"
  c_waitingForRoundChange :: bool
  c_backlogs :: "(address \<times> message sstack) list"
  c_current :: "roundState option"
  c_roundChangeSet :: "roundChangeSet option"
  c_pendingRequests :: "Proposal sstack"
  c_outbox :: "coreOut list"

definition core_New :: "address \<Rightarrow> core" where
  "core_New addr = \<lparr> c_address = addr, c_state = StateAcceptRequest, c_valSet = None,
     c_waitingForRoundChange = False, c_backlogs = [], c_current = None, c_roundChangeSet = None,
     c_pendingRequests = prque_New, c_outbox = [] \<rparr>"

definition emit :: "coreOut list \<Rightarrow> core \<Rightarrow> core" where
  "emit os c = c\<lparr> c_outbox := c_outbox c @ os \<rparr>"

definition set_current :: "roundState \<Rightarrow> core \<Rightarrow> core" where
  "set_current rs c = c\<lparr> c_current := Some rs \<rparr>"

definition hash_Bytes :: "hash \<Rightarrow> bytes" where
  "hash_Bytes h = map (\<lambda>i. word_of_int (uint h div 2 ^ (8 * (31 - i)))) [0..<32]"

definition PrepareCommittedSeal :: "hash \<Rightarrow> bytes" where
  "PrepareCommittedSeal h = hash_Bytes h @ [ucast msgCommit]"

text \<open>The inner \<open>None\<close> is a signing error, after which nothing is sent.\<close>

definition finalizeMessage :: "istanbulEnv \<Rightarrow> message \<Rightarrow> core \<Rightarrow> message option option" where
  "finalizeMessage env msg c = do {
     seal \<leftarrow> (if m_Code msg = msgCommit
             then do { rs \<leftarrow> c_current c;
                       Some (case rs_Proposal rs of
                               None \<Rightarrow> Some []
                             | Some p \<Rightarrow> be_Sign env (PrepareCommittedSeal (p_Hash p))) }
             else Some (Some []));
     Some (case seal of
             None \<Rightarrow> None
           | Some sl \<Rightarrow>
               let m = msg\<lparr> m_Address := c_address c, m_CommittedSeal := sl, m_Signature := [] \<rparr>
               in map_option (\<lambda>sig. m\<lparr> m_Signature := sig \<rparr>) (be_Sign env (be_PayloadNoSig env m))) }"

definition broadcast_as ::
    "(hash \<Rightarrow> message \<Rightarrow> coreOut) \<Rightarrow> istanbulEnv \<Rightarrow> hash \<Rightarrow> u64 \<Rightarrow> payload \<Rightarrow> core \<Rightarrow> core option" where
  "broadcast_as out env h code pl c = do {
     res \<leftarrow> finalizeMessage env
       \<lparr> m_Hash = h, m_Code = code, m_Msg = pl, m_Address = 0, m_Signature = [], m_CommittedSeal = [] \<rparr> c;
     Some (case res of None \<Rightarrow> c | Some m \<Rightarrow> emit [out h m] c) }"

abbreviation broadcast :: "istanbulEnv \<Rightarrow> hash \<Rightarrow> u64 \<Rightarrow> payload \<Rightarrow> core \<Rightarrow> core option" where
  "broadcast \<equiv> broadcast_as Broadcast"

definition isProposer :: "core \<Rightarrow> bool option" where
  "isProposer c = (case c_valSet c of None \<Rightarrow> Some False | Some v \<Rightarrow> vs_IsProposer v (c_address c))"

text \<open>Comparison of a message's view with the round state; the answer is the error.\<close>

definition checkMessage :: "core \<Rightarrow> roundState \<Rightarrow> u64 \<Rightarrow> View \<Rightarrow> coreError option" where
  "checkMessage c rs msgCode view =
     (if msgCode = msgRoundChange
      then if view_Sequence view > rs_sequence rs then Some errFutureMessage
           else if View_Cmp view (currentView rs) < 0 then Some errOldMessage
           else None
      else if View_Cmp view (currentView rs) > 0 then Some errFutureMessage
      else if View_Cmp view (currentView rs) < 0 then Some errOldMessage
      else if c_waitingForRoundChange c then Some errFutureMessage
      else if c_state c = StateAcceptRequest
      then if msgCode > msgPreprepare then Some errFutureMessage else None
      else None)"

section \<open>Requests and backlog\<close>

text \<open>The loops of \<open>processBacklog\<close> and \<open>processPendingRequests\<close>: pop the queue until it is empty or its first
  element is a future message, which is pushed back; the others are posted or dropped.\<close>

datatype verdict = VPost | VSkip | VFuture | VPanic

fun drain ::
    "('q \<Rightarrow> 'v \<Rightarrow> u64 \<Rightarrow> 'q) \<Rightarrow> ('q \<Rightarrow> (('v \<times> u64) \<times> 'q) option) \<Rightarrow> ('q \<Rightarrow> bool) \<Rightarrow>
     ('v \<Rightarrow> verdict) \<Rightarrow> nat \<Rightarrow> 'q \<Rightarrow> ('v list \<times> 'q) option" where
  "drain push pop isEmpty judge 0 q = (if isEmpty q then Some ([], q) else None)"
| "drain push pop isEmpty judge (Suc n) q =
     (if isEmpty q then Some ([], q)
      else do {
        ((v, prio), q') \<leftarrow> pop q;
        (case judge v of
           VPanic \<Rightarrow> None
         | VFuture \<Rightarrow> Some ([], push q' v prio)
         | VSkip \<Rightarrow> drain push pop isEmpty judge n q'
         | VPost \<Rightarrow> do { (vs, q'') \<leftarrow> drain push pop isEmpty judge n q'; Some (v # vs, q'') }) })"

definition prque_drain :: "('v \<Rightarrow> verdict) \<Rightarrow> 'v sstack \<Rightarrow> ('v list \<times> 'v sstack) option" where
  "prque_drain judge q = drain prque_Push prque_Pop prque_Empty judge (prque_Size q) q"

definition checkRequestMsg :: "roundState \<Rightarrow> Proposal option \<Rightarrow> coreError option" where
  "checkRequestMsg rs request =
     (case request of
        None \<Rightarrow> Some errInvalidMessage
      | Some p \<Rightarrow> if rs_sequence rs > p_Number p then Some errOldMessage
                  else if rs_sequence rs < p_Number p then Some errFutureMessage
                  else None)"

definition storeRequestMsg :: "Proposal \<Rightarrow> core \<Rightarrow> core" where
  "storeRequestMsg p c =
     c\<lparr> c_pendingRequests := prque_Push (c_pendingRequests c) p (- word_of_int (p_Number p)) \<rparr>"

definition judge_request :: "roundState \<Rightarrow> Proposal \<Rightarrow> verdict" where
  "judge_request rs p =
     (case checkRequestMsg rs (Some p) of
        None \<Rightarrow> VPost
      | Some e \<Rightarrow> if e = errFutureMessage then VFuture else VSkip)"

definition processPendingRequests :: "core \<Rightarrow> core option" where
  "processPendingRequests c =
     (if prque_Empty (c_pendingRequests c) then Some c
      else do {
        rs \<leftarrow> c_current c;
        (ps, q) \<leftarrow> prque_drain (judge_request rs) (c_pendingRequests c);
        Some (emit (map PostRequest ps) (c\<lparr> c_pendingRequests := q \<rparr>)) })"

definition msgPriority :: "u64 \<Rightarrow> u64" where
  "msgPriority code = (if code = msgPreprepare then 1 else if code = msgCommit then 2
                       else if code = msgPrepare then 3 else 0)"

definition toPriority :: "u64 \<Rightarrow> View \<Rightarrow> u64" where
  "toPriority msgCode view =
     (if msgCode = msgRoundChange then - (big_Uint64 (view_Sequence view) * 1000)
      else - (big_Uint64 (view_Sequence view) * 1000 + big_Uint64 (view_Round view) * 10 + msgPriority msgCode))"

text \<open>The view and the parent hash a stored message carries.\<close>

definition backlog_view :: "message \<Rightarrow> (View \<times> hash) option" where
  "backlog_view msg =
     (if m_Code msg = msgPreprepare
      then map_option (\<lambda>pp. (pp_View pp, p_ParentHash (pp_Proposal pp))) (decode_Preprepare (m_Msg msg))
      else map_option (\<lambda>sub. (sub_View sub, sub_PrevHash sub)) (decode_Subject (m_Msg msg)))"

definition storeBacklog :: "message \<Rightarrow> Validator \<Rightarrow> core \<Rightarrow> core" where
  "storeBacklog msg src c =
     (if val_Address src = c_address c then c
      else
        let backlog = (case map_of (c_backlogs c) (val_Address src) of None \<Rightarrow> prque_New | Some q \<Rightarrow> q);
            backlog' = (case backlog_view msg of
                          None \<Rightarrow> backlog
                        | Some (view, _) \<Rightarrow> prque_Push backlog msg (toPriority (m_Code msg) view))
        in c\<lparr> c_backlogs := AList.update (val_Address src) backlog' (c_backlogs c) \<rparr>)"

text \<open>Reading the parent hash of a message that does not decode dereferences a nil pointer.\<close>

definition judge_backlog :: "core \<Rightarrow> roundState \<Rightarrow> message \<Rightarrow> verdict" where
  "judge_backlog c rs msg =
     (case backlog_view msg of
        None \<Rightarrow> VPanic
      | Some (view, _) \<Rightarrow>
          (case checkMessage c rs (m_Code msg) view of
             None \<Rightarrow> VPost
           | Some e \<Rightarrow> if e = errFutureMessage then VFuture else VSkip))"

definition backlog_event :: "address \<Rightarrow> message \<Rightarrow> coreOut" where
  "backlog_event src msg = PostBacklog src msg (case backlog_view msg of None \<Rightarrow> 0 | Some (_, prevHash) \<Rightarrow> prevHash)"

fun process_backlogs ::
    "(message \<Rightarrow> verdict) \<Rightarrow> (address \<times> message sstack) list \<Rightarrow>
     (coreOut list \<times> (address \<times> message sstack) list) option" where
  "process_backlogs judge [] = Some ([], [])"
| "process_backlogs judge ((src, q) # rest) = do {
     (ms, q') \<leftarrow> prque_drain judge q;
     (outs, rest') \<leftarrow> process_backlogs judge rest;
     Some (map (backlog_event src) ms @ outs, (src, q') # rest') }"

definition processBacklog :: "core \<Rightarrow> core option" where
  "processBacklog c =
     (if c_backlogs c = [] then Some c
      else do {
        rs \<leftarrow> c_current c;
        (outs, bs) \<leftarrow> process_backlogs (judge_backlog c rs) (c_backlogs c);
        Some (emit outs (c\<lparr> c_backlogs := bs \<rparr>)) })"

definition setState :: "State \<Rightarrow> core \<Rightarrow> core option" where
  "setState st c = do {
     c1 \<leftarrow> (if st = StateAcceptRequest then processPendingRequests (c\<lparr> c_state := st \<rparr>)
           else Some (c\<lparr> c_state := st \<rparr>));
     processBacklog c1 }"

section \<open>Rounds\<close>

text \<open>The timeout of a round in nanoseconds: \<open>math.Pow(2, round)\<close> is exact, the multiplication by a second wraps
  around; from round 63 on the conversion to an integer gives the least 64-bit integer (on amd64).\<close>

definition round_timeout :: "u64 \<Rightarrow> u64 \<Rightarrow> u64" where
  "round_timeout base rnd =
     base * 1000000 + (if rnd > 0 then (if rnd < 63 then 2 ^ unat rnd else 2 ^ 63) * 1000000000 else 0)"

definition newRoundChangeTimer :: "istanbulEnv \<Rightarrow> core \<Rightarrow> core option" where
  "newRoundChangeTimer env c = do {
     rs \<leftarrow> c_current c;
     _ \<leftarrow> c_valSet c;
     Some (emit [SetTimer \<lparr> view_Round = rs_round rs + 1, view_Sequence = rs_sequence rs \<rparr>
                   (round_timeout (be_Timeout env) (big_Uint64 (rs_round rs)))] c) }"

definition updateRoundState :: "istanbulEnv \<Rightarrow> View \<Rightarrow> ValidatorSet \<Rightarrow> bool \<Rightarrow> core \<Rightarrow> core" where
  "updateRoundState env view validatorSet roundChange c =
     set_current
       (case (roundChange, c_current c) of
          (True, Some rs) \<Rightarrow>
            if IsHashLocked (be_HasBadProposal env) rs
            then newRoundState view validatorSet (rs_lockedHash rs) (rs_Preprepare rs) (rs_pendingRequest rs)
            else newRoundState view validatorSet 0 None (rs_pendingRequest rs)
        | _ \<Rightarrow> newRoundState view validatorSet 0 None None) c"

definition catchUpRound :: "istanbulEnv \<Rightarrow> View \<Rightarrow> core \<Rightarrow> core option" where
  "catchUpRound env view c = do {
     _ \<leftarrow> c_current c;
     valSet \<leftarrow> c_valSet c;
     rcs \<leftarrow> c_roundChangeSet c;
     let c1 = updateRoundState env view valSet True (c\<lparr> c_waitingForRoundChange := True \<rparr>);
     newRoundChangeTimer env (c1\<lparr> c_roundChangeSet := Some (rcs_Clear (view_Round view) rcs) \<rparr>) }"

definition sendRoundChange :: "istanbulEnv \<Rightarrow> int \<Rightarrow> core \<Rightarrow> core option" where
  "sendRoundChange env rnd c = do {
     rs \<leftarrow> c_current c;
     (if rs_round rs \<ge> rnd then Some c
      else do {
        c1 \<leftarrow> catchUpRound env \<lparr> view_Round = rnd, view_Sequence = rs_sequence rs \<rparr> c;
        (lastProposal, _) \<leftarrow> be_LastProposal env;
        rs1 \<leftarrow> c_current c1;
        broadcast env (p_Hash lastProposal) msgRoundChange
          (SubjectMsg \<lparr> sub_View = currentView rs1, sub_Digest = 0, sub_PrevHash = p_Hash lastProposal \<rparr>) c1 }) }"

definition sendNextRoundChange :: "istanbulEnv \<Rightarrow> core \<Rightarrow> core option" where
  "sendNextRoundChange env c =
     (if \<not> be_consensusNode env then Some c
      else do { rs \<leftarrow> c_current c; sendRoundChange env (rs_round rs + 1) c })"

text \<open>The request as the broadcast left it: its proposal carries the round of the current view.\<close>

definition sendPreprepare :: "istanbulEnv \<Rightarrow> Proposal \<Rightarrow> core \<Rightarrow> (core \<times> Proposal) option" where
  "sendPreprepare env proposal c = do {
     rs \<leftarrow> c_current c;
     let p = SetRoundToHeader (wrap_i64 (rs_round rs)) proposal;
     (if rs_sequence rs = p_Number p
      then do {
        mine \<leftarrow> isProposer c;
        (if mine
         then do {
           c1 \<leftarrow> broadcast env (p_ParentHash p) msgPreprepare
                  (PreprepareMsg \<lparr> pp_View = currentView rs, pp_Proposal = p \<rparr>) c;
           Some (c1, p) }
         else Some (c, p)) }
      else Some (c, p)) }"

definition set_pendingRequest :: "Proposal \<Rightarrow> core \<Rightarrow> core option" where
  "set_pendingRequest p c = do { rs \<leftarrow> c_current c; Some (set_current (rs\<lparr> rs_pendingRequest := Some p \<rparr>) c) }"

text \<open>\<open>startNewRound\<close> up to the choice of the view: \<open>None\<close> is the early return.\<close>

definition new_round_view :: "Proposal \<Rightarrow> int \<Rightarrow> roundState option \<Rightarrow> (View \<times> bool) option" where
  "new_round_view lastProposal rnd current =
     (let fresh = \<lparr> view_Round = 0, view_Sequence = p_Number lastProposal + 1 \<rparr>
      in case current of
           None \<Rightarrow> Some (fresh, False)
         | Some rs \<Rightarrow>
             if p_Number lastProposal \<ge> rs_sequence rs then Some (fresh, False)
             else if p_Number lastProposal = wrap_i64 (rs_sequence rs - 1)
             then if rnd = 0 then None
                  else if rnd < rs_round rs then None
                  else Some (\<lparr> view_Round = rnd, view_Sequence = rs_sequence rs \<rparr>, True)
             else None)"

definition repropose :: "istanbulEnv \<Rightarrow> core \<Rightarrow> core option" where
  "repropose env c = do {
     mine \<leftarrow> isProposer c;
     rs \<leftarrow> c_current c;
     (if \<not> mine then Some c
      else if IsHashLocked (be_HasBadProposal env) rs
      then do {
        proposal \<leftarrow> rs_Proposal rs;
        (c1, _) \<leftarrow> sendPreprepare env proposal c;
        Some c1 }
      else case rs_pendingRequest rs of
             None \<Rightarrow> Some c
           | Some p \<Rightarrow> do { (c1, p') \<leftarrow> sendPreprepare env p c; set_pendingRequest p' c1 }) }"

definition enter_round ::
    "istanbulEnv \<Rightarrow> Proposal \<Rightarrow> address \<Rightarrow> View \<Rightarrow> bool \<Rightarrow> core \<Rightarrow> core option" where
  "enter_round env lastProposal lastProposer newView roundChange c = do {
     valSet \<leftarrow> (if roundChange then c_valSet c else Some (be_Validators env lastProposal));
     let c1 = emit [SetCurrentView newView]
                (c\<lparr> c_valSet := Some valSet, c_roundChangeSet := Some (newRoundChangeSet valSet) \<rparr>);
     let c2 = updateRoundState env newView valSet roundChange c1;
     valSet' \<leftarrow> vs_CalcProposer (be_val env) lastProposer (big_Uint64 (view_Round newView)) valSet;
     c3 \<leftarrow> setState StateAcceptRequest (c2\<lparr> c_valSet := Some valSet', c_waitingForRoundChange := False \<rparr>);
     c4 \<leftarrow> (if roundChange then repropose env c3 else Some c3);
     newRoundChangeTimer env c4 }"

definition startNewRound :: "istanbulEnv \<Rightarrow> int \<Rightarrow> core \<Rightarrow> core option" where
  "startNewRound env rnd c = do {
     (lastProposal, lastProposer) \<leftarrow> be_LastProposal env;
     (case new_round_view lastProposal rnd (c_current c) of
        None \<Rightarrow> Some c
      | Some (newView, roundChange) \<Rightarrow> enter_round env lastProposal lastProposer newView roundChange c) }"

section \<open>Votes\<close>

definition sendPrepare :: "istanbulEnv \<Rightarrow> core \<Rightarrow> core option" where
  "sendPrepare env c = do {
     rs \<leftarrow> c_current c;
     sub \<leftarrow> rs_Subject rs;
     valSet \<leftarrow> c_valSet c;
     member \<leftarrow> vs_CheckInSubList (be_val env) valSet (sub_PrevHash sub) (sub_View sub) (c_address c);
     (if member then broadcast env (sub_PrevHash sub) msgPrepare (SubjectMsg sub) c else Some c) }"

definition broadcastCommit :: "(hash \<Rightarrow> message \<Rightarrow> coreOut) \<Rightarrow> istanbulEnv \<Rightarrow> Subject \<Rightarrow> core \<Rightarrow> core option" where
  "broadcastCommit out env sub c = broadcast_as out env (sub_PrevHash sub) msgCommit (SubjectMsg sub) c"

definition sendCommit :: "istanbulEnv \<Rightarrow> core \<Rightarrow> core option" where
  "sendCommit env c = do {
     rs \<leftarrow> c_current c;
     (case rs_Subject rs of
        None \<Rightarrow> Some c
      | Some sub \<Rightarrow> do {
          valSet \<leftarrow> c_valSet c;
          member \<leftarrow> vs_CheckInSubList (be_val env) valSet (sub_PrevHash sub) (sub_View sub) (c_address c);
          (if member then broadcastCommit Broadcast env sub c else Some c) }) }"

definition sendCommitForOldBlock :: "istanbulEnv \<Rightarrow> View \<Rightarrow> hash \<Rightarrow> hash \<Rightarrow> core \<Rightarrow> core option" where
  "sendCommitForOldBlock env view digest prevHash c =
     broadcastCommit BroadcastOld env \<lparr> sub_View = view, sub_Digest = digest, sub_PrevHash = prevHash \<rparr> c"

definition seal_of :: "bytes \<Rightarrow> bytes" where
  "seal_of s = take 65 s @ replicate (65 - length s) 0"

definition core_commit :: "istanbulEnv \<Rightarrow> core \<Rightarrow> core option" where
  "core_commit env c0 = do {
     c \<leftarrow> setState StateCommitted c0;
     rs \<leftarrow> c_current c;
     (case rs_Proposal rs of
        Some proposal \<Rightarrow>
          let committedSeals = map (\<lambda>m. seal_of (m_CommittedSeal m)) (ms_Values (rs_Commits rs));
              c1 = emit [CommitBlock proposal committedSeals] c
          in if be_Commit env proposal committedSeals then Some c1
             else sendNextRoundChange env (set_current (UnlockHash rs) c1)
      | None \<Rightarrow> sendNextRoundChange env (set_current (UnlockHash rs) c)) }"

section \<open>Handlers\<close>

type_synonym handled = "(core \<times> coreError option) option"

definition handleRequest :: "istanbulEnv \<Rightarrow> Proposal option \<Rightarrow> core \<Rightarrow> handled" where
  "handleRequest env request c = do {
     rs \<leftarrow> c_current c;
     (case checkRequestMsg rs request of
        Some e \<Rightarrow> Some (c, Some e)
      | None \<Rightarrow> do {
          p \<leftarrow> request;
          c1 \<leftarrow> set_pendingRequest p c;
          (if c_state c1 = StateAcceptRequest
           then do { (c2, p') \<leftarrow> sendPreprepare env p c1; c3 \<leftarrow> set_pendingRequest p' c2; Some (c3, None) }
           else Some (c1, None)) }) }"

definition acceptPreprepare :: "Preprepare \<Rightarrow> core \<Rightarrow> core option" where
  "acceptPreprepare pp c = do { rs \<leftarrow> c_current c; Some (set_current (SetPreprepare pp rs) c) }"

text \<open>An old PRE-PREPARE of a block the node already has is answered with a COMMIT.\<close>

definition handle_old_preprepare :: "istanbulEnv \<Rightarrow> Preprepare \<Rightarrow> Validator \<Rightarrow> core \<Rightarrow> handled" where
  "handle_old_preprepare env pp src c =
     (let proposal = pp_Proposal pp;
          valSet = vs_Copy (be_val env) (be_ParentValidators env proposal);
          previousProposer = be_GetProposer env (big_Uint64 (p_Number proposal) - 1)
      in do {
        valSet' \<leftarrow> vs_CalcProposer (be_val env) previousProposer (big_Uint64 (view_Round (pp_View pp))) valSet;
        fromProposer \<leftarrow> vs_IsProposer valSet' (val_Address src);
        (if fromProposer \<and> be_HasPropsal env (p_Hash proposal) (p_Number proposal)
         then do {
           c1 \<leftarrow> sendCommitForOldBlock env (pp_View pp) (p_Hash proposal) (p_ParentHash proposal) c;
           Some (c1, None) }
         else Some (c, Some errOldMessage)) })"

text \<open>The locked proposal is given the round of the current view before the hashes are compared.\<close>

definition refresh_locked_proposal :: "roundState \<Rightarrow> roundState option" where
  "refresh_locked_proposal rs = do {
     pp \<leftarrow> rs_Preprepare rs;
     Some (rs\<lparr> rs_Preprepare :=
       Some (pp\<lparr> pp_Proposal := SetRoundToHeader (wrap_i64 (rs_round rs)) (pp_Proposal pp) \<rparr>) \<rparr>) }"

definition accept_proposal :: "istanbulEnv \<Rightarrow> Preprepare \<Rightarrow> core \<Rightarrow> core option" where
  "accept_proposal env pp c = do {
     rs \<leftarrow> c_current c;
     (if IsHashLocked (be_HasBadProposal env) rs
      then do {
        rs1 \<leftarrow> refresh_locked_proposal rs;
        let c1 = set_current rs1 c;
        (if p_Hash (pp_Proposal pp) = rs_lockedHash rs1
         then do {
           c2 \<leftarrow> acceptPreprepare pp c1;
           c3 \<leftarrow> setState StatePrepared c2;
           sendCommit env c3 }
         else sendNextRoundChange env c1) }
      else do {
        c1 \<leftarrow> acceptPreprepare pp c;
        c2 \<leftarrow> setState StatePreprepared c1;
        sendPrepare env c2 }) }"

definition handlePreprepare :: "istanbulEnv \<Rightarrow> message \<Rightarrow> Validator \<Rightarrow> core \<Rightarrow> handled" where
  "handlePreprepare env msg src c =
     (case decode_Preprepare (m_Msg msg) of
        None \<Rightarrow> Some (c, Some errInvalidMessage)
      | Some pp \<Rightarrow> do {
          rs \<leftarrow> c_current c;
          (case checkMessage c rs msgPreprepare (pp_View pp) of
             Some e \<Rightarrow> if e = errOldMessage then handle_old_preprepare env pp src c else Some (c, Some e)
           | None \<Rightarrow> do {
               valSet \<leftarrow> c_valSet c;
               fromProposer \<leftarrow> vs_IsProposer valSet (val_Address src);
               (if \<not> fromProposer then Some (c, Some errNotFromProposer)
                else case be_Verify env (pp_Proposal pp) of
                  VerifyFuture \<Rightarrow> Some (emit [PostBacklogLater (val_Address src) msg (m_Hash msg)] c, Some ErrFutureBlock)
                | VerifyFailed \<Rightarrow> do { c1 \<leftarrow> sendNextRoundChange env c; Some (c1, Some errVerify) }
                | VerifyOk \<Rightarrow>
                    if c_state c = StateAcceptRequest
                    then do { c1 \<leftarrow> accept_proposal env pp c; Some (c1, None) }
                    else Some (c, None)) }) })"

text \<open>\<open>acceptPrepare\<close> and \<open>acceptCommit\<close> log the error of the message set and the caller ignores it.\<close>

definition acceptPrepare :: "message \<Rightarrow> core \<Rightarrow> core option" where
  "acceptPrepare msg c = do {
     rs \<leftarrow> c_current c;
     Some (set_current (rs\<lparr> rs_Prepares := fst (ms_Add (rs_Prepares rs) msg) \<rparr>) c) }"

definition acceptCommit :: "message \<Rightarrow> core \<Rightarrow> core option" where
  "acceptCommit msg c = do {
     rs \<leftarrow> c_current c;
     Some (set_current (rs\<lparr> rs_Commits := fst (ms_Add (rs_Commits rs) msg) \<rparr>) c) }"

definition enter_prepared :: "istanbulEnv \<Rightarrow> hash \<Rightarrow> core \<Rightarrow> core option" where
  "enter_prepared env digest c = do {
     rs \<leftarrow> c_current c;
     valSet \<leftarrow> c_valSet c;
     (if c_state c < StatePrepared
      then if IsHashLocked (be_HasBadProposal env) rs \<and> digest = rs_lockedHash rs
           then do { c1 \<leftarrow> setState StatePrepared c; sendCommit env c1 }
           else if GetPrepareOrCommitSize rs \<ge> RequiredMessageCount valSet
           then do { c1 \<leftarrow> setState StatePrepared (set_current (LockHash rs) c); sendCommit env c1 }
           else Some c
      else Some c) }"

definition handlePrepare :: "istanbulEnv \<Rightarrow> message \<Rightarrow> Validator \<Rightarrow> core \<Rightarrow> handled" where
  "handlePrepare env msg src c =
     (case decode_Subject (m_Msg msg) of
        None \<Rightarrow> Some (c, Some errInvalidMessage)
      | Some prepare \<Rightarrow> do {
          rs \<leftarrow> c_current c;
          (case checkMessage c rs msgPrepare (sub_View prepare) of
             Some e \<Rightarrow> Some (c, Some e)
           | None \<Rightarrow>
               if \<not> Subject_Equal (Some prepare) (rs_Subject rs) then Some (c, Some errInconsistentSubject)
               else do {
                 valSet \<leftarrow> c_valSet c;
                 member \<leftarrow> vs_CheckInSubList (be_val env) valSet (m_Hash msg) (sub_View prepare) (val_Address src);
                 (if \<not> member then Some (c, Some errNotFromCommittee)
                  else do {
                    c1 \<leftarrow> acceptPrepare msg c;
                    c2 \<leftarrow> enter_prepared env (sub_Digest prepare) c1;
                    Some (c2, None) }) }) })"

definition commit_if_quorum :: "istanbulEnv \<Rightarrow> core \<Rightarrow> core option" where
  "commit_if_quorum env c = do {
     rs \<leftarrow> c_current c;
     valSet \<leftarrow> c_valSet c;
     (if c_state c < StateCommitted \<and> ms_Size (rs_Commits rs) \<ge> RequiredMessageCount valSet
      then core_commit env (set_current (LockHash rs) c)
      else Some c) }"

definition handleCommit :: "istanbulEnv \<Rightarrow> message \<Rightarrow> Validator \<Rightarrow> core \<Rightarrow> handled" where
  "handleCommit env msg src c =
     (case decode_Subject (m_Msg msg) of
        None \<Rightarrow> Some (c, Some errInvalidMessage)
      | Some commit \<Rightarrow> do {
          rs \<leftarrow> c_current c;
          (case checkMessage c rs msgCommit (sub_View commit) of
             Some e \<Rightarrow> Some (c, Some e)
           | None \<Rightarrow>
               if \<not> Subject_Equal (Some commit) (rs_Subject rs) then Some (c, Some errInconsistentSubject)
               else do {
                 valSet \<leftarrow> c_valSet c;
                 member \<leftarrow> vs_CheckInSubList (be_val env) valSet (m_Hash msg) (sub_View commit) (val_Address src);
                 (if \<not> member then Some (c, Some errNotFromCommittee)
                  else do {
                    c1 \<leftarrow> acceptCommit msg c;
                    c2 \<leftarrow> enter_prepared env (sub_Digest commit) c1;
                    c3 \<leftarrow> commit_if_quorum env c2;
                    Some (c3, None) }) }) })"

definition handleRoundChange :: "istanbulEnv \<Rightarrow> message \<Rightarrow> core \<Rightarrow> handled" where
  "handleRoundChange env msg c =
     (case decode_Subject (m_Msg msg) of
        None \<Rightarrow> Some (c, Some errInvalidMessage)
      | Some rc \<Rightarrow> do {
          rs \<leftarrow> c_current c;
          (case checkMessage c rs msgRoundChange (sub_View rc) of
             Some e \<Rightarrow> Some (c, Some e)
           | None \<Rightarrow> do {
               valSet \<leftarrow> c_valSet c;
               rcs \<leftarrow> c_roundChangeSet c;
               let rnd = view_Round (sub_View rc);
               let added = rcs_Add rnd msg rcs;
               let c1 = c\<lparr> c_roundChangeSet := Some (fst added) \<rparr>;
               (case snd added of
                  Inl e \<Rightarrow> Some (c1, Some e)
                | Inr num \<Rightarrow>
                    if num = RequiredMessageCount valSet \<and> (c_waitingForRoundChange c1 \<or> rs_round rs < rnd)
                    then do { c2 \<leftarrow> startNewRound env rnd c1; Some (c2, None) }
                    else if c_waitingForRoundChange c1 \<and> int num = vs_F valSet + 1
                    then if rs_round rs < rnd
                         then do { c2 \<leftarrow> sendRoundChange env rnd c1; Some (c2, None) }
                         else Some (c1, None)
                    else if rs_round rs < rnd then Some (c1, Some errIgnored)
                    else Some (c1, None)) }) })"

definition handle_by_code :: "istanbulEnv \<Rightarrow> message \<Rightarrow> Validator \<Rightarrow> core \<Rightarrow> handled" where
  "handle_by_code env msg src c =
     (if m_Code msg = msgPreprepare then handlePreprepare env msg src c
      else if m_Code msg = msgPrepare then handlePrepare env msg src c
      else if m_Code msg = msgCommit then handleCommit env msg src c
      else if m_Code msg = msgRoundChange then handleRoundChange env msg c
      else Some (c, Some errInvalidMessage))"

text \<open>A future message is stored before its error is returned.\<close>

definition handleCheckedMsg :: "istanbulEnv \<Rightarrow> message \<Rightarrow> Validator \<Rightarrow> core \<Rightarrow> handled" where
  "handleCheckedMsg env msg src c = do {
     (c1, err) \<leftarrow> handle_by_code env msg src c;
     Some (if err = Some errFutureMessage then storeBacklog msg src c1 else c1, err) }"

definition checkValidatorSignature :: "istanbulEnv \<Rightarrow> ValidatorSet \<Rightarrow> message \<Rightarrow> coreError + address" where
  "checkValidatorSignature env valSet msg =
     (case be_Signer env msg of
        None \<Rightarrow> Inl errSignature
      | Some signer \<Rightarrow>
          if vs_GetByAddress valSet signer = None then Inl ErrUnauthorizedAddress else Inr signer)"

definition FromPayload :: "istanbulEnv \<Rightarrow> ValidatorSet \<Rightarrow> message option \<Rightarrow> coreError + message" where
  "FromPayload env valSet pl =
     (case pl of
        None \<Rightarrow> Inl errDecode
      | Some msg \<Rightarrow> rbind (checkValidatorSignature env valSet msg)
                      (\<lambda>signer. if signer \<noteq> m_Address msg then Inl errInvalidSigner else Inr msg))"

definition handleMsg :: "istanbulEnv \<Rightarrow> message option \<Rightarrow> core \<Rightarrow> handled" where
  "handleMsg env pl c = do {
     valSet \<leftarrow> c_valSet c;
     (case FromPayload env valSet pl of
        Inl e \<Rightarrow> Some (c, Some e)
      | Inr msg \<Rightarrow>
          (case vs_GetByAddress valSet (m_Address msg) of
             None \<Rightarrow> Some (c, Some ErrUnauthorizedAddress)
           | Some src \<Rightarrow> handleCheckedMsg env msg src c)) }"

definition handleTimeoutMsg :: "istanbulEnv \<Rightarrow> View \<Rightarrow> core \<Rightarrow> core option" where
  "handleTimeoutMsg env nextView c =
     (if \<not> be_consensusNode env then Some c
      else case be_LastProposal env of
        None \<Rightarrow> Some c
      | Some (lastProposal, _) \<Rightarrow>
          if p_Number lastProposal \<ge> view_Sequence nextView then Some c
          else do {
            rs \<leftarrow> c_current c;
            valSet \<leftarrow> c_valSet c;
            rcs \<leftarrow> c_roundChangeSet c;
            let maxRound = rcs_MaxRound (vs_F valSet + 1) rcs;
            (if \<not> c_waitingForRoundChange c \<and> maxRound \<noteq> None \<and> the maxRound > rs_round rs
             then sendRoundChange env (the maxRound) c
             else if p_Number lastProposal \<ge> rs_sequence rs then startNewRound env 0 c
             else sendRoundChange env (view_Round nextView) c) })"

definition handleFinalCommitted :: "istanbulEnv \<Rightarrow> core \<Rightarrow> core option" where
  "handleFinalCommitted env c = startNewRound env 0 c"

datatype coreEvent =
    RequestEvent "Proposal option"
  | MessageEvent hash "message option"
  | BacklogEvent address message hash
  | TimeoutEvent View
  | FinalCommittedEvent

definition gossip_if_ok :: "hash \<Rightarrow> message \<Rightarrow> core \<times> coreError option \<Rightarrow> core" where
  "gossip_if_ok h msg r = (if snd r = None then emit [GossipSubPeer h msg] (fst r) else fst r)"

text \<open>One iteration of the loop of \<open>handleEvents\<close>.\<close>

fun handleEvent :: "istanbulEnv \<Rightarrow> coreEvent \<Rightarrow> core \<Rightarrow> core option" where
  "handleEvent env (RequestEvent request) c = do {
     (c1, err) \<leftarrow> handleRequest env request c;
     Some (case request of
             Some p \<Rightarrow> if err = Some errFutureMessage then storeRequestMsg p c1 else c1
           | None \<Rightarrow> c1) }"
| "handleEvent env (MessageEvent h pl) c = do {
     r \<leftarrow> handleMsg env pl c;
     Some (case pl of None \<Rightarrow> fst r | Some msg \<Rightarrow> gossip_if_ok h msg r) }"
| "handleEvent env (BacklogEvent srcAddr msg h) c = do {
     valSet \<leftarrow> c_valSet c;
     (case vs_GetByAddress valSet srcAddr of
        None \<Rightarrow> Some c
      | Some src \<Rightarrow> do { r \<leftarrow> handleCheckedMsg env msg src c; Some (gossip_if_ok h msg r) }) }"
| "handleEvent env (TimeoutEvent nextView) c = handleTimeoutMsg env nextView c"
| "handleEvent env FinalCommittedEvent c = handleFinalCommitted env c"

definition core_Start :: "istanbulEnv \<Rightarrow> core \<Rightarrow> core option" where
  "core_Start env c = startNewRound env 0 c"

end
