(* ===== verification/Istanbul_Backlog.thy ===== *)
theory Istanbul_Backlog
  imports Istanbul_Core
begin

text \<open>
  The backlog of future messages. The loop that empties a queue until its first future message is analysed once
  over the interface \<open>priority_queue\<close>; the priorities of \<open>toPriority\<close> order messages so that everything behind
  a future message is a future message too, as long as rounds stay below 99. Hence \<open>processBacklog\<close> posts every
  message that can be handled and keeps every message that is still early.
\<close>

section \<open>Draining a queue\<close>

context priority_queue
begin

lemma drain_spec:
  assumes "wf q" "size (contents q) \<le> n" "\<forall>(v, p) \<in># contents q. judge v \<noteq> VPanic"
  shows "\<exists>vs q' E S. drain Push Pop Empty judge n q = Some (vs, q') \<and> wf q' \<and>
    contents q = E + S + contents q' \<and> image_mset fst E = mset vs \<and>
    (\<forall>(v, p) \<in># E. judge v = VPost) \<and> (\<forall>(v, p) \<in># S. judge v = VSkip) \<and>
    (contents q' \<noteq> {#} \<longrightarrow>
       (\<exists>(v, p) \<in># contents q'. judge v = VFuture \<and> (\<forall>(w, r) \<in># contents q'. sint r \<le> sint p)))"
  using assms
proof (induction n arbitrary: q)
  case 0
  then have "contents q = {#}" "Empty q" using Empty_law [of q] by simp_all
  then show ?case using 0 by (intro exI [of _ "[]"] exI [of _ q] exI [of _ "{#}"]) simp
next
  case (Suc n)
  show ?case
  proof (cases "contents q = {#}")
    case True
    then show ?thesis
      using Suc.prems Empty_law [of q] by (intro exI [of _ "[]"] exI [of _ q] exI [of _ "{#}"]) simp
  next
    case False
    then obtain v p q1 where pop: "Pop q = Some ((v, p), q1)" and q1: "wf q1" "safe p"
      "contents q = add_mset (v, p) (contents q1)" "\<forall>(w, r) \<in># contents q. sint r \<le> sint p"
      using Pop_law [OF Suc.prems(1)] by blast
    have ne: "\<not> Empty q" using False Empty_law [OF Suc.prems(1)] by simp
    have small: "size (contents q1) \<le> n" "\<forall>(v, p) \<in># contents q1. judge v \<noteq> VPanic"
      using Suc.prems(2,3) q1(3) by auto
    note IH = Suc.IH [OF q1(1) small]
    show ?thesis
    proof (cases "judge v")
      case VPost
      from IH obtain vs q' E S where
        "drain Push Pop Empty judge n q1 = Some (vs, q') \<and> wf q' \<and>
         contents q1 = E + S + contents q' \<and> image_mset fst E = mset vs \<and>
         (\<forall>(v, p) \<in># E. judge v = VPost) \<and> (\<forall>(v, p) \<in># S. judge v = VSkip) \<and>
         (contents q' \<noteq> {#} \<longrightarrow>
           (\<exists>(v, p) \<in># contents q'. judge v = VFuture \<and> (\<forall>(w, r) \<in># contents q'. sint r \<le> sint p)))"
        by blast
      then show ?thesis using VPost ne pop q1(3)
        by (intro exI [of _ "v # vs"] exI [of _ q'] exI [of _ "add_mset (v, p) E"] exI [of _ S]) simp
    next
      case VSkip
      from IH obtain vs q' E S where
        "drain Push Pop Empty judge n q1 = Some (vs, q') \<and> wf q' \<and>
         contents q1 = E + S + contents q' \<and> image_mset fst E = mset vs \<and>
         (\<forall>(v, p) \<in># E. judge v = VPost) \<and> (\<forall>(v, p) \<in># S. judge v = VSkip) \<and>
         (contents q' \<noteq> {#} \<longrightarrow>
           (\<exists>(v, p) \<in># contents q'. judge v = VFuture \<and> (\<forall>(w, r) \<in># contents q'. sint r \<le> sint p)))"
        by blast
      then show ?thesis using VSkip ne pop q1(3)
        by (intro exI [of _ vs] exI [of _ q'] exI [of _ E] exI [of _ "add_mset (v, p) S"]) simp
    next
      case VFuture
      have push: "wf (Push q1 v p)" "contents (Push q1 v p) = contents q"
        using Push_law [OF q1(1,2)] q1(3) by simp_all
      have "\<exists>(v, p) \<in># contents q. judge v = VFuture \<and> (\<forall>(w, r) \<in># contents q. sint r \<le> sint p)"
        using VFuture q1(3,4) by (intro bexI [of _ "(v, p)"]) auto
      then show ?thesis using VFuture ne pop push
        by (intro exI [of _ "[]"] exI [of _ "Push q1 v p"] exI [of _ "{#}"]) simp
    next
      case VPanic
      then show ?thesis using Suc.prems(3) q1(3) by auto
    qed
  qed
qed

end

section \<open>Priorities\<close>

definition prio_num :: "u64 \<Rightarrow> View \<Rightarrow> int" where
  "prio_num code v = view_Sequence v * 1000 +
     (if code = msgRoundChange then 0 else view_Round v * 10 + uint (msgPriority code))"

definition view_small :: "View \<Rightarrow> bool" where
  "view_small v \<longleftrightarrow> 0 \<le> view_Sequence v \<and> view_Sequence v < 2 ^ 50 \<and> 0 \<le> view_Round v \<and> view_Round v < 99"

lemma uint_msgPriority: "uint (msgPriority code) \<in> {0, 1, 2, 3}"
  by (simp add: msgPriority_def)

lemma toPriority_num:
  assumes "view_small v"
  shows "sint (toPriority code v) = - prio_num code v \<and> safe_priority (toPriority code v)"
proof -
  have pos: "\<bar>view_Sequence v\<bar> = view_Sequence v" "\<bar>view_Round v\<bar> = view_Round v"
    using assms by (simp_all add: view_small_def)
  have eq: "toPriority code v = word_of_int (- prio_num code v)"
    by (simp add: toPriority_def big_Uint64_def prio_num_def pos)
  have num: "0 \<le> prio_num code v" "prio_num code v < 2 ^ 62"
    using assms uint_msgPriority [of code] by (auto simp: prio_num_def view_small_def)
  then have "sint (word_of_int (- prio_num code v) :: u64) = - prio_num code v"
    by (simp only: signed_of_int) (simp add: signed_take_bit_int_eq_self)
  then show ?thesis using num unfolding safe_priority_def eq by simp
qed

lemma View_Cmp_cases:
  "View_Cmp v y > 0 \<longleftrightarrow> view_Sequence v > view_Sequence y \<or> view_Sequence v = view_Sequence y \<and> view_Round v > view_Round y"
  "View_Cmp v y < 0 \<longleftrightarrow> view_Sequence v < view_Sequence y \<or> view_Sequence v = view_Sequence y \<and> view_Round v < view_Round y"
  by (auto simp: View_Cmp_def Let_def sgn_if)

text \<open>Whatever comes after a future message in the order of priorities is a future message.\<close>

lemma future_downward:
  assumes "checkMessage c rs code v = Some errFutureMessage" "view_small v" "view_small w"
    and "sint (toPriority code' w) \<le> sint (toPriority code v)" "code \<in> {0, 1, 2, 3}" "code' \<in> {0, 1, 2, 3}"
  shows "checkMessage c rs code' w = Some errFutureMessage"
proof -
  have le: "prio_num code v \<le> prio_num code' w"
    using assms(4) toPriority_num [OF assms(2), of code] toPriority_num [OF assms(3), of code'] by linarith
  note small = assms(2,3) [unfolded view_small_def]
  note codes = assms(5,6)
  show ?thesis
    using assms(1) le small codes
    by (auto simp: checkMessage_def View_Cmp_cases currentView_def prio_num_def msgPriority_def msg_codes
        split: if_splits)
qed

section \<open>The backlog\<close>

definition stored_ok :: "message \<Rightarrow> u64 \<Rightarrow> bool" where
  "stored_ok m p \<longleftrightarrow> m_Code m \<in> {0, 1, 2, 3} \<and>
     (\<exists>v h. backlog_view m = Some (v, h) \<and> view_small v \<and> p = toPriority (m_Code m) v)"

definition backlog_ok :: "message sstack \<Rightarrow> bool" where
  "backlog_ok q \<longleftrightarrow> prque_wf q \<and> (\<forall>(m, p) \<in># prque_contents q. stored_ok m p)"

text \<open>What \<open>storeBacklog\<close> puts into a queue keeps it in order.\<close>

lemma storeBacklog_ok:
  assumes "\<forall>(a, q) \<in> set (c_backlogs c). backlog_ok q" "m_Code m \<in> {0, 1, 2, 3}"
    and "\<And>v h. backlog_view m = Some (v, h) \<Longrightarrow> view_small v"
  shows "\<forall>(a, q) \<in> set (c_backlogs (storeBacklog m src c)). backlog_ok q"
proof -
  define q where "q = (case map_of (c_backlogs c) (val_Address src) of None \<Rightarrow> prque_New | Some q \<Rightarrow> q)"
  define q' where "q' = (case backlog_view m of None \<Rightarrow> q | Some (v, _) \<Rightarrow> prque_Push q m (toPriority (m_Code m) v))"
  have q: "backlog_ok q"
  proof (cases "map_of (c_backlogs c) (val_Address src)")
    case None
    then show ?thesis by (simp add: q_def backlog_ok_def prque.New_law)
  next
    case (Some q0)
    then show ?thesis using assms(1) map_of_SomeD [OF Some] by (auto simp: q_def)
  qed
  have "backlog_ok q'"
  proof (cases "backlog_view m")
    case (Some vh)
    obtain v h where vh: "vh = (v, h)" by (cases vh)
    then have small: "view_small v" using assms(3) Some by simp
    then have "stored_ok m (toPriority (m_Code m) v)" using assms(2) Some vh by (simp add: stored_ok_def)
    then show ?thesis
      using q prque.Push_law [of q "toPriority (m_Code m) v" m] toPriority_num [OF small, of "m_Code m"] Some vh
      by (simp add: q'_def backlog_ok_def)
  qed (use q in \<open>simp add: q'_def\<close>)
  moreover have "c_backlogs (storeBacklog m src c) =
      (if val_Address src = c_address c then c_backlogs c else AList.update (val_Address src) q' (c_backlogs c))"
    unfolding storeBacklog_def Let_def q'_def q_def by simp
  ultimately show ?thesis
    using assms(1) alist_update_subset [of "val_Address src" q' "c_backlogs c"] by auto
qed

lemma judge_stored: "stored_ok m p \<Longrightarrow> judge_backlog c rs m \<noteq> VPanic"
  by (auto simp: stored_ok_def judge_backlog_def split: option.splits if_splits)

text \<open>What draining one queue achieves: posted messages can be handled, dropped ones are old, the rest is early.\<close>

lemma prque_drain_complete:
  assumes "backlog_ok q"
  shows "\<exists>ms q'. prque_drain (judge_backlog c rs) q = Some (ms, q') \<and> backlog_ok q' \<and>
    (\<forall>(m, p) \<in># prque_contents q'. judge_backlog c rs m = VFuture) \<and>
    (\<forall>(m, p) \<in># prque_contents q. judge_backlog c rs m = VPost \<and> m \<in> set ms \<or>
       judge_backlog c rs m = VSkip \<or> judge_backlog c rs m = VFuture \<and> (m, p) \<in># prque_contents q')"
proof -
  have wf: "prque_wf q" and st: "\<forall>(m, p) \<in># prque_contents q. stored_ok m p" using assms by (auto simp: backlog_ok_def)
  have size: "size (prque_contents q) \<le> prque_Size q"
    using wf block_heap.Len_elems [of q] by (simp add: prque_Size_def prque_contents_def prque_wf_def)
  have np: "\<forall>(m, p) \<in># prque_contents q. judge_backlog c rs m \<noteq> VPanic"
    using st judge_stored by fast
  obtain ms q' E S where d: "prque_drain (judge_backlog c rs) q = Some (ms, q')" "prque_wf q'"
      and split: "prque_contents q = E + S + prque_contents q'" "image_mset fst E = mset ms"
      and E: "\<forall>(m, p) \<in># E. judge_backlog c rs m = VPost" and S: "\<forall>(m, p) \<in># S. judge_backlog c rs m = VSkip"
      and top: "prque_contents q' \<noteq> {#} \<longrightarrow> (\<exists>(m, p) \<in># prque_contents q'. judge_backlog c rs m = VFuture \<and>
         (\<forall>(w, r) \<in># prque_contents q'. sint r \<le> sint p))"
    using prque.drain_spec [OF wf size np] unfolding prque_drain_def by blast
  have st': "stored_ok m p" if "(m, p) \<in># prque_contents q'" for m p using st that split(1) by auto
  have future: "judge_backlog c rs m = VFuture" if m: "(m, p) \<in># prque_contents q'" for m p
  proof -
    from m top obtain m0 p0 where m0: "(m0, p0) \<in># prque_contents q'" "judge_backlog c rs m0 = VFuture" "sint p \<le> sint p0"
      by fastforce
    obtain v h v0 h0 where v: "backlog_view m = Some (v, h)" "view_small v" "p = toPriority (m_Code m) v" "m_Code m \<in> {0, 1, 2, 3}"
      and v0: "backlog_view m0 = Some (v0, h0)" "view_small v0" "p0 = toPriority (m_Code m0) v0" "m_Code m0 \<in> {0, 1, 2, 3}"
      using st' [OF m] st' [OF m0(1)] by (auto simp: stored_ok_def)
    have "checkMessage c rs (m_Code m0) v0 = Some errFutureMessage"
      using m0(2) v0(1) by (auto simp: judge_backlog_def split: option.splits if_splits)
    then show ?thesis
      using future_downward [of c rs "m_Code m0" v0 v "m_Code m"] v v0 m0(3) by (simp add: judge_backlog_def)
  qed
  have "fst x \<in> set ms" if "x \<in># E" for x
    using that split(2) by (metis image_eqI in_image_mset set_mset_mset)
  then show ?thesis
    using d split(1) E S st' future by (intro exI [of _ ms] exI [of _ q']) (fastforce simp: backlog_ok_def)
qed

lemma process_backlogs_complete:
  assumes "\<forall>(a, q) \<in> set bs. backlog_ok q"
  shows "\<exists>outs bs'. process_backlogs (judge_backlog c rs) bs = Some (outs, bs') \<and>
    (\<forall>(a, q) \<in> set bs'. backlog_ok q \<and> (\<forall>(m, p) \<in># prque_contents q. judge_backlog c rs m = VFuture)) \<and>
    (\<forall>(a, q) \<in> set bs. \<forall>(m, p) \<in># prque_contents q.
       judge_backlog c rs m = VPost \<and> backlog_event a m \<in> set outs \<or> judge_backlog c rs m = VSkip \<or>
       judge_backlog c rs m = VFuture \<and> (\<exists>q'. (a, q') \<in> set bs' \<and> (m, p) \<in># prque_contents q'))"
  using assms
proof (induction bs)
  case (Cons b bs)
  obtain a q where b: "b = (a, q)" by (cases b)
  have ok: "backlog_ok q" "\<forall>(a, q) \<in> set bs. backlog_ok q" using Cons.prems b by auto
  from prque_drain_complete [OF ok(1), of c rs] obtain ms q' where
    d: "prque_drain (judge_backlog c rs) q = Some (ms, q')" "backlog_ok q'"
      "\<forall>(m, p) \<in># prque_contents q'. judge_backlog c rs m = VFuture"
      "\<forall>(m, p) \<in># prque_contents q. judge_backlog c rs m = VPost \<and> m \<in> set ms \<or>
         judge_backlog c rs m = VSkip \<or> judge_backlog c rs m = VFuture \<and> (m, p) \<in># prque_contents q'"
    by blast
  from Cons.IH [OF ok(2)] obtain outs bs' where
    r: "process_backlogs (judge_backlog c rs) bs = Some (outs, bs')"
      "\<forall>(a, q) \<in> set bs'. backlog_ok q \<and> (\<forall>(m, p) \<in># prque_contents q. judge_backlog c rs m = VFuture)"
      "\<forall>(a, q) \<in> set bs. \<forall>(m, p) \<in># prque_contents q.
         judge_backlog c rs m = VPost \<and> backlog_event a m \<in> set outs \<or> judge_backlog c rs m = VSkip \<or>
         judge_backlog c rs m = VFuture \<and> (\<exists>q'. (a, q') \<in> set bs' \<and> (m, p) \<in># prque_contents q')"
    by blast
  have p: "process_backlogs (judge_backlog c rs) (b # bs) = Some (map (backlog_event a) ms @ outs, (a, q') # bs')"
    by (simp add: b d(1) r(1))
  have step: "judge_backlog c rs m = VPost \<and> backlog_event a' m \<in> set (map (backlog_event a) ms @ outs) \<or>
      judge_backlog c rs m = VSkip \<or>
      judge_backlog c rs m = VFuture \<and> (\<exists>q1. (a', q1) \<in> set ((a, q') # bs') \<and> (m, pr) \<in># prque_contents q1)"
    if "(a', q0) \<in> set (b # bs)" "(m, pr) \<in># prque_contents q0" for a' q0 m pr
  proof (cases "(a', q0) = b")
    case True
    then have "a' = a" "q0 = q" using b by auto
    then show ?thesis using d(4) that(2) by fastforce
  next
    case False
    then have "(a', q0) \<in> set bs" using that(1) by simp
    then show ?thesis using r(3) that(2) by fastforce
  qed
  have rest: "\<forall>(a, q) \<in> set ((a, q') # bs'). backlog_ok q \<and> (\<forall>(m, p) \<in># prque_contents q. judge_backlog c rs m = VFuture)"
    using d(2,3) r(2) by simp
  show ?case
    by (intro exI [of _ "map (backlog_event a) ms @ outs"] exI [of _ "(a, q') # bs'"] conjI p rest)
      (intro ballI, unfold case_prod_unfold, intro ballI, rule step, simp_all only: prod.collapse)
qed simp


definition early_view :: View where "early_view = \<lparr> view_Round = 0, view_Sequence = 4 \<rparr>"

definition early_message :: message where
  "early_message = \<lparr> m_Hash = 5, m_Code = msgPreprepare,
     m_Msg = PreprepareMsg \<lparr> pp_View = early_view,
       pp_Proposal = \<lparr> p_Hash = 7, p_Number = 4, p_ParentHash = 5, p_Round = 0 \<rparr> \<rparr>,
     m_Address = 2, m_Signature = [], m_CommittedSeal = [] \<rparr>"

definition early_core :: core where
  "early_core = (core_New 1)\<lparr> c_current :=
     Some (newRoundState early_view (DefSet (four_set 0 21)) 0 None None) \<rparr>"


end
