(* ===== verification/Istanbul_Safety.thy ===== *)
theory Istanbul_Safety
  imports Istanbul_Core
begin

text \<open>
  What one Istanbul node guarantees, whatever messages it receives: the invariant \<open>node_inv\<close> of the engine and
  its preservation by every event. Its heart is the locking rule: all COMMIT votes a node broadcasts in one
  sequence are for the same block. A \<open>safetyCtx\<close> names what the surrounding network provides: which hashes
  are valid, the height of a hash, the council of each sequence, which messages are authentic, and which hashes
  have a commit certificate; \<open>x_past\<close> is what the node had already sent, so that the
  invariant also says that nothing sent is ever taken back.
\<close>

section \<open>The invariant\<close>

record safetyCtx =
  x_valid :: "hash \<Rightarrow> bool"
  x_height :: "hash \<Rightarrow> int"
  x_council :: "int \<Rightarrow> address set"
  x_auth :: "message \<Rightarrow> bool"
  x_cert :: "hash \<Rightarrow> bool"
  x_past :: "coreOut set"

definition good_set :: "address set \<Rightarrow> ValidatorSet \<Rightarrow> bool" where
  "good_set V vs \<longleftrightarrow> distinct (map val_Address (vs_List vs)) \<and> val_Address ` set (vs_List vs) = V \<and> \<not> vs_IsSubSet vs"

definition certificate :: "safetyCtx \<Rightarrow> int \<Rightarrow> hash \<Rightarrow> message list \<Rightarrow> bool" where
  "certificate X s d ms \<longleftrightarrow> distinct (map m_Address ms) \<and> m_Address ` set ms \<subseteq> x_council X s \<and>
     quorum_of (card (x_council X s)) \<le> length ms \<and>
     (\<exists>r. \<forall>m \<in> set ms. x_auth X m \<and> m_Code m = msgCommit \<and>
        (\<exists>sub. m_Msg m = SubjectMsg sub \<and> sub_Digest sub = d \<and>
           sub_View sub = \<lparr> view_Round = r, view_Sequence = s \<rparr>))"

definition ctx_ok :: "safetyCtx \<Rightarrow> bool" where
  "ctx_ok X \<longleftrightarrow> (\<forall>h. x_valid X h \<longrightarrow> h \<noteq> 0) \<and>
     (\<forall>m pp. x_auth X m \<longrightarrow> m_Msg m = PreprepareMsg pp \<longrightarrow>
        x_height X (p_Hash (pp_Proposal pp)) = view_Sequence (pp_View pp) \<and>
        p_Number (pp_Proposal pp) = view_Sequence (pp_View pp)) \<and>
     (\<forall>d ms. certificate X (x_height X d) d ms \<longrightarrow> x_cert X d)"

definition env_ok :: "safetyCtx \<Rightarrow> istanbulEnv \<Rightarrow> bool" where
  "env_ok X env \<longleftrightarrow> (\<forall>p. be_Verify env p = VerifyOk \<longrightarrow> x_valid X (p_Hash p)) \<and>
     (\<forall>h. x_valid X h \<longrightarrow> \<not> be_HasBadProposal env h) \<and>
     (\<forall>p seals. x_valid X (p_Hash p) \<longrightarrow> be_Commit env p seals) \<and>
     (\<forall>h n. be_HasPropsal env h n \<longrightarrow> x_cert X h) \<and>
     (\<forall>p a. be_LastProposal env = Some (p, a) \<longrightarrow> good_set (x_council X (p_Number p + 1)) (be_Validators env p))"

definition commit_votes :: "coreOut list \<Rightarrow> Subject set" where
  "commit_votes os = {sub. \<exists>h m. Broadcast h m \<in> set os \<and> m_Code m = msgCommit \<and> m_Msg m = SubjectMsg sub}"

fun out_ok :: "safetyCtx \<Rightarrow> coreOut \<Rightarrow> bool" where
  "out_ok X (PostBacklog _ m _) = x_auth X m"
| "out_ok X (PostBacklogLater _ m _) = x_auth X m"
| "out_ok X (BroadcastOld _ m) = (\<forall>sub. m_Msg m = SubjectMsg sub \<longrightarrow> x_cert X (sub_Digest sub))"
| "out_ok X (CommitBlock p _) = (x_cert X (p_Hash p) \<and> x_height X (p_Hash p) = p_Number p)"
| "out_ok X _ = True"

definition queue_ok :: "safetyCtx \<Rightarrow> message sstack \<Rightarrow> bool" where
  "queue_ok X q \<longleftrightarrow> sstack_inv q \<and> (\<forall>x \<in> set (sstack_list q). x_auth X (item_value x))"

definition votes_inv :: "safetyCtx \<Rightarrow> coreOut list \<Rightarrow> roundState \<Rightarrow> bool" where
  "votes_inv X os rs \<longleftrightarrow>
     (\<forall>sub \<in> commit_votes os. view_Sequence (sub_View sub) \<le> rs_sequence rs \<and>
        x_height X (sub_Digest sub) = view_Sequence (sub_View sub) \<and>
        (view_Sequence (sub_View sub) = rs_sequence rs \<longrightarrow>
           rs_lockedHash rs = sub_Digest sub \<and> x_valid X (sub_Digest sub)))"

definition votes_agree :: "coreOut list \<Rightarrow> bool" where
  "votes_agree os \<longleftrightarrow> (\<forall>a \<in> commit_votes os. \<forall>b \<in> commit_votes os.
     view_Sequence (sub_View a) = view_Sequence (sub_View b) \<longrightarrow> sub_Digest a = sub_Digest b)"

definition proposal_inv :: "safetyCtx \<Rightarrow> roundState \<Rightarrow> bool" where
  "proposal_inv X rs \<longleftrightarrow>
     (\<forall>pp. rs_Preprepare rs = Some pp \<longrightarrow>
        x_valid X (p_Hash (pp_Proposal pp)) \<and> x_height X (p_Hash (pp_Proposal pp)) = rs_sequence rs \<and>
        p_Number (pp_Proposal pp) = rs_sequence rs) \<and>
     (rs_lockedHash rs \<noteq> 0 \<longrightarrow>
        (\<exists>pp. rs_Preprepare rs = Some pp \<and> p_Hash (pp_Proposal pp) = rs_lockedHash rs))"

definition commits_inv :: "safetyCtx \<Rightarrow> roundState \<Rightarrow> bool" where
  "commits_inv X rs \<longleftrightarrow> val_Address ` set (vs_List (ms_valSet (rs_Commits rs))) = x_council X (rs_sequence rs) \<and>
     distinct (map fst (ms_messages (rs_Commits rs))) \<and>
     (\<forall>(a, m) \<in> set (ms_messages (rs_Commits rs)).
        m_Address m = a \<and> a \<in> x_council X (rs_sequence rs) \<and> x_auth X m \<and> m_Code m = msgCommit \<and>
        (\<exists>sub. m_Msg m = SubjectMsg sub \<and> Subject_Equal (Some sub) (rs_Subject rs)))"

definition idle :: "core \<Rightarrow> bool" where
  "idle c \<longleftrightarrow> c_state c = StateAcceptRequest \<or> c_waitingForRoundChange c"

definition round_inv :: "safetyCtx \<Rightarrow> core \<Rightarrow> roundState \<Rightarrow> bool" where
  "round_inv X c rs \<longleftrightarrow> votes_inv X (c_outbox c) rs \<and> proposal_inv X rs \<and> commits_inv X rs \<and>
     (idle c \<longrightarrow> ms_messages (rs_Commits rs) = []) \<and>
     (\<exists>vs. c_valSet c = Some vs \<and> good_set (x_council X (rs_sequence rs)) vs)"

definition node_inv :: "safetyCtx \<Rightarrow> core \<Rightarrow> bool" where
  "node_inv X c \<longleftrightarrow> x_past X \<subseteq> set (c_outbox c) \<and> (\<forall>o' \<in> set (c_outbox c). out_ok X o') \<and> votes_agree (c_outbox c) \<and>
     (\<forall>(a, q) \<in> set (c_backlogs c). queue_ok X q) \<and>
     (case c_current c of None \<Rightarrow> commit_votes (c_outbox c) = {} | Some rs \<Rightarrow> round_inv X c rs)"

section \<open>Lemmas on views, sets and outputs\<close>

lemma View_Cmp_eq [simp]: "View_Cmp v y = 0 \<longleftrightarrow> v = y"
  by (cases v; cases y) (auto simp: View_Cmp_def Let_def sgn_if)

lemma View_Cmp_refl [simp]: "View_Cmp v v = 0"
  by simp

lemma Subject_Equal_Some [simp]: "Subject_Equal (Some a) b \<longleftrightarrow> b = Some a"
  by (cases b) (auto intro: Subject.equality)

lemma vs_CalcProposer_same:
  assumes "vs_CalcProposer env a r vs = Some vs'"
  shows "vs_List vs' = vs_List vs \<and> vs_IsSubSet vs' = vs_IsSubSet vs"
  using assms
  by (cases vs) (auto simp: wc_CalcProposer_def ds_CalcProposer_def wc_IsSubSet_def ds_IsSubSet_def
      split: option.splits if_splits)

lemma good_set_CalcProposer:
  "good_set V vs \<Longrightarrow> vs_CalcProposer env a r vs = Some vs' \<Longrightarrow> good_set V vs'"
  using vs_CalcProposer_same by (fastforce simp: good_set_def)

lemma good_set_quorum: "good_set V vs \<Longrightarrow> RequiredMessageCount vs = quorum_of (card V)"
  by (auto simp: good_set_def RequiredMessageCount_def voting_size_def vs_Size_def distinct_map
      card_image distinct_card)

lemma vs_GetByAddress_in: "vs_GetByAddress vs a = Some v \<Longrightarrow> val_Address v = a \<and> a \<in> val_Address ` set (vs_List vs)"
  using getByAddress_Some [of "vs_List vs" a] by (fastforce simp: vs_GetByAddress_def)

lemma commit_votes_append [simp]: "commit_votes (xs @ ys) = commit_votes xs \<union> commit_votes ys"
  by (auto simp: commit_votes_def)

lemma commit_votes_Nil [simp]: "commit_votes [] = {}"
  by (simp add: commit_votes_def)

lemma commit_votes_Broadcast:
  "commit_votes [Broadcast h m] = (case m_Msg m of SubjectMsg sub \<Rightarrow> if m_Code m = msgCommit then {sub} else {} | _ \<Rightarrow> {})"
  by (auto simp: commit_votes_def split: payload.splits)

lemma no_commit_votes:
  "(\<And>h m. Broadcast h m \<in> set os \<Longrightarrow> m_Code m \<noteq> msgCommit) \<Longrightarrow> commit_votes os = {}"
  by (auto simp: commit_votes_def)

lemma code_not_commit [simp]:
  "msgPreprepare \<noteq> msgCommit" "msgPrepare \<noteq> msgCommit" "msgRoundChange \<noteq> msgCommit"
  by (simp_all add: msg_codes)

lemma emit_sel [simp]:
  "c_current (emit os c) = c_current c" "c_valSet (emit os c) = c_valSet c" "c_state (emit os c) = c_state c"
  "c_waitingForRoundChange (emit os c) = c_waitingForRoundChange c" "c_address (emit os c) = c_address c"
  "c_backlogs (emit os c) = c_backlogs c" "c_outbox (emit os c) = c_outbox c @ os"
  "c_roundChangeSet (emit os c) = c_roundChangeSet c"
  by (simp_all add: emit_def)

lemma set_current_sel [simp]:
  "c_current (set_current rs c) = Some rs" "c_valSet (set_current rs c) = c_valSet c"
  "c_state (set_current rs c) = c_state c" "c_waitingForRoundChange (set_current rs c) = c_waitingForRoundChange c"
  "c_address (set_current rs c) = c_address c" "c_backlogs (set_current rs c) = c_backlogs c"
  "c_outbox (set_current rs c) = c_outbox c" "c_roundChangeSet (set_current rs c) = c_roundChangeSet c"
  by (simp_all add: set_current_def)

lemma updateRoundState_sel [simp]:
  "c_valSet (updateRoundState env v vs b c) = c_valSet c" "c_state (updateRoundState env v vs b c) = c_state c"
  "c_waitingForRoundChange (updateRoundState env v vs b c) = c_waitingForRoundChange c"
  "c_address (updateRoundState env v vs b c) = c_address c" "c_backlogs (updateRoundState env v vs b c) = c_backlogs c"
  "c_outbox (updateRoundState env v vs b c) = c_outbox c"
  by (simp_all add: updateRoundState_def)

lemma node_inv_cong:
  assumes "c_current c' = c_current c" "c_valSet c' = c_valSet c" "idle c' \<Longrightarrow> idle c"
    and "c_outbox c' = c_outbox c @ os" "commit_votes os = {}" "\<forall>o' \<in> set os. out_ok X o'"
    and "\<forall>(a, q) \<in> set (c_backlogs c'). queue_ok X q" "node_inv X c"
  shows "node_inv X c'"
proof -
  have votes: "commit_votes (c_outbox c') = commit_votes (c_outbox c)" by (simp add: assms(4,5))
  have "round_inv X c' rs" if "round_inv X c rs" for rs
    using that assms(2,3) votes unfolding round_inv_def votes_inv_def by simp
  moreover have "\<forall>o' \<in> set (c_outbox c'). out_ok X o'"
    using assms(4,6,8) by (auto simp: node_inv_def)
  moreover have "votes_agree (c_outbox c') = votes_agree (c_outbox c)" by (simp only: votes_agree_def votes)
  moreover have "x_past X \<subseteq> set (c_outbox c')" using assms(4,8) by (auto simp: node_inv_def)
  ultimately show ?thesis
    using assms(1,7,8) votes by (cases "c_current c") (simp_all add: node_inv_def)
qed

lemma node_inv_emit:
  "node_inv X c \<Longrightarrow> commit_votes os = {} \<Longrightarrow> \<forall>o' \<in> set os. out_ok X o' \<Longrightarrow> node_inv X (emit os c)"
  by (rule node_inv_cong [of "emit os c" c os]) (auto simp: idle_def node_inv_def)

lemma node_inv_backlogs: "node_inv X c \<Longrightarrow> \<forall>(a, q) \<in> set (c_backlogs c). queue_ok X q"
  by (simp add: node_inv_def)

lemma node_inv_roundChangeSet [simp]: "node_inv X (c\<lparr> c_roundChangeSet := r \<rparr>) = node_inv X c"
  by (simp add: node_inv_def round_inv_def idle_def split: option.splits)

lemma node_inv_pendingRequests [simp]: "node_inv X (c\<lparr> c_pendingRequests := r \<rparr>) = node_inv X c"
  by (simp add: node_inv_def round_inv_def idle_def split: option.splits)

lemma node_inv_round: "node_inv X c \<Longrightarrow> c_current c = Some rs \<Longrightarrow> round_inv X c rs"
  by (simp add: node_inv_def)

text \<open>Replacing the round state by one that satisfies the invariant.\<close>

lemma node_inv_set_current:
  "node_inv X c \<Longrightarrow> round_inv X c rs \<Longrightarrow> node_inv X (set_current rs c)"
  by (simp add: node_inv_def round_inv_def idle_def)

section \<open>Queues and state changes\<close>

lemma queue_ok_New [simp]: "queue_ok X prque_New"
  by (simp add: queue_ok_def prque_New_def newSstack_def sstack_inv_def blocks_ok_def sstack_list_def)

lemma queue_ok_Push: "queue_ok X q \<Longrightarrow> x_auth X m \<Longrightarrow> queue_ok X (prque_Push q m p)"
  using prque_Push_mset [of q m p] mset_eq_setD
  by (force simp: queue_ok_def simp flip: set_mset_mset)

lemma queue_ok_Pop: "queue_ok X q \<Longrightarrow> prque_Pop q = Some ((m, p), q') \<Longrightarrow> queue_ok X q' \<and> x_auth X m"
  using prque_Pop_mset [of q m p q'] by (force simp: queue_ok_def simp flip: set_mset_mset)

lemma drain_auth:
  "queue_ok X q \<Longrightarrow> drain prque_Push prque_Pop prque_Empty judge n q = Some (ms, q') \<Longrightarrow>
   queue_ok X q' \<and> (\<forall>m \<in> set ms. x_auth X m)"
proof (induction n arbitrary: q ms q')
  case (Suc n)
  show ?case
  proof (cases "prque_Empty q")
    case False
    with Suc.prems obtain m p q1 where pop: "prque_Pop q = Some ((m, p), q1)"
      by (cases "prque_Pop q") auto
    note q1 = queue_ok_Pop [OF Suc.prems(1) pop]
    show ?thesis
    proof (cases "judge m")
      case VPost
      then show ?thesis
        using Suc.prems(2) Suc.IH [of q1] False pop q1 by (auto simp: bind_eq_Some_conv)
    next
      case VSkip
      then show ?thesis using Suc.prems(2) Suc.IH [of q1] False pop q1 by auto
    next
      case VFuture
      then show ?thesis using Suc.prems(2) False pop q1 queue_ok_Push [of X q1 m p] by auto
    next
      case VPanic
      then show ?thesis using Suc.prems(2) False pop by auto
    qed
  qed (use Suc.prems in auto)
qed (auto split: if_splits)

lemma process_backlogs_auth:
  "\<forall>(a, q) \<in> set bs. queue_ok X q \<Longrightarrow> process_backlogs judge bs = Some (outs, bs') \<Longrightarrow>
   (\<forall>(a, q) \<in> set bs'. queue_ok X q) \<and> (\<forall>o' \<in> set outs. \<exists>src m h. o' = PostBacklog src m h \<and> x_auth X m)"
proof (induction bs arbitrary: outs bs')
  case (Cons b bs)
  obtain src q where b: "b = (src, q)" by (cases b)
  from Cons.prems(2) obtain ms q' outs1 bs1 where
    d: "prque_drain judge q = Some (ms, q')" and r: "process_backlogs judge bs = Some (outs1, bs1)"
    and o1: "outs = map (backlog_event src) ms @ outs1" "bs' = (src, q') # bs1"
    unfolding b by (auto simp: bind_eq_Some_conv)
  have "queue_ok X q' \<and> (\<forall>m \<in> set ms. x_auth X m)"
    using d Cons.prems(1) by (auto simp: b prque_drain_def intro!: drain_auth)
  with Cons.IH [OF _ r] Cons.prems(1) o1 show ?case by (auto simp: b backlog_event_def)
qed simp

lemma processBacklog_inv:
  assumes "node_inv X c" "processBacklog c = Some c'"
  shows "node_inv X c' \<and> c_current c' = c_current c \<and> c_valSet c' = c_valSet c \<and> c_state c' = c_state c \<and>
    c_waitingForRoundChange c' = c_waitingForRoundChange c \<and> c_address c' = c_address c"
proof (cases "c_backlogs c = []")
  case False
  with assms(2) obtain rs outs bs where
    p: "process_backlogs (judge_backlog c rs) (c_backlogs c) = Some (outs, bs)" "c' = emit outs (c\<lparr> c_backlogs := bs \<rparr>)"
    by (auto simp: processBacklog_def bind_eq_Some_conv)
  note a = process_backlogs_auth [OF node_inv_backlogs [OF assms(1)] p(1)]
  have "node_inv X c'"
    using assms(1) a
    by (intro node_inv_cong [of c' c outs X]) (auto simp: p(2) idle_def intro!: no_commit_votes)
  then show ?thesis by (simp add: p(2))
qed (use assms in \<open>auto simp: processBacklog_def\<close>)

lemma processPendingRequests_inv:
  assumes "node_inv X c" "processPendingRequests c = Some c'"
  shows "node_inv X c' \<and> c_current c' = c_current c \<and> c_valSet c' = c_valSet c \<and> c_state c' = c_state c \<and>
    c_waitingForRoundChange c' = c_waitingForRoundChange c \<and> c_address c' = c_address c"
  using assms
  by (auto simp: processPendingRequests_def bind_eq_Some_conv split: if_splits
      intro!: node_inv_emit no_commit_votes)

lemma setState_inv:
  assumes "node_inv X c" "setState st c = Some c'"
    and "\<And>rs. st = StateAcceptRequest \<Longrightarrow> c_current c = Some rs \<Longrightarrow> ms_messages (rs_Commits rs) = []"
  shows "node_inv X c' \<and> c_current c' = c_current c \<and> c_valSet c' = c_valSet c \<and> c_state c' = st \<and>
    c_waitingForRoundChange c' = c_waitingForRoundChange c \<and> c_address c' = c_address c"
proof -
  have "round_inv X (c\<lparr> c_state := st \<rparr>) rs" if "c_current c = Some rs" for rs
    using node_inv_round [OF assms(1) that] assms(3) [OF _ that] unfolding round_inv_def idle_def by simp
  then have st: "node_inv X (c\<lparr> c_state := st \<rparr>)"
    using assms(1) by (cases "c_current c") (simp_all add: node_inv_def)
  from assms(2) obtain c1 where
    c1: "c1 = c\<lparr> c_state := st \<rparr> \<or> processPendingRequests (c\<lparr> c_state := st \<rparr>) = Some c1" and c': "processBacklog c1 = Some c'"
    by (auto simp: setState_def bind_eq_Some_conv split: if_splits)
  have "node_inv X c1 \<and> c_current c1 = c_current c \<and> c_valSet c1 = c_valSet c \<and> c_state c1 = st \<and>
      c_waitingForRoundChange c1 = c_waitingForRoundChange c \<and> c_address c1 = c_address c"
    using c1 st processPendingRequests_inv [OF st, of c1] by auto
  with processBacklog_inv [of X, OF _ c'] show ?thesis by simp
qed

lemma bindE: "m \<bind> f = Some y \<Longrightarrow> (\<And>x. m = Some x \<Longrightarrow> f x = Some y \<Longrightarrow> P) \<Longrightarrow> P"
  by (auto simp: bind_eq_Some_conv)

section \<open>Broadcasts\<close>

lemma broadcast_as_cases:
  assumes "broadcast_as out env h code pl c = Some c'"
  shows "c' = c \<or> (\<exists>m. c' = emit [out h m] c \<and> m_Code m = code \<and> m_Msg m = pl \<and> m_Address m = c_address c)"
  using assms
  by (auto simp: broadcast_as_def finalizeMessage_def Let_def bind_eq_Some_conv split: option.splits if_splits)

lemma broadcast_inv:
  assumes "node_inv X c" "broadcast env h code pl c = Some c'" "code \<noteq> msgCommit"
  shows "node_inv X c' \<and> c_current c' = c_current c \<and> c_valSet c' = c_valSet c"
  using broadcast_as_cases [OF assms(2)] assms(1,3)
  by (auto intro!: node_inv_emit simp: commit_votes_Broadcast split: payload.splits)

lemma sendPreprepare_inv:
  assumes "node_inv X c" "sendPreprepare env p c = Some (c', p')"
  shows "node_inv X c' \<and> c_current c' = c_current c \<and> c_valSet c' = c_valSet c"
proof -
  have "c' = c \<or> (\<exists>h pl. broadcast env h msgPreprepare pl c = Some c')"
    using assms(2) by (auto simp: sendPreprepare_def bind_eq_Some_conv Let_def split: if_splits)
  then show ?thesis using assms(1) broadcast_inv [OF assms(1)] code_not_commit(1) by blast
qed

lemma sendPrepare_inv:
  assumes "node_inv X c" "sendPrepare env c = Some c'"
  shows "node_inv X c'"
proof -
  have "c' = c \<or> (\<exists>h pl. broadcast env h msgPrepare pl c = Some c')"
    using assms(2) by (auto simp: sendPrepare_def bind_eq_Some_conv split: if_splits)
  then show ?thesis using assms(1) broadcast_inv [OF assms(1)] code_not_commit(2) by blast
qed

lemma votes_inv_insert:
  "votes_inv X os rs \<Longrightarrow> commit_votes os' = insert sub (commit_votes os) \<Longrightarrow>
   view_Sequence (sub_View sub) = rs_sequence rs \<Longrightarrow> x_height X (sub_Digest sub) = rs_sequence rs \<Longrightarrow>
   rs_lockedHash rs = sub_Digest sub \<Longrightarrow> x_valid X (sub_Digest sub) \<Longrightarrow> votes_inv X os' rs"
  by (simp add: votes_inv_def)

lemma votes_agree_insert:
  assumes "votes_agree os" "votes_inv X os rs" "commit_votes os' = insert sub (commit_votes os)"
    and "view_Sequence (sub_View sub) = rs_sequence rs" "rs_lockedHash rs = sub_Digest sub"
  shows "votes_agree os'"
proof -
  have new: "sub_Digest b = sub_Digest sub"
    if "b \<in> commit_votes os" "view_Sequence (sub_View b) = view_Sequence (sub_View sub)" for b
    using assms(2,4,5) that unfolding votes_inv_def by force
  show ?thesis
    unfolding votes_agree_def assms(3)
  proof (intro ballI impI)
    fix a b
    assume "a \<in> insert sub (commit_votes os)" "b \<in> insert sub (commit_votes os)"
      and eq: "view_Sequence (sub_View a) = view_Sequence (sub_View b)"
    then consider "a = sub" "b = sub" | "a = sub" "b \<in> commit_votes os" | "a \<in> commit_votes os" "b = sub"
      | "a \<in> commit_votes os" "b \<in> commit_votes os" by blast
    then show "sub_Digest a = sub_Digest b"
    proof cases
      case 2 then show ?thesis using new [of b] eq by simp
    next
      case 3 then show ?thesis using new [of a] eq by simp
    next
      case 4 then show ?thesis using assms(1) eq unfolding votes_agree_def by blast
    qed simp
  qed
qed

text \<open>A locked node may vote for its proposal.\<close>

lemma sendCommit_inv:
  assumes "node_inv X c" "sendCommit env c = Some c'" "c_current c = Some rs"
    and "rs_Proposal rs = Some p" "rs_lockedHash rs = p_Hash p"
  shows "node_inv X c' \<and> c_current c' = c_current c \<and> c_valSet c' = c_valSet c \<and> c_state c' = c_state c \<and>
    c_waitingForRoundChange c' = c_waitingForRoundChange c"
proof -
  obtain pp where pp: "rs_Preprepare rs = Some pp" "pp_Proposal pp = p"
    using assms(4) by (auto simp: rs_Proposal_def)
  define sub where "sub = \<lparr> sub_View = currentView rs, sub_Digest = p_Hash p, sub_PrevHash = p_ParentHash p \<rparr>"
  have sub: "rs_Subject rs = Some sub" using pp by (simp add: rs_Subject_def sub_def currentView_def)
  have "c' = c \<or> broadcast env (sub_PrevHash sub) msgCommit (SubjectMsg sub) c = Some c'"
    using assms(2,3) sub by (auto simp: sendCommit_def broadcastCommit_def bind_eq_Some_conv split: if_splits)
  then consider "c' = c" | m where "c' = emit [Broadcast (sub_PrevHash sub) m] c" "m_Code m = msgCommit"
      "m_Msg m = SubjectMsg sub"
    using broadcast_as_cases by blast
  then show ?thesis
  proof cases
    case (2 m)
    have r: "round_inv X c rs" by (rule node_inv_round [OF assms(1,3)])
    then have valid: "x_valid X (p_Hash p)" "x_height X (p_Hash p) = rs_sequence rs"
      using pp by (auto simp: round_inv_def proposal_inv_def)
    have votes: "commit_votes (c_outbox c') = insert sub (commit_votes (c_outbox c))"
      using 2 by (simp add: commit_votes_Broadcast)
    have inv: "votes_inv X (c_outbox c) rs" using r by (simp add: round_inv_def)
    have "votes_inv X (c_outbox c') rs"
      by (rule votes_inv_insert [OF inv votes]) (simp_all add: sub_def currentView_def valid assms(5))
    then have "round_inv X c' rs" using r 2(1) by (simp add: round_inv_def idle_def)
    moreover have "votes_agree (c_outbox c')"
      by (rule votes_agree_insert [OF _ inv votes])
        (use assms(1) in \<open>simp_all add: sub_def currentView_def assms(5) node_inv_def\<close>)
    moreover have "x_past X \<subseteq> set (c_outbox c')" using assms(1) 2(1) by (auto simp: node_inv_def)
    ultimately show ?thesis using assms(1,3) 2(1) by (simp add: node_inv_def)
  qed (use assms(1) in simp)
qed

section \<open>Rounds\<close>

lemma valid_locked:
  assumes "env_ok X env" "ctx_ok X" "x_valid X (rs_lockedHash rs)"
  shows "IsHashLocked (be_HasBadProposal env) rs"
  using assms by (auto simp: env_ok_def ctx_ok_def IsHashLocked_def)

lemma round_inv_fresh:
  assumes "votes_inv X (c_outbox c) rs" "proposal_inv X rs" "rs_Commits rs = newMessageSet vs"
    and "good_set (x_council X (rs_sequence rs)) vs"
    and "c_valSet c = Some vs'" "good_set (x_council X (rs_sequence rs)) vs'"
  shows "round_inv X c rs"
  using assms by (auto simp: round_inv_def commits_inv_def newMessageSet_def good_set_def)

definition carried_round :: "istanbulEnv \<Rightarrow> View \<Rightarrow> ValidatorSet \<Rightarrow> roundState \<Rightarrow> roundState" where
  "carried_round env view vs rs =
     (if IsHashLocked (be_HasBadProposal env) rs
      then newRoundState view vs (rs_lockedHash rs) (rs_Preprepare rs) (rs_pendingRequest rs)
      else newRoundState view vs 0 None (rs_pendingRequest rs))"

lemma updateRoundState_carried:
  "c_current c = Some rs \<Longrightarrow> updateRoundState env view vs True c = set_current (carried_round env view vs rs) c"
  by (simp add: updateRoundState_def carried_round_def)

lemma carried_round_sel [simp]:
  "rs_sequence (carried_round env view vs rs) = view_Sequence view" "rs_round (carried_round env view vs rs) = view_Round view"
  "rs_Commits (carried_round env view vs rs) = newMessageSet vs"
  by (simp_all add: carried_round_def newRoundState_def)

lemma carried_round_inv:
  assumes "votes_inv X os rs" "proposal_inv X rs" "env_ok X env" "ctx_ok X" "view_Sequence view = rs_sequence rs"
  shows "votes_inv X os (carried_round env view vs rs) \<and> proposal_inv X (carried_round env view vs rs)"
proof (cases "IsHashLocked (be_HasBadProposal env) rs")
  case True
  then show ?thesis
    using assms(1,2,5) by (simp add: carried_round_def newRoundState_def votes_inv_def proposal_inv_def)
next
  case False
  have "view_Sequence (sub_View sub) \<noteq> rs_sequence rs" if "sub \<in> commit_votes os" for sub
    using assms(1) that False valid_locked [OF assms(3,4), of rs] unfolding votes_inv_def by metis
  then show ?thesis
    using False assms(1,5) by (simp add: carried_round_def newRoundState_def votes_inv_def proposal_inv_def)
qed

lemma newRoundChangeTimer_inv:
  assumes "node_inv X c" "newRoundChangeTimer env c = Some c'"
  shows "node_inv X c' \<and> c_current c' = c_current c"
  using assms by (auto simp: newRoundChangeTimer_def bind_eq_Some_conv intro!: node_inv_emit no_commit_votes)

lemma catchUpRound_inv:
  assumes "node_inv X c" "catchUpRound env view c = Some c'" "c_current c = Some rs" "env_ok X env" "ctx_ok X"
    and "view_Sequence view = rs_sequence rs"
  shows "node_inv X c' \<and> (\<exists>vs. c_current c' = Some (carried_round env view vs rs))"
proof -
  from assms(2,3) obtain vs rcs where vs: "c_valSet c = Some vs" "c_roundChangeSet c = Some rcs"
    and t: "newRoundChangeTimer env (set_current (carried_round env view vs rs) (c\<lparr> c_waitingForRoundChange := True \<rparr>)
        \<lparr> c_roundChangeSet := Some (rcs_Clear (view_Round view) rcs) \<rparr>) = Some c'"
    by (auto simp: catchUpRound_def bind_eq_Some_conv Let_def updateRoundState_carried)
  have r: "round_inv X c rs" by (rule node_inv_round [OF assms(1,3)])
  have good: "good_set (x_council X (rs_sequence rs)) vs" using r vs(1) by (auto simp: round_inv_def)
  have inv: "votes_inv X (c_outbox c) (carried_round env view vs rs)" "proposal_inv X (carried_round env view vs rs)"
    using carried_round_inv [of X "c_outbox c" rs env view vs] r assms(4-6) by (auto simp: round_inv_def)
  have "round_inv X (c\<lparr> c_waitingForRoundChange := True \<rparr>) (carried_round env view vs rs)"
    by (rule round_inv_fresh [of X _ _ vs vs]) (simp_all add: inv assms(6) good vs(1))
  then have "node_inv X (set_current (carried_round env view vs rs) (c\<lparr> c_waitingForRoundChange := True \<rparr>))"
    using assms(1) by (simp add: node_inv_def round_inv_def idle_def)
  then show ?thesis using newRoundChangeTimer_inv [of X, OF _ t] by auto
qed

lemma sendRoundChange_inv:
  assumes "node_inv X c" "sendRoundChange env rnd c = Some c'" "env_ok X env" "ctx_ok X"
  shows "node_inv X c'"
proof -
  obtain rs where rs: "c_current c = Some rs" using assms(2) by (auto simp: sendRoundChange_def bind_eq_Some_conv)
  then consider "c' = c"
    | c1 h pl where "catchUpRound env \<lparr> view_Round = rnd, view_Sequence = rs_sequence rs \<rparr> c = Some c1"
        "broadcast env h msgRoundChange pl c1 = Some c'"
    using assms(2) by (auto simp: sendRoundChange_def bind_eq_Some_conv split: if_splits)
  then show ?thesis
  proof cases
    case (2 c1 h pl)
    then have "node_inv X c1" using catchUpRound_inv [OF assms(1) 2(1) rs assms(3,4)] by simp
    then show ?thesis using broadcast_inv [OF _ 2(2)] code_not_commit(3) by blast
  qed (use assms(1) in simp)
qed

lemma sendNextRoundChange_inv:
  assumes "node_inv X c" "sendNextRoundChange env c = Some c'" "env_ok X env" "ctx_ok X"
  shows "node_inv X c'"
  using assms sendRoundChange_inv [OF assms(1) _ assms(3,4)]
  by (auto simp: sendNextRoundChange_def bind_eq_Some_conv split: if_splits)

lemma round_inv_pending [simp]: "round_inv X c (rs\<lparr> rs_pendingRequest := x \<rparr>) = round_inv X c rs"
  by (simp add: round_inv_def votes_inv_def proposal_inv_def commits_inv_def rs_Subject_def)

lemma set_pendingRequest_inv:
  assumes "node_inv X c" "set_pendingRequest p c = Some c'"
  shows "node_inv X c'"
proof -
  obtain rs where "c_current c = Some rs" "c' = set_current (rs\<lparr> rs_pendingRequest := Some p \<rparr>) c"
    using assms(2) by (auto simp: set_pendingRequest_def bind_eq_Some_conv)
  then show ?thesis using assms(1) node_inv_round by (auto intro!: node_inv_set_current)
qed

lemma repropose_inv:
  assumes "node_inv X c" "repropose env c = Some c'"
  shows "node_inv X c'"
proof -
  have "c' = c \<or> (\<exists>p p' c1. sendPreprepare env p c = Some (c1, p') \<and> (c' = c1 \<or> set_pendingRequest p' c1 = Some c'))"
    using assms(2) by (fastforce simp: repropose_def bind_eq_Some_conv split: if_splits option.splits)
  then show ?thesis using assms(1) sendPreprepare_inv [OF assms(1)] set_pendingRequest_inv by blast
qed

text \<open>The round state a new round starts with: carried over in a round change, empty in a new sequence.\<close>

lemma new_round_inv:
  assumes "node_inv X c" "env_ok X env" "ctx_ok X"
    and "new_round_view lastProposal rnd (c_current c) = Some (newView, roundChange)"
    and "rs' = (case (roundChange, c_current c) of
        (True, Some rs) \<Rightarrow> carried_round env newView vs rs | _ \<Rightarrow> newRoundState newView vs 0 None None)"
  shows "votes_inv X (c_outbox c) rs' \<and> proposal_inv X rs' \<and> rs_sequence rs' = view_Sequence newView \<and>
    rs_Commits rs' = newMessageSet vs \<and>
    (if roundChange then \<exists>rs. c_current c = Some rs \<and> view_Sequence newView = rs_sequence rs
     else view_Sequence newView = p_Number lastProposal + 1)"
proof (cases "c_current c")
  case None
  then have "roundChange = False" "view_Sequence newView = p_Number lastProposal + 1" "commit_votes (c_outbox c) = {}"
    using assms(1,4) by (auto simp: new_round_view_def node_inv_def)
  then show ?thesis using assms(5) None by (simp add: newRoundState_def votes_inv_def proposal_inv_def)
next
  case (Some rs)
  have r: "votes_inv X (c_outbox c) rs" "proposal_inv X rs"
    using node_inv_round [OF assms(1) Some] by (auto simp: round_inv_def)
  show ?thesis
  proof (cases roundChange)
    case True
    then have "view_Sequence newView = rs_sequence rs"
      using assms(4) Some by (auto simp: new_round_view_def Let_def split: if_splits)
    then show ?thesis using carried_round_inv [OF r assms(2,3)] assms(5) Some True by simp
  next
    case False
    then have "rs_sequence rs < view_Sequence newView" "view_Sequence newView = p_Number lastProposal + 1"
      using assms(4) Some by (auto simp: new_round_view_def Let_def split: if_splits)
    then show ?thesis
      using assms(5) Some False r(1) by (fastforce simp: newRoundState_def votes_inv_def proposal_inv_def)
  qed
qed

lemma enter_round_inv:
  assumes "node_inv X c" "env_ok X env" "ctx_ok X" "be_LastProposal env = Some (lastProposal, lastProposer)"
    and "new_round_view lastProposal rnd (c_current c) = Some (newView, roundChange)"
    and "enter_round env lastProposal lastProposer newView roundChange c = Some c'"
  shows "node_inv X c'"
proof -
  from assms(6) obtain vs vs' c3 c4 where
    vs: "(if roundChange then c_valSet c else Some (be_Validators env lastProposal)) = Some vs"
    and vs': "vs_CalcProposer (be_val env) lastProposer (big_Uint64 (view_Round newView)) vs = Some vs'"
    and c3: "setState StateAcceptRequest
      (updateRoundState env newView vs roundChange (emit [SetCurrentView newView]
         (c\<lparr> c_valSet := Some vs, c_roundChangeSet := Some (newRoundChangeSet vs) \<rparr>))
       \<lparr> c_valSet := Some vs', c_waitingForRoundChange := False \<rparr>) = Some c3"
    and c4: "(if roundChange then repropose env c3 else Some c3) = Some c4"
    and c': "newRoundChangeTimer env c4 = Some c'"
    by (auto simp: enter_round_def bind_eq_Some_conv Let_def)
  define rs' where "rs' = (case (roundChange, c_current c) of
      (True, Some rs) \<Rightarrow> carried_round env newView vs rs | _ \<Rightarrow> newRoundState newView vs 0 None None)"
  note new = new_round_inv [OF assms(1-3,5) rs'_def]
  have good: "good_set (x_council X (rs_sequence rs')) vs"
    using vs new assms(2,4) node_inv_round [OF assms(1)]
    by (fastforce simp: env_ok_def round_inv_def split: if_splits)
  define c2 where "c2 = updateRoundState env newView vs roundChange (emit [SetCurrentView newView]
      (c\<lparr> c_valSet := Some vs, c_roundChangeSet := Some (newRoundChangeSet vs) \<rparr>))
     \<lparr> c_valSet := Some vs', c_waitingForRoundChange := False \<rparr>"
  have c3': "setState StateAcceptRequest c2 = Some c3" using c3 by (simp add: c2_def)
  have c2: "c_current c2 = Some rs'" "c_outbox c2 = c_outbox c @ [SetCurrentView newView]" "c_valSet c2 = Some vs'"
    "c_backlogs c2 = c_backlogs c"
    by (auto simp: c2_def updateRoundState_def carried_round_def rs'_def split: option.splits bool.splits)
  have same: "commit_votes (c_outbox c2) = commit_votes (c_outbox c)"
    using no_commit_votes [of "[SetCurrentView newView]"] by (simp add: c2)
  have "votes_inv X (c_outbox c2) rs'"
    using new unfolding votes_inv_def same by blast
  then have "round_inv X c2 rs'"
    by (rule round_inv_fresh [of X c2 rs' vs vs'])
      (use new good good_set_CalcProposer [OF good vs'] in \<open>simp_all add: c2\<close>)
  moreover have "votes_agree (c_outbox c2) = votes_agree (c_outbox c)"
    unfolding votes_agree_def same ..
  moreover have "x_past X \<subseteq> set (c_outbox c2)" using assms(1) by (auto simp: node_inv_def c2)
  ultimately have "node_inv X c2"
    using assms(1) by (simp add: node_inv_def c2)
  then have "node_inv X c3"
    using setState_inv [OF _ c3'] new by (simp add: c2 newMessageSet_def)
  then have "node_inv X c4" using c4 repropose_inv by (auto split: if_splits)
  then show ?thesis using newRoundChangeTimer_inv [OF _ c'] by blast
qed

lemma startNewRound_inv:
  assumes "node_inv X c" "startNewRound env rnd c = Some c'" "env_ok X env" "ctx_ok X"
  shows "node_inv X c'"
proof -
  obtain lastProposal lastProposer where last: "be_LastProposal env = Some (lastProposal, lastProposer)"
    using assms(2) by (auto simp: startNewRound_def bind_eq_Some_conv)
  show ?thesis
  proof (cases "new_round_view lastProposal rnd (c_current c)")
    case None
    then show ?thesis using assms(1,2) last by (simp add: startNewRound_def)
  next
    case (Some v)
    obtain newView roundChange where v: "v = (newView, roundChange)" by (cases v)
    then have "enter_round env lastProposal lastProposer newView roundChange c = Some c'"
      using assms(2) last Some by (simp add: startNewRound_def)
    then show ?thesis using enter_round_inv [OF assms(1,3,4) last] Some v by simp
  qed
qed

section \<open>Handlers\<close>

lemma handleRequest_inv:
  assumes "node_inv X c" "handleRequest env request c = Some (c', err)"
  shows "node_inv X c'"
proof -
  have "c' = c \<or> (\<exists>p c1. set_pendingRequest p c = Some c1 \<and>
      (c' = c1 \<or> (\<exists>p' c2. sendPreprepare env p c1 = Some (c2, p') \<and> set_pendingRequest p' c2 = Some c')))"
    using assms(2) by (auto simp: handleRequest_def bind_eq_Some_conv split: option.splits if_splits)
  then show ?thesis
  proof (elim disjE exE conjE)
    fix p c1 p' c2
    assume a: "set_pendingRequest p c = Some c1" "sendPreprepare env p c1 = Some (c2, p')" "set_pendingRequest p' c2 = Some c'"
    show ?thesis
      using set_pendingRequest_inv [OF conjunct1 [OF sendPreprepare_inv [OF set_pendingRequest_inv [OF assms(1) a(1)] a(2)]] a(3)] .
  qed (use assms(1) set_pendingRequest_inv [OF assms(1)] in auto)
qed

lemma handle_old_preprepare_inv:
  assumes "node_inv X c" "handle_old_preprepare env pp src c = Some (c', err)" "env_ok X env"
  shows "node_inv X c'"
proof -
  define sub where "sub = \<lparr> sub_View = pp_View pp, sub_Digest = p_Hash (pp_Proposal pp), sub_PrevHash = p_ParentHash (pp_Proposal pp) \<rparr>"
  have "c' = c \<or> be_HasPropsal env (p_Hash (pp_Proposal pp)) (p_Number (pp_Proposal pp)) \<and>
      broadcast_as BroadcastOld env (sub_PrevHash sub) msgCommit (SubjectMsg sub) c = Some c'"
    using assms(2)
    by (auto simp: handle_old_preprepare_def Let_def bind_eq_Some_conv sendCommitForOldBlock_def
        broadcastCommit_def sub_def split: if_splits)
  then show ?thesis
  proof
    assume b: "be_HasPropsal env (p_Hash (pp_Proposal pp)) (p_Number (pp_Proposal pp)) \<and>
      broadcast_as BroadcastOld env (sub_PrevHash sub) msgCommit (SubjectMsg sub) c = Some c'"
    then have cert: "x_cert X (sub_Digest sub)" using assms(3) unfolding env_ok_def sub_def Subject.simps by blast
    from broadcast_as_cases [OF conjunct2 [OF b]] show ?thesis
    proof (elim disjE exE conjE)
      fix m assume "c' = emit [BroadcastOld (sub_PrevHash sub) m] c" "m_Msg m = SubjectMsg sub"
      then show ?thesis using node_inv_emit [OF assms(1)] cert by (simp add: commit_votes_def)
    qed (use assms(1) in simp)
  qed (use assms(1) in simp)
qed

lemma round_inv_SetPreprepare:
  assumes "round_inv X c rs" "ms_messages (rs_Commits rs) = []"
    and "x_valid X (p_Hash (pp_Proposal pp))" "x_height X (p_Hash (pp_Proposal pp)) = rs_sequence rs" "p_Number (pp_Proposal pp) = rs_sequence rs"
    and "rs_lockedHash rs = 0 \<or> rs_lockedHash rs = p_Hash (pp_Proposal pp)"
  shows "round_inv X c (rs\<lparr> rs_Preprepare := Some pp \<rparr>)"
proof -
  have "votes_inv X (c_outbox c) (rs\<lparr> rs_Preprepare := Some pp \<rparr>)"
    using assms(1) by (simp add: round_inv_def votes_inv_def)
  moreover have "proposal_inv X (rs\<lparr> rs_Preprepare := Some pp \<rparr>)"
    using assms(3-6) by (auto simp: proposal_inv_def)
  ultimately show ?thesis using assms(1,2) by (simp add: round_inv_def commits_inv_def idle_def)
qed

lemma unlocked_zero:
  assumes "proposal_inv X rs" "env_ok X env" "ctx_ok X" "\<not> IsHashLocked (be_HasBadProposal env) rs"
  shows "rs_lockedHash rs = 0"
  using assms valid_locked [OF assms(2,3), of rs] unfolding proposal_inv_def by metis

lemma accept_and_vote_inv:
  assumes "node_inv X c" "c_current c = Some rs" "acceptPreprepare pp c = Some c1" "setState st c1 = Some c2"
    and "idle c" "x_valid X (p_Hash (pp_Proposal pp))" "x_height X (p_Hash (pp_Proposal pp)) = rs_sequence rs" "p_Number (pp_Proposal pp) = rs_sequence rs"
    and "rs_lockedHash rs = 0 \<or> rs_lockedHash rs = p_Hash (pp_Proposal pp)"
  shows "node_inv X c2 \<and> c_current c2 = Some (SetPreprepare pp rs)"
proof -
  have r: "round_inv X c rs" "ms_messages (rs_Commits rs) = []"
    using node_inv_round [OF assms(1,2)] assms(5) by (auto simp: round_inv_def)
  have c1: "c1 = set_current (SetPreprepare pp rs) c"
    using assms(2,3) by (simp add: acceptPreprepare_def)
  have n1: "node_inv X c1"
    unfolding c1 SetPreprepare_def using round_inv_SetPreprepare [OF r assms(6-9)] assms(1)
    by (rule node_inv_set_current [rotated])
  have "ms_messages (rs_Commits rs') = []" if "c_current c1 = Some rs'" for rs'
    using that r(2) by (auto simp: c1 SetPreprepare_def)
  from setState_inv [OF n1 assms(4) this] show ?thesis by (simp add: c1)
qed

lemma accept_proposal_inv:
  assumes "node_inv X c" "accept_proposal env pp c = Some c'" "c_current c = Some rs" "idle c"
    and "env_ok X env" "ctx_ok X"
    and "x_valid X (p_Hash (pp_Proposal pp))" "x_height X (p_Hash (pp_Proposal pp)) = rs_sequence rs" "p_Number (pp_Proposal pp) = rs_sequence rs"
  shows "node_inv X c'"
proof (cases "IsHashLocked (be_HasBadProposal env) rs")
  case False
  then obtain c1 c2 where c1: "acceptPreprepare pp c = Some c1" "setState StatePreprepared c1 = Some c2"
      and c': "sendPrepare env c2 = Some c'"
    using assms(2,3) by (auto simp: accept_proposal_def bind_eq_Some_conv)
  have "rs_lockedHash rs = 0"
    using unlocked_zero False assms(5,6) node_inv_round [OF assms(1,3)] by (auto simp: round_inv_def)
  then have "node_inv X c2" using accept_and_vote_inv [OF assms(1,3) c1 assms(4,7,8,9)] by simp
  then show ?thesis using sendPrepare_inv c' by blast
next
  case True
  have r: "round_inv X c rs" "ms_messages (rs_Commits rs) = []"
    using node_inv_round [OF assms(1,3)] assms(4) by (auto simp: round_inv_def)
  obtain rs1 where rs1: "refresh_locked_proposal rs = Some rs1"
    using True assms(2,3) by (auto simp: accept_proposal_def bind_eq_Some_conv)
  then obtain pp0 where pp0: "rs_Preprepare rs = Some pp0"
    "rs1 = rs\<lparr> rs_Preprepare := Some (pp0\<lparr> pp_Proposal := SetRoundToHeader (wrap_i64 (rs_round rs)) (pp_Proposal pp0) \<rparr>) \<rparr>"
    by (auto simp: refresh_locked_proposal_def bind_eq_Some_conv)
  have inv: "round_inv X c rs1"
    unfolding pp0(2) using r pp0(1)
    by (intro round_inv_SetPreprepare) (auto simp: round_inv_def proposal_inv_def SetRoundToHeader_def)
  then have n1: "node_inv X (set_current rs1 c)" using assms(1) by (rule node_inv_set_current [rotated])
  show ?thesis
  proof (cases "p_Hash (pp_Proposal pp) = rs_lockedHash rs1")
    case False
    then have "sendNextRoundChange env (set_current rs1 c) = Some c'"
      using True assms(2,3) rs1 by (simp add: accept_proposal_def)
    then show ?thesis using sendNextRoundChange_inv [OF n1 _ assms(5,6)] by blast
  next
    case same: True
    then obtain c2 c3 where c2: "acceptPreprepare pp (set_current rs1 c) = Some c2" "setState StatePrepared c2 = Some c3"
        and c': "sendCommit env c3 = Some c'"
      using True assms(2,3) rs1 by (auto simp: accept_proposal_def bind_eq_Some_conv)
    have "idle (set_current rs1 c)" using assms(4) by (simp add: idle_def)
    then have "node_inv X c3" "c_current c3 = Some (SetPreprepare pp rs1)"
      using accept_and_vote_inv [OF n1 _ c2, of rs1] assms(7-9) same pp0(2) by simp_all
    then show ?thesis
      using sendCommit_inv [OF _ c', of X "SetPreprepare pp rs1" "pp_Proposal pp"] same
      by (simp add: rs_Proposal_def SetPreprepare_def)
  qed
qed

lemma checkMessage_same_view:
  assumes "checkMessage c rs code view = None" "code \<noteq> msgRoundChange"
  shows "view = currentView rs \<and> \<not> c_waitingForRoundChange c \<and> (msgPreprepare < code \<longrightarrow> c_state c \<noteq> StateAcceptRequest)"
proof -
  have "View_Cmp view (currentView rs) = 0"
    using assms by (auto simp: checkMessage_def split: if_splits)
  then show ?thesis using assms by (auto simp: checkMessage_def split: if_splits)
qed

lemma handlePreprepare_inv:
  assumes "node_inv X c" "handlePreprepare env msg src c = Some (c', err)" "env_ok X env" "ctx_ok X" "x_auth X msg"
  shows "node_inv X c'"
proof (cases "decode_Preprepare (m_Msg msg)")
  case None
  then show ?thesis using assms(1,2) by (simp add: handlePreprepare_def)
next
  case (Some pp)
  then have m: "m_Msg msg = PreprepareMsg pp" by (cases "m_Msg msg") auto
  obtain rs where rs: "c_current c = Some rs"
    using assms(2) Some by (auto simp: handlePreprepare_def bind_eq_Some_conv)
  consider (old) "handle_old_preprepare env pp src c = Some (c', err)"
    | (same) "c' = c" | (later) "c' = emit [PostBacklogLater (val_Address src) msg (m_Hash msg)] c"
    | (failed) "sendNextRoundChange env c = Some c'"
    | (accept) "checkMessage c rs msgPreprepare (pp_View pp) = None" "be_Verify env (pp_Proposal pp) = VerifyOk"
        "c_state c = StateAcceptRequest" "accept_proposal env pp c = Some c'"
    using assms(2) Some rs
    by (auto simp: handlePreprepare_def bind_eq_Some_conv split: option.splits if_splits verifyResult.splits)
  then show ?thesis
  proof cases
    case old
    then show ?thesis using handle_old_preprepare_inv [OF assms(1) _ assms(3)] by blast
  next
    case later
    then show ?thesis using assms(1,5) by (auto intro!: node_inv_emit no_commit_votes)
  next
    case failed
    then show ?thesis using sendNextRoundChange_inv [OF assms(1) _ assms(3,4)] by blast
  next
    case accept
    have "pp_View pp = currentView rs"
      using checkMessage_same_view [OF accept(1)] by (simp add: msg_codes)
    then have "x_height X (p_Hash (pp_Proposal pp)) = rs_sequence rs" "p_Number (pp_Proposal pp) = rs_sequence rs"
      using assms(4,5) m by (auto simp: ctx_ok_def currentView_def)
    moreover have "x_valid X (p_Hash (pp_Proposal pp))" using assms(3) accept(2) by (simp add: env_ok_def)
    moreover have "idle c" using accept(3) by (simp add: idle_def)
    ultimately show ?thesis using accept_proposal_inv [OF assms(1) accept(4) rs _ assms(3,4)] by blast
  qed (use assms(1) in simp)
qed

lemma round_inv_LockHash:
  assumes "round_inv X c rs" "ctx_ok X"
  shows "round_inv X c (LockHash rs)"
proof (cases "rs_Preprepare rs")
  case (Some pp)
  have lock: "rs_lockedHash rs = p_Hash (pp_Proposal pp)" if "rs_lockedHash rs \<noteq> 0"
    using assms(1) that Some by (auto simp: round_inv_def proposal_inv_def)
  have "votes_inv X (c_outbox c) (LockHash rs)"
    using assms Some lock unfolding votes_inv_def LockHash_def round_inv_def ctx_ok_def by fastforce
  moreover have "proposal_inv X (LockHash rs)"
    using assms(1) Some by (auto simp: round_inv_def proposal_inv_def LockHash_def)
  ultimately show ?thesis
    using assms(1) Some by (simp add: round_inv_def commits_inv_def LockHash_def rs_Subject_def idle_def)
qed (use assms(1) in \<open>simp add: LockHash_def\<close>)

lemma LockHash_sel [simp]:
  "rs_Preprepare (LockHash rs) = rs_Preprepare rs" "rs_Commits (LockHash rs) = rs_Commits rs"
  "rs_Proposal (LockHash rs) = rs_Proposal rs" "rs_sequence (LockHash rs) = rs_sequence rs"
  "rs_round (LockHash rs) = rs_round rs" "rs_Subject (LockHash rs) = rs_Subject rs"
  by (auto simp: LockHash_def rs_Proposal_def rs_Subject_def split: option.splits)

lemma LockHash_lockedHash: "rs_Proposal rs = Some p \<Longrightarrow> rs_lockedHash (LockHash rs) = p_Hash p"
  by (auto simp: LockHash_def rs_Proposal_def)

lemma prepared_vote_inv:
  assumes "node_inv X c" "c_current c = Some rs" "rs_Proposal rs = Some p" "rs_lockedHash rs = p_Hash p"
    and "setState StatePrepared c = Some c1" "sendCommit env c1 = Some c'"
  shows "node_inv X c' \<and> c_current c' = Some rs \<and> c_valSet c' = c_valSet c"
proof -
  have "node_inv X c1 \<and> c_current c1 = Some rs \<and> c_valSet c1 = c_valSet c"
    using setState_inv [OF assms(1,5)] assms(2) by simp
  then show ?thesis using sendCommit_inv [of X, OF _ assms(6) _ assms(3,4)] by simp
qed

lemma enter_prepared_inv:
  assumes "node_inv X c" "enter_prepared env digest c = Some c'" "c_current c = Some rs" "ctx_ok X"
    and "rs_Proposal rs = Some p" "digest = p_Hash p"
  shows "node_inv X c' \<and> c_valSet c' = c_valSet c \<and> (c_current c' = Some rs \<or> c_current c' = Some (LockHash rs))"
proof -
  consider (same) "c' = c"
    | (locked) c1 where "rs_lockedHash rs = p_Hash p" "setState StatePrepared c = Some c1" "sendCommit env c1 = Some c'"
    | (quorum) c1 where "setState StatePrepared (set_current (LockHash rs) c) = Some c1" "sendCommit env c1 = Some c'"
  proof -
    obtain vs where "c_valSet c = Some vs" using assms(2,3) by (auto simp: enter_prepared_def bind_eq_Some_conv)
    with assms(2,3,6) have "c' = c \<or>
        rs_lockedHash rs = p_Hash p \<and> setState StatePrepared c \<bind> sendCommit env = Some c' \<or>
        setState StatePrepared (set_current (LockHash rs) c) \<bind> sendCommit env = Some c'"
      by (simp add: enter_prepared_def split: if_splits)
    then show thesis
      by (elim disjE conjE bindE) (erule that(1), erule (2) that(2), erule (1) that(3))
  qed
  then show ?thesis
  proof cases
    case (locked c1)
    then show ?thesis using prepared_vote_inv [OF assms(1,3,5) locked] by simp
  next
    case (quorum c1)
    have n: "node_inv X (set_current (LockHash rs) c)"
      by (rule node_inv_set_current [OF assms(1) round_inv_LockHash [OF node_inv_round [OF assms(1,3)] assms(4)]])
    show ?thesis
      using prepared_vote_inv [OF n _ _ LockHash_lockedHash [OF assms(5)] quorum] assms(5) by simp
  qed (use assms(1,3) in simp)
qed

lemma handlePrepare_inv:
  assumes "node_inv X c" "handlePrepare env msg src c = Some (c', err)" "ctx_ok X"
  shows "node_inv X c'"
proof -
  consider "c' = c"
    | sub rs c1 where "c_current c = Some rs" "rs_Subject rs = Some sub" "acceptPrepare msg c = Some c1"
        "enter_prepared env (sub_Digest sub) c1 = Some c'"
    using assms(2)
    by (auto simp: handlePrepare_def bind_eq_Some_conv split: option.splits if_splits)
  then show ?thesis
  proof cases
    case (2 sub rs c1)
    define rs1 where "rs1 = rs\<lparr> rs_Prepares := fst (ms_Add (rs_Prepares rs) msg) \<rparr>"
    obtain pp where pp: "rs_Preprepare rs = Some pp" "sub_Digest sub = p_Hash (pp_Proposal pp)"
      using 2(2) by (auto simp: rs_Subject_def)
    have c1: "c1 = set_current rs1 c" using 2(1,3) by (simp add: acceptPrepare_def rs1_def)
    have "round_inv X c rs1"
      using node_inv_round [OF assms(1) 2(1)]
      by (simp add: rs1_def round_inv_def votes_inv_def proposal_inv_def commits_inv_def rs_Subject_def)
    then have "node_inv X c1" unfolding c1 by (rule node_inv_set_current [OF assms(1)])
    then show ?thesis
      using enter_prepared_inv [OF _ 2(4), of X rs1 "pp_Proposal pp"] assms(3) pp
      by (simp add: c1 rs1_def rs_Proposal_def)
  qed (use assms(1) in simp)
qed

text \<open>A quorum of COMMIT messages is a certificate of the proposal.\<close>

lemma commits_certificate:
  assumes "round_inv X c rs" "ctx_ok X" "c_valSet c = Some vs" "rs_Proposal rs = Some p"
    and "RequiredMessageCount vs \<le> ms_Size (rs_Commits rs)"
  shows "x_cert X (p_Hash p)"
proof -
  let ?ms = "ms_Values (rs_Commits rs)"
  obtain pp where pp: "rs_Preprepare rs = Some pp" "pp_Proposal pp = p" using assms(4) by (auto simp: rs_Proposal_def)
  have inv: "commits_inv X rs" "good_set (x_council X (rs_sequence rs)) vs"
    and h: "x_height X (p_Hash p) = rs_sequence rs"
    using assms(1,3) pp by (auto simp: round_inv_def proposal_inv_def)
  have each: "m_Address m = a \<and> a \<in> x_council X (rs_sequence rs) \<and> x_auth X m \<and> m_Code m = msgCommit \<and>
      (\<exists>sub. m_Msg m = SubjectMsg sub \<and> rs_Subject rs = Some sub)" if "(a, m) \<in> set (ms_messages (rs_Commits rs))" for a m
    using inv(1) that by (auto simp: commits_inv_def)
  have "map m_Address ?ms = map fst (ms_messages (rs_Commits rs))"
    using each by (auto simp: ms_Values_def)
  then have dist: "distinct (map m_Address ?ms)" using inv(1) by (simp add: commits_inv_def)
  have "x_auth X m \<and> m_Code m = msgCommit \<and> m_Address m \<in> x_council X (rs_sequence rs) \<and>
      (\<exists>sub. m_Msg m = SubjectMsg sub \<and> sub_Digest sub = p_Hash p \<and>
         sub_View sub = \<lparr> view_Round = rs_round rs, view_Sequence = rs_sequence rs \<rparr>)" if "m \<in> set ?ms" for m
    using that each pp by (fastforce simp: ms_Values_def rs_Subject_def)
  then have "certificate X (rs_sequence rs) (p_Hash p) ?ms"
    using dist assms(5) good_set_quorum [OF inv(2)]
    unfolding certificate_def by (auto simp: ms_Values_def ms_Size_def)
  then show ?thesis using assms(2) h unfolding ctx_ok_def by metis
qed

lemma core_commit_inv:
  assumes "node_inv X c" "core_commit env c = Some c'" "c_current c = Some rs" "rs_Proposal rs = Some p"
    and "env_ok X env" "x_cert X (p_Hash p)"
  shows "node_inv X c'"
proof -
  obtain c1 where c1: "setState StateCommitted c = Some c1" using assms(2) by (auto simp: core_commit_def bind_eq_Some_conv)
  have n1: "node_inv X c1" "c_current c1 = Some rs"
    using setState_inv [OF assms(1) c1] assms(3) by simp_all
  have p: "x_valid X (p_Hash p) \<and> x_height X (p_Hash p) = p_Number p"
    using node_inv_round [OF n1] assms(4) by (auto simp: round_inv_def proposal_inv_def rs_Proposal_def)
  then have "be_Commit env p seals" for seals using assms(5) by (simp add: env_ok_def)
  then obtain seals where "c' = emit [CommitBlock p seals] c1"
    using assms(2,4) c1 n1(2) by (auto simp: core_commit_def Let_def)
  then show ?thesis using node_inv_emit [OF n1(1)] assms(6) p by (simp add: commit_votes_def)
qed

lemma commit_if_quorum_inv:
  assumes "node_inv X c" "commit_if_quorum env c = Some c'" "c_current c = Some rs" "rs_Proposal rs = Some p"
    and "env_ok X env" "ctx_ok X"
  shows "node_inv X c'"
proof -
  obtain vs where vs: "c_valSet c = Some vs" using assms(2,3) by (auto simp: commit_if_quorum_def bind_eq_Some_conv)
  show ?thesis
  proof (cases "c_state c < StateCommitted \<and> RequiredMessageCount vs \<le> ms_Size (rs_Commits rs)")
    case True
    have r: "round_inv X c rs" by (rule node_inv_round [OF assms(1,3)])
    have n: "node_inv X (set_current (LockHash rs) c)"
      by (rule node_inv_set_current [OF assms(1) round_inv_LockHash [OF r assms(6)]])
    have "core_commit env (set_current (LockHash rs) c) = Some c'"
      using assms(2,3) vs True by (simp add: commit_if_quorum_def)
    moreover have "x_cert X (p_Hash p)" using commits_certificate [OF r assms(6) vs assms(4)] True by blast
    ultimately show ?thesis using core_commit_inv [OF n _ _ _ assms(5)] assms(4) by simp
  next
    case False
    then show ?thesis using assms(1,2,3) vs by (auto simp: commit_if_quorum_def)
  qed
qed

lemma acceptCommit_inv:
  assumes "node_inv X c" "acceptCommit msg c = Some c'" "c_current c = Some rs" "\<not> idle c"
    and "x_auth X msg" "m_Code msg = msgCommit" "m_Msg msg = SubjectMsg sub" "rs_Subject rs = Some sub"
  shows "node_inv X c' \<and> (\<exists>rs'. c_current c' = Some rs' \<and> rs_Preprepare rs' = rs_Preprepare rs)"
proof -
  define rs1 where "rs1 = rs\<lparr> rs_Commits := fst (ms_Add (rs_Commits rs) msg) \<rparr>"
  have c': "c' = set_current rs1 c" using assms(2,3) by (simp add: acceptCommit_def rs1_def)
  have r: "round_inv X c rs" by (rule node_inv_round [OF assms(1,3)])
  have "commits_inv X rs1"
  proof (cases "vs_GetByAddress (ms_valSet (rs_Commits rs)) (m_Address msg)")
    case None
    then show ?thesis
      using r by (simp add: rs1_def ms_Add_def ms_verify_def round_inv_def commits_inv_def rs_Subject_def)
  next
    case (Some v)
    have "m_Address msg \<in> x_council X (rs_sequence rs)"
      using vs_GetByAddress_in [OF Some] r by (simp add: round_inv_def commits_inv_def)
    moreover have "rs_Subject rs1 = Some sub" using assms(8) by (simp add: rs1_def rs_Subject_def)
    moreover have "rs_Commits rs1 = rs_Commits rs\<lparr> ms_messages :=
        AList.update (m_Address msg) msg (ms_messages (rs_Commits rs)) \<rparr>" "rs_sequence rs1 = rs_sequence rs"
      using Some by (simp_all add: rs1_def ms_Add_def ms_verify_def)
    moreover have "commits_inv X rs" using r by (simp add: round_inv_def)
    ultimately show ?thesis
      using assms(5-8) alist_update_subset [of "m_Address msg" msg "ms_messages (rs_Commits rs)"]
      unfolding commits_inv_def by (auto simp: distinct_update)
  qed
  moreover have "votes_inv X (c_outbox c) rs1" "proposal_inv X rs1"
    using r by (simp_all add: rs1_def round_inv_def votes_inv_def proposal_inv_def)
  ultimately have "round_inv X c rs1" using r assms(4) by (simp add: round_inv_def rs1_def)
  then show ?thesis using node_inv_set_current [OF assms(1)] by (simp add: c' rs1_def)
qed

lemma handleCommit_cases:
  assumes "handleCommit env msg src c = Some (c', err)"
  obtains "c' = c"
  | rs sub c1 c2 where "c_current c = Some rs" "m_Msg msg = SubjectMsg sub"
      "checkMessage c rs msgCommit (sub_View sub) = None" "rs_Subject rs = Some sub"
      "acceptCommit msg c = Some c1" "enter_prepared env (sub_Digest sub) c1 = Some c2" "commit_if_quorum env c2 = Some c'"
proof (cases "m_Msg msg")
  case (SubjectMsg sub)
  have "c' = c \<or> (\<exists>rs. c_current c = Some rs \<and> checkMessage c rs msgCommit (sub_View sub) = None \<and>
      rs_Subject rs = Some sub \<and>
      acceptCommit msg c \<bind> (\<lambda>c1. enter_prepared env (sub_Digest sub) c1 \<bind> commit_if_quorum env) = Some c')"
    using assms SubjectMsg
    by (auto simp: handleCommit_def bind_eq_Some_conv split: option.splits if_splits)
  then show thesis
    by (elim disjE exE conjE bindE) (erule that(1), rule that(2) [OF _ SubjectMsg])
qed (use assms that(1) in \<open>simp_all add: handleCommit_def\<close>)

lemma handleCommit_inv:
  assumes "node_inv X c" "handleCommit env msg src c = Some (c', err)" "env_ok X env" "ctx_ok X"
    and "x_auth X msg" "m_Code msg = msgCommit"
  shows "node_inv X c'"
  using assms(2)
proof (cases rule: handleCommit_cases)
  case (2 rs sub c1 c2)
  have "\<not> idle c"
    using checkMessage_same_view [OF 2(3)] by (auto simp: msg_codes idle_def)
  from acceptCommit_inv [OF assms(1) 2(5,1) this assms(5,6) 2(2,4)] obtain rs1 where
    c1: "node_inv X c1" "c_current c1 = Some rs1" "rs_Preprepare rs1 = rs_Preprepare rs" by blast
  obtain p where p: "rs_Proposal rs = Some p" "sub_Digest sub = p_Hash p"
    using 2(4) by (auto simp: rs_Subject_def rs_Proposal_def)
  then have p1: "rs_Proposal rs1 = Some p" using c1(3) by (simp add: rs_Proposal_def)
  have c2: "node_inv X c2" "c_current c2 = Some rs1 \<or> c_current c2 = Some (LockHash rs1)"
    using enter_prepared_inv [OF c1(1) 2(6) c1(2) assms(4) p1 p(2)] by blast+
  then show ?thesis
    using commit_if_quorum_inv [OF c2(1) 2(7) _ _ assms(3,4)] p1 by auto
qed (use assms(1) in simp)

lemma handleRoundChange_inv:
  assumes "node_inv X c" "handleRoundChange env msg c = Some (c', err)" "env_ok X env" "ctx_ok X"
  shows "node_inv X c'"
proof -
  have "c' = c \<or> (\<exists>rcs. c' = c\<lparr> c_roundChangeSet := rcs \<rparr> \<or>
      (\<exists>rnd. startNewRound env rnd (c\<lparr> c_roundChangeSet := rcs \<rparr>) = Some c' \<or>
             sendRoundChange env rnd (c\<lparr> c_roundChangeSet := rcs \<rparr>) = Some c'))"
    using assms(2)
    by (auto simp: handleRoundChange_def Let_def bind_eq_Some_conv split: option.splits if_splits sum.splits)
  moreover have n: "node_inv X (c\<lparr> c_roundChangeSet := rcs \<rparr>)" for rcs using assms(1) by simp
  ultimately show ?thesis
    using assms(1) by (elim disjE exE) (simp, simp, erule startNewRound_inv [OF n _ assms(3,4)],
        erule sendRoundChange_inv [OF n _ assms(3,4)])
qed

lemma storeBacklog_inv:
  assumes "node_inv X c" "x_auth X msg"
  shows "node_inv X (storeBacklog msg src c)"
proof (cases "val_Address src = c_address c")
  case False
  define q where "q = (case map_of (c_backlogs c) (val_Address src) of None \<Rightarrow> prque_New | Some q \<Rightarrow> q)"
  define q' where "q' = (case backlog_view msg of None \<Rightarrow> q
     | Some (view, _) \<Rightarrow> prque_Push q msg (toPriority (m_Code msg) view))"
  have "queue_ok X q"
    using node_inv_backlogs [OF assms(1)] by (auto simp: q_def split: option.splits dest: map_of_SomeD)
  then have "queue_ok X q'"
    using queue_ok_Push assms(2) by (auto simp: q'_def split: option.splits)
  then have "\<forall>(a, q) \<in> set (AList.update (val_Address src) q' (c_backlogs c)). queue_ok X q"
    using node_inv_backlogs [OF assms(1)] alist_update_subset [of "val_Address src" q' "c_backlogs c"] by fastforce
  moreover have "storeBacklog msg src c = c\<lparr> c_backlogs := AList.update (val_Address src) q' (c_backlogs c) \<rparr>"
    using False unfolding storeBacklog_def Let_def q'_def q_def by simp
  ultimately show ?thesis
    using node_inv_cong [of "storeBacklog msg src c" c "[]" X] assms(1) by (simp add: idle_def)
qed (use assms(1) in \<open>simp add: storeBacklog_def\<close>)

lemma handleCheckedMsg_inv:
  assumes "node_inv X c" "handleCheckedMsg env msg src c = Some (c', err)" "env_ok X env" "ctx_ok X" "x_auth X msg"
  shows "node_inv X c'"
proof -
  obtain c1 where c1: "handle_by_code env msg src c = Some (c1, err)" "c' = c1 \<or> c' = storeBacklog msg src c1"
    using assms(2) by (auto simp: handleCheckedMsg_def bind_eq_Some_conv)
  have "node_inv X c1"
    using c1(1) assms(1) handlePreprepare_inv [OF assms(1) _ assms(3-5)] handlePrepare_inv [OF assms(1) _ assms(4)]
      handleCommit_inv [OF assms(1) _ assms(3-5)] handleRoundChange_inv [OF assms(1) _ assms(3,4)]
    unfolding handle_by_code_def by (simp split: if_splits)
  then show ?thesis using c1(2) storeBacklog_inv [OF _ assms(5)] by auto
qed

lemma gossip_inv: "node_inv X (fst r) \<Longrightarrow> node_inv X (gossip_if_ok h msg r)"
  by (auto simp: gossip_if_ok_def intro!: node_inv_emit no_commit_votes)

lemma handleTimeoutMsg_inv:
  assumes "node_inv X c" "handleTimeoutMsg env v c = Some c'" "env_ok X env" "ctx_ok X"
  shows "node_inv X c'"
proof -
  have "c' = c \<or> (\<exists>rnd. sendRoundChange env rnd c = Some c') \<or> startNewRound env 0 c = Some c'"
    using assms(2)
    by (auto simp: handleTimeoutMsg_def Let_def bind_eq_Some_conv split: option.splits if_splits)
  then show ?thesis
    using assms(1) sendRoundChange_inv [OF assms(1) _ assms(3,4)] startNewRound_inv [OF assms(1) _ assms(3,4)] by blast
qed

text \<open>The messages of an event the node must be able to trust: signed ones are authentic, backlog events were
  posted by the node itself.\<close>

fun event_ok :: "safetyCtx \<Rightarrow> istanbulEnv \<Rightarrow> core \<Rightarrow> coreEvent \<Rightarrow> bool" where
  "event_ok X env c (MessageEvent _ (Some m)) \<longleftrightarrow> (be_Signer env m = Some (m_Address m) \<longrightarrow> x_auth X m)"
| "event_ok X env c (BacklogEvent a m h) \<longleftrightarrow>
     PostBacklog a m h \<in> set (c_outbox c) \<or> PostBacklogLater a m h \<in> set (c_outbox c)"
| "event_ok X env c _ \<longleftrightarrow> True"

lemma FromPayload_Inr:
  "FromPayload env vs pl = Inr msg \<Longrightarrow> pl = Some msg \<and> be_Signer env msg = Some (m_Address msg)"
  by (auto simp: FromPayload_def checkValidatorSignature_def rbind_def split: option.splits if_splits)

lemma handleMsg_inv:
  assumes "node_inv X c" "handleMsg env pl c = Some (c', err)" "env_ok X env" "ctx_ok X"
    and "event_ok X env c (MessageEvent h pl)"
  shows "node_inv X c'"
proof -
  obtain vs where vs: "c_valSet c = Some vs" using assms(2) by (auto simp: handleMsg_def bind_eq_Some_conv)
  show ?thesis
  proof (cases "FromPayload env vs pl")
    case (Inr msg)
    note m = FromPayload_Inr [OF Inr]
    have "c' = c \<or> (\<exists>src. handleCheckedMsg env msg src c = Some (c', err))"
      using assms(2) vs Inr by (auto simp: handleMsg_def split: option.splits)
    then show ?thesis
      using assms(1,5) m handleCheckedMsg_inv [OF assms(1) _ assms(3,4)] by auto
  qed (use assms(1,2) vs in \<open>simp add: handleMsg_def\<close>)
qed

lemma handleEvent_inv:
  assumes "node_inv X c" "handleEvent env ev c = Some c'" "env_ok X env" "ctx_ok X" "event_ok X env c ev"
  shows "node_inv X c'"
proof (cases ev)
  case (RequestEvent request)
  then obtain c1 err where "handleRequest env request c = Some (c1, err)" "c' = c1 \<or> (\<exists>p. c' = storeRequestMsg p c1)"
    using assms(2) by (auto simp: bind_eq_Some_conv split: option.splits if_splits)
  then show ?thesis using handleRequest_inv [OF assms(1)] by (auto simp: storeRequestMsg_def)
next
  case (MessageEvent h pl)
  then obtain c1 err where m: "handleMsg env pl c = Some (c1, err)"
    "c' = c1 \<or> (\<exists>msg. c' = gossip_if_ok h msg (c1, err))"
    using assms(2) by (auto simp: bind_eq_Some_conv split: option.splits)
  have "node_inv X c1" using handleMsg_inv [OF assms(1) m(1) assms(3,4)] assms(5) MessageEvent by blast
  then show ?thesis using m(2) gossip_inv [of X "(c1, err)"] by auto
next
  case (BacklogEvent a m h)
  have auth: "x_auth X m" using assms(1,5) BacklogEvent by (auto simp: node_inv_def)
  have "c' = c \<or> (\<exists>src c1 err. handleCheckedMsg env m src c = Some (c1, err) \<and> c' = gossip_if_ok h m (c1, err))"
    using assms(2) BacklogEvent by (auto simp: bind_eq_Some_conv split: option.splits)
  then show ?thesis
    using assms(1) gossip_inv handleCheckedMsg_inv [OF assms(1) _ assms(3,4) auth] by fastforce
next
  case (TimeoutEvent v)
  then show ?thesis using assms handleTimeoutMsg_inv by simp
next
  case FinalCommittedEvent
  then show ?thesis using assms startNewRound_inv by (simp add: handleFinalCommitted_def)
qed

end
