(* ===== verification/Istanbul_Network.thy ===== *)
theory Istanbul_Network
  imports Istanbul_Safety
begin

text \<open>
  A network of Istanbul nodes: every correct validator runs the engine of \<open>Istanbul_Core\<close>, the others send what
  they like. Steps interleave arbitrarily and messages may be lost, repeated and reordered. The theorem is
  agreement: correct nodes never commit different blocks of the same height. It holds for councils that are not
  larger than the committee size, where every validator votes; with proper committees a later round has another
  committee, and the lock of the earlier one does not bind it.
\<close>

section \<open>The network\<close>

record netParams =
  n_faulty :: "address set"
  n_council :: "int \<Rightarrow> address set"
  n_height :: "hash \<Rightarrow> int"
  n_valid :: "hash \<Rightarrow> bool"

type_synonym net = "address \<Rightarrow> core"

definition sent :: "net \<Rightarrow> message \<Rightarrow> bool" where
  "sent N m \<longleftrightarrow> (\<exists>h m'. (Broadcast h m' \<in> set (c_outbox (N (m_Address m))) \<or>
      BroadcastOld h m' \<in> set (c_outbox (N (m_Address m)))) \<and> m_Code m' = m_Code m \<and> m_Msg m' = m_Msg m)"

text \<open>Signatures cannot be forged: what a correct validator signed, it sent. A proposal is for the height of its
  view, and its hash determines its height.\<close>

definition authentic :: "netParams \<Rightarrow> net \<Rightarrow> message \<Rightarrow> bool" where
  "authentic P N m \<longleftrightarrow> (m_Address m \<notin> n_faulty P \<longrightarrow> sent N m) \<and>
     (\<forall>pp. m_Msg m = PreprepareMsg pp \<longrightarrow>
        n_height P (p_Hash (pp_Proposal pp)) = view_Sequence (pp_View pp) \<and>
        p_Number (pp_Proposal pp) = view_Sequence (pp_View pp))"

definition certified :: "netParams \<Rightarrow> net \<Rightarrow> hash \<Rightarrow> bool" where
  "certified P N d \<longleftrightarrow> (\<exists>Q. Q \<subseteq> n_council P (n_height P d) \<and>
     quorum_of (card (n_council P (n_height P d))) \<le> card Q \<and>
     (\<forall>j \<in> Q - n_faulty P. \<exists>sub \<in> commit_votes (c_outbox (N j)).
        sub_Digest sub = d \<and> view_Sequence (sub_View sub) = n_height P d))"

definition net_ctx :: "netParams \<Rightarrow> net \<Rightarrow> coreOut set \<Rightarrow> safetyCtx" where
  "net_ctx P N past = \<lparr> x_valid = n_valid P, x_height = n_height P, x_council = n_council P,
     x_auth = authentic P N, x_cert = certified P N, x_past = past \<rparr>"

definition params_ok :: "netParams \<Rightarrow> bool" where
  "params_ok P \<longleftrightarrow> (\<forall>h. n_valid P h \<longrightarrow> h \<noteq> 0) \<and>
     (\<forall>s. finite (n_council P s) \<and> n_council P s \<noteq> {} \<and>
        card (n_faulty P \<inter> n_council P s) \<le> faults_of (card (n_council P s)))"

text \<open>A correct node starts or handles an event. What its backend answers must make sense: verified blocks are
  valid and can be inserted, blocks of the chain are certified, the validators are the council.\<close>

inductive net_step :: "netParams \<Rightarrow> net \<Rightarrow> net \<Rightarrow> bool" for P where
  start: "i \<notin> n_faulty P \<Longrightarrow> env_ok (net_ctx P N {}) env \<Longrightarrow> core_Start env (N i) = Some c' \<Longrightarrow>
    net_step P N (N(i := c'))"
| event: "i \<notin> n_faulty P \<Longrightarrow> env_ok (net_ctx P N {}) env \<Longrightarrow> event_ok (net_ctx P N {}) env (N i) ev \<Longrightarrow>
    handleEvent env ev (N i) = Some c' \<Longrightarrow> net_step P N (N(i := c'))"

inductive net_reach :: "netParams \<Rightarrow> net \<Rightarrow> bool" for P where
  init: "net_reach P core_New"
| step: "net_reach P N \<Longrightarrow> net_step P N N' \<Longrightarrow> net_reach P N'"

section \<open>The network invariant\<close>

definition net_inv :: "netParams \<Rightarrow> net \<Rightarrow> bool" where
  "net_inv P N \<longleftrightarrow> (\<forall>i. i \<notin> n_faulty P \<longrightarrow> node_inv (net_ctx P N {}) (N i))"

definition extends :: "net \<Rightarrow> net \<Rightarrow> bool" where
  "extends N N' \<longleftrightarrow> (\<forall>j. set (c_outbox (N j)) \<subseteq> set (c_outbox (N' j)))"

lemma commit_votes_mono: "set xs \<subseteq> set ys \<Longrightarrow> commit_votes xs \<subseteq> commit_votes ys"
  by (auto simp: commit_votes_def)

lemma authentic_mono: "extends N N' \<Longrightarrow> authentic P N m \<Longrightarrow> authentic P N' m"
  unfolding authentic_def sent_def extends_def by blast

lemma certified_mono:
  assumes "extends N N'" "certified P N d"
  shows "certified P N' d"
proof -
  have "commit_votes (c_outbox (N j)) \<subseteq> commit_votes (c_outbox (N' j))" for j
    using assms(1) commit_votes_mono unfolding extends_def by blast
  then show ?thesis using assms(2) unfolding certified_def by (meson subsetD)
qed

text \<open>The invariant of a node survives the steps of the others.\<close>

lemma out_ok_mono:
  assumes "extends N N'" "out_ok (net_ctx P N past) o'"
  shows "out_ok (net_ctx P N' past') o'"
  using assms(2) authentic_mono [OF assms(1)] certified_mono [OF assms(1)]
  by (cases o') (auto simp: net_ctx_def)

lemma node_inv_mono:
  assumes "extends N N'" "node_inv (net_ctx P N past) c" "past' \<subseteq> set (c_outbox c)"
  shows "node_inv (net_ctx P N' past') c"
proof -
  have auth: "authentic P N m \<Longrightarrow> authentic P N' m" for m by (rule authentic_mono [OF assms(1)])
  have "round_inv (net_ctx P N' past') c rs" if "round_inv (net_ctx P N past) c rs" for rs
    using that auth
    unfolding round_inv_def votes_inv_def proposal_inv_def commits_inv_def net_ctx_def by fastforce
  moreover have "queue_ok (net_ctx P N' past') q" if "queue_ok (net_ctx P N past) q" for q
    using that auth by (auto simp: queue_ok_def net_ctx_def)
  ultimately show ?thesis
    using assms(2,3) out_ok_mono [OF assms(1)] unfolding node_inv_def
    by (auto simp: net_ctx_def split: option.splits)
qed

lemma certificate_certified:
  assumes "net_inv P N" "certificate (net_ctx P N past) (n_height P d) d ms"
  shows "certified P N d"
proof (rule ccontr)
  assume not: "\<not> certified P N d"
  let ?Q = "m_Address ` set ms"
  have c: "distinct (map m_Address ms)" "?Q \<subseteq> n_council P (n_height P d)"
    "quorum_of (card (n_council P (n_height P d))) \<le> length ms"
    and each: "\<forall>m \<in> set ms. authentic P N m \<and> m_Code m = msgCommit \<and>
      (\<exists>sub. m_Msg m = SubjectMsg sub \<and> sub_Digest sub = d \<and> view_Sequence (sub_View sub) = n_height P d)"
    using assms(2) by (fastforce simp: certificate_def net_ctx_def)+
  have "card ?Q = length ms" using c(1) by (metis distinct_card length_map list.set_map)
  moreover have "\<exists>sub \<in> commit_votes (c_outbox (N j)). sub_Digest sub = d \<and> view_Sequence (sub_View sub) = n_height P d"
    if j: "j \<in> ?Q - n_faulty P" for j
  proof -
    from j obtain m where m: "m \<in> set ms" "m_Address m = j" by auto
    with each j obtain h m' sub where m': "Broadcast h m' \<in> set (c_outbox (N j)) \<or> BroadcastOld h m' \<in> set (c_outbox (N j))"
        "m_Code m' = msgCommit" "m_Msg m' = SubjectMsg sub" "sub_Digest sub = d" "view_Sequence (sub_View sub) = n_height P d"
      by (fastforce simp: authentic_def sent_def)
    have "node_inv (net_ctx P N {}) (N j)" using assms(1) j by (simp add: net_inv_def)
    then have "BroadcastOld h m' \<notin> set (c_outbox (N j))"
      using not m'(3,4) by (auto simp: node_inv_def net_ctx_def)
    with m' show ?thesis unfolding commit_votes_def by blast
  qed
  ultimately show False using not c(2,3) unfolding certified_def by metis
qed

lemma net_ctx_ok:
  assumes "net_inv P N" "params_ok P"
  shows "ctx_ok (net_ctx P N past)"
proof -
  have "\<forall>d ms. certificate (net_ctx P N past) (n_height P d) d ms \<longrightarrow> certified P N d"
    using certificate_certified [OF assms(1)] by blast
  then show ?thesis
    using assms(2) unfolding ctx_ok_def by (simp add: net_ctx_def params_ok_def authentic_def)
qed

lemma node_step:
  assumes "net_inv P N" "i \<notin> n_faulty P"
    and "node_inv (net_ctx P N (set (c_outbox (N i)))) (N i) \<Longrightarrow> node_inv (net_ctx P N (set (c_outbox (N i)))) c'"
  shows "net_inv P (N(i := c'))"
proof -
  have "node_inv (net_ctx P N (set (c_outbox (N i)))) (N i)"
    using node_inv_mono [of N N P "{}" "N i"] assms(1,2) by (simp add: net_inv_def extends_def)
  then have c': "node_inv (net_ctx P N (set (c_outbox (N i)))) c'" by (rule assms(3))
  then have ext: "extends N (N(i := c'))" by (auto simp: extends_def node_inv_def net_ctx_def)
  show ?thesis
    using assms(1) c' node_inv_mono [OF ext] unfolding net_inv_def by auto
qed

lemma env_ok_past: "env_ok (net_ctx P N past) env = env_ok (net_ctx P N {}) env"
  by (simp add: env_ok_def net_ctx_def)

lemma event_ok_past: "event_ok (net_ctx P N past) env c ev = event_ok (net_ctx P N {}) env c ev"
proof (cases ev)
  case (MessageEvent h pl)
  then show ?thesis by (cases pl) (simp_all add: net_ctx_def)
qed (simp_all add: net_ctx_def)

lemma net_step_inv:
  assumes "net_step P N N'" "net_inv P N" "params_ok P"
  shows "net_inv P N'"
  using assms(1)
proof cases
  case (start i env c')
  show ?thesis
    unfolding start(1) using assms(2) start(2)
  proof (rule node_step)
    assume "node_inv (net_ctx P N (set (c_outbox (N i)))) (N i)"
    then show "node_inv (net_ctx P N (set (c_outbox (N i)))) c'"
      using start(3,4) net_ctx_ok [OF assms(2,3)]
      by (metis core_Start_def env_ok_past startNewRound_inv)
  qed
next
  case (event i env ev c')
  show ?thesis
    unfolding event(1) using assms(2) event(2)
  proof (rule node_step)
    assume "node_inv (net_ctx P N (set (c_outbox (N i)))) (N i)"
    then show "node_inv (net_ctx P N (set (c_outbox (N i)))) c'"
      using event(3-5) net_ctx_ok [OF assms(2,3)] by (metis env_ok_past event_ok_past handleEvent_inv)
  qed
qed

lemma net_reach_inv:
  assumes "net_reach P N" "params_ok P"
  shows "net_inv P N"
  using assms(1)
proof induction
  case init
  show ?case by (simp add: net_inv_def node_inv_def core_New_def votes_agree_def net_ctx_def)
qed (use net_step_inv assms(2) in blast)

text \<open>Two certified blocks of one height are the same: their quorums share a correct validator, and its votes
  agree.\<close>

lemma certified_unique:
  assumes "net_inv P N" "params_ok P" "certified P N d" "certified P N e" "n_height P d = n_height P e"
  shows "d = e"
proof -
  let ?C = "n_council P (n_height P d)"
  obtain Q where Q: "Q \<subseteq> ?C" "quorum_of (card ?C) \<le> card Q"
    "\<forall>j \<in> Q - n_faulty P. \<exists>sub \<in> commit_votes (c_outbox (N j)). sub_Digest sub = d \<and> view_Sequence (sub_View sub) = n_height P d"
    using assms(3) unfolding certified_def by blast
  obtain R where R: "R \<subseteq> ?C" "quorum_of (card ?C) \<le> card R"
    "\<forall>j \<in> R - n_faulty P. \<exists>sub \<in> commit_votes (c_outbox (N j)). sub_Digest sub = e \<and> view_Sequence (sub_View sub) = n_height P d"
    using assms(4) unfolding certified_def assms(5) by blast
  have fin: "finite ?C" "0 < card ?C" "card (n_faulty P \<inter> ?C) \<le> faults_of (card ?C)"
    using assms(2) by (auto simp: params_ok_def card_gt_0_iff)
  obtain j where j: "j \<in> Q" "j \<in> R" "j \<notin> n_faulty P \<inter> ?C"
    using istanbul_quorum.quorums_share_correct [OF fin(1,2) order_refl Q(1) R(1) Q(2) R(2) _ fin(3)] fin(1) by blast
  then have ok: "j \<notin> n_faulty P" using Q(1) by blast
  then have "votes_agree (c_outbox (N j))" using assms(1) by (simp add: net_inv_def node_inv_def)
  then show ?thesis using Q(3) R(3) j(1,2) ok unfolding votes_agree_def by (metis Diff_iff)
qed


section \<open>A concrete run\<close>

text \<open>A single validator that proposes a block, prepares it, votes for it and commits it.\<close>

definition solo_set :: ValidatorSet where
  "solo_set = DefSet \<lparr> ds_subSize = 21, ds_validators = [DefaultVal 1], ds_policy = 0, ds_proposer = Some (DefaultVal 1) \<rparr>"

definition solo_block :: Proposal where
  "solo_block = \<lparr> p_Hash = 7, p_Number = 1, p_ParentHash = 5, p_Round = 0 \<rparr>"

definition solo_env :: istanbulEnv where
  "solo_env = \<lparr> be_val = mod_env, be_consensusNode = True,
     be_LastProposal = Some (\<lparr> p_Hash = 5, p_Number = 0, p_ParentHash = 0, p_Round = 0 \<rparr>, 0),
     be_Validators = (\<lambda>_. solo_set), be_ParentValidators = (\<lambda>_. solo_set), be_GetProposer = (\<lambda>_. 1),
     be_HasPropsal = (\<lambda>_ _. False), be_HasBadProposal = (\<lambda>_. False),
     be_Verify = (\<lambda>p. if p_Hash p = 7 then VerifyOk else VerifyFailed), be_Commit = (\<lambda>_ _. True),
     be_Sign = (\<lambda>_. Some []), be_PayloadNoSig = (\<lambda>_. []), be_Signer = (\<lambda>m. Some (m_Address m)), be_Timeout = 1 \<rparr>"

definition solo_params :: netParams where
  "solo_params = \<lparr> n_faulty = {}, n_council = (\<lambda>_. {1}), n_height = (\<lambda>_. 1), n_valid = (\<lambda>h. h = 7) \<rparr>"

definition solo_view :: View where
  "solo_view = \<lparr> view_Round = 0, view_Sequence = 1 \<rparr>"

definition solo_msg :: "u64 \<Rightarrow> payload \<Rightarrow> message" where
  "solo_msg code pl = \<lparr> m_Hash = 5, m_Code = code, m_Msg = pl, m_Address = 1, m_Signature = [], m_CommittedSeal = [] \<rparr>"

definition solo_preprepare :: Preprepare where
  "solo_preprepare = \<lparr> pp_View = solo_view, pp_Proposal = solo_block \<rparr>"

definition solo_subject :: Subject where
  "solo_subject = \<lparr> sub_View = solo_view, sub_Digest = 7, sub_PrevHash = 5 \<rparr>"

abbreviation "solo_m1 \<equiv> solo_msg msgPreprepare (PreprepareMsg solo_preprepare)"
abbreviation "solo_m2 \<equiv> solo_msg msgPrepare (SubjectMsg solo_subject)"
abbreviation "solo_m3 \<equiv> solo_msg msgCommit (SubjectMsg solo_subject)"

definition solo_round :: "Preprepare option \<Rightarrow> message list \<Rightarrow> message list \<Rightarrow> hash \<Rightarrow> Proposal option \<Rightarrow> roundState" where
  "solo_round pp prepares commits locked req = \<lparr> rs_round = 0, rs_sequence = 1, rs_Preprepare = pp,
     rs_Prepares = \<lparr> ms_valSet = solo_set, ms_messages = map (Pair 1) prepares \<rparr>,
     rs_Commits = \<lparr> ms_valSet = solo_set, ms_messages = map (Pair 1) commits \<rparr>,
     rs_lockedHash = locked, rs_pendingRequest = req \<rparr>"

definition solo_core :: "State \<Rightarrow> roundState \<Rightarrow> coreOut list \<Rightarrow> core" where
  "solo_core st rs os = \<lparr> c_address = 1, c_state = st, c_valSet = Some solo_set, c_waitingForRoundChange = False,
     c_backlogs = [], c_current = Some rs, c_roundChangeSet = Some (newRoundChangeSet solo_set),
     c_pendingRequests = prque_New, c_outbox = os \<rparr>"

definition solo_out :: "nat \<Rightarrow> coreOut list" where
  "solo_out n = take n [SetCurrentView solo_view, SetTimer \<lparr> view_Round = 1, view_Sequence = 1 \<rparr> 1000000,
     Broadcast 5 solo_m1, Broadcast 5 solo_m2, GossipSubPeer 5 solo_m1, Broadcast 5 solo_m3, GossipSubPeer 5 solo_m2,
     CommitBlock solo_block [replicate 65 0], GossipSubPeer 5 solo_m3]"

lemmas solo_data = solo_view_def solo_msg_def solo_preprepare_def solo_subject_def solo_round_def solo_core_def
  solo_out_def solo_block_def

lemma solo_member: "vs_CheckInSubList mod_env solo_set h v 1 = Some True"
  by (simp add: solo_set_def ds_CheckInSubList_def ds_SubList_def ds_SubListWithProposer_def)

lemma solo_set_simps:
  "vs_GetByAddress solo_set 1 = Some (DefaultVal 1)" "vs_IsProposer solo_set 1 = Some True"
  "vs_CalcProposer mod_env 0 0 solo_set = Some solo_set" "RequiredMessageCount solo_set = 1"
  by (simp_all add: solo_set_def vs_GetByAddress_def ds_IsProposer_def ds_CalcProposer_def ds_selector_def Sticky_def
      roundRobinProposer_def pick_validator_def EmptyAddress_def RequiredMessageCount_def quorum_of_def voting_size_def
      ds_IsSubSet_def vs_Size_def)

lemma prque_Empty_New [simp]: "prque_Empty prque_New"
  by (simp add: prque_Empty_def prque_New_def newSstack_def sstack_Len_def)

lemmas solo_env_simps = solo_env_def solo_set_simps solo_member

lemma solo_setState: "setState st (solo_core st0 rs os) = Some (solo_core st rs os)"
  by (simp add: setState_def solo_core_def processPendingRequests_def processBacklog_def)

lemma solo_start: "core_Start solo_env (core_New 1) = Some (solo_core StateAcceptRequest (solo_round None [] [] 0 None) (solo_out 2))"
proof -
  have "enter_round solo_env \<lparr> p_Hash = 5, p_Number = 0, p_ParentHash = 0, p_Round = 0 \<rparr> 0 solo_view False (core_New 1) =
    Some (solo_core StateAcceptRequest (solo_round None [] [] 0 None) (solo_out 2))"
    by (simp add: enter_round_def Let_def solo_env_simps updateRoundState_def newRoundState_def newMessageSet_def
        set_current_def emit_def core_New_def setState_def processPendingRequests_def processBacklog_def
        newRoundChangeTimer_def round_timeout_def big_Uint64_def solo_data)
  then show ?thesis
    by (simp add: core_Start_def startNewRound_def new_round_view_def core_New_def Let_def)
      (simp add: solo_env_def solo_view_def core_New_def)
qed

lemma solo_broadcast:
  "broadcast_as out solo_env 5 code pl (solo_core st rs os) = Some (solo_core st rs (os @ [out 5 (solo_msg code pl)]))"
  by (auto simp: broadcast_as_def finalizeMessage_def solo_core_def solo_msg_def solo_env_def emit_def
      split: option.splits)

lemma solo_sel [simp]:
  "c_current (solo_core st rs os) = Some rs" "c_valSet (solo_core st rs os) = Some solo_set"
  "c_state (solo_core st rs os) = st" "c_address (solo_core st rs os) = 1"
  "set_current rs' (solo_core st rs os) = solo_core st rs' os"
  "emit os' (solo_core st rs os) = solo_core st rs (os @ os')"
  "\<not> c_waitingForRoundChange (solo_core st rs os)"
  by (simp_all add: solo_core_def set_current_def emit_def)

lemma solo_round_sel [simp]:
  "currentView (solo_round pp ps cs l req) = solo_view" "rs_sequence (solo_round pp ps cs l req) = 1"
  "rs_round (solo_round pp ps cs l req) = 0" "rs_Preprepare (solo_round pp ps cs l req) = pp"
  "rs_lockedHash (solo_round pp ps cs l req) = l"
  "rs_Subject (solo_round (Some solo_preprepare) ps cs l req) = Some solo_subject"
  "rs_Proposal (solo_round (Some solo_preprepare) ps cs l req) = Some solo_block"
  "LockHash (solo_round (Some solo_preprepare) ps cs l req) = solo_round (Some solo_preprepare) ps cs 7 req"
  "SetPreprepare pp' (solo_round pp ps cs l req) = solo_round (Some pp') ps cs l req"
  by (simp_all add: solo_round_def currentView_def rs_Subject_def rs_Proposal_def LockHash_def SetPreprepare_def
      solo_preprepare_def solo_block_def solo_subject_def solo_view_def)

lemma solo_request:
  "handleEvent solo_env (RequestEvent (Some solo_block)) (solo_core StateAcceptRequest (solo_round None [] [] 0 None) os) =
   Some (solo_core StateAcceptRequest (solo_round None [] [] 0 (Some solo_block)) (os @ [Broadcast 5 solo_m1]))"
proof -
  have r: "SetRoundToHeader (wrap_i64 0) solo_block = solo_block" "p_Number solo_block = 1" "p_ParentHash solo_block = 5"
    by (simp_all add: SetRoundToHeader_def solo_block_def wrap_i64_def)
  have p: "set_pendingRequest solo_block (solo_core st (solo_round None [] [] 0 req) os') =
      Some (solo_core st (solo_round None [] [] 0 (Some solo_block)) os')" for st req os'
    by (simp add: set_pendingRequest_def) (simp add: solo_round_def)
  have "\<lparr> pp_View = solo_view, pp_Proposal = solo_block \<rparr> = solo_preprepare" by (simp add: solo_preprepare_def)
  then show ?thesis
    by (simp add: handleRequest_def checkRequestMsg_def sendPreprepare_def isProposer_def solo_set_simps r p
        solo_broadcast Let_def)
qed

lemma solo_message:
  assumes "handle_by_code solo_env m (DefaultVal 1) c = Some (c', None)" "m_Address m = 1" "c_valSet c = Some solo_set"
  shows "handleEvent solo_env (MessageEvent 5 (Some m)) c = Some (emit [GossipSubPeer 5 m] c')"
  using assms
  by (simp add: handleMsg_def FromPayload_def checkValidatorSignature_def solo_env_def solo_set_simps rbind_def
      handleCheckedMsg_def gossip_if_ok_def)

lemma solo_preprepared:
  "handleEvent solo_env (MessageEvent 5 (Some solo_m1))
     (solo_core StateAcceptRequest (solo_round None [] [] 0 req) os) =
   Some (solo_core StatePreprepared (solo_round (Some solo_preprepare) [] [] 0 req) (os @ [Broadcast 5 solo_m2, GossipSubPeer 5 solo_m1]))"
proof -
  let ?c = "solo_core StateAcceptRequest (solo_round None [] [] 0 req) os"
  have "sendPrepare solo_env (solo_core StatePreprepared (solo_round (Some solo_preprepare) [] [] 0 req) os) =
      Some (solo_core StatePreprepared (solo_round (Some solo_preprepare) [] [] 0 req) (os @ [Broadcast 5 solo_m2]))"
    using solo_broadcast [of Broadcast msgPrepare "SubjectMsg solo_subject"]
    by (simp add: sendPrepare_def solo_subject_def) (simp add: solo_env_def solo_member)
  then have "accept_proposal solo_env solo_preprepare ?c =
      Some (solo_core StatePreprepared (solo_round (Some solo_preprepare) [] [] 0 req) (os @ [Broadcast 5 solo_m2]))"
    by (simp add: accept_proposal_def acceptPreprepare_def IsHashLocked_def solo_setState)
  moreover have "be_Verify solo_env solo_block = VerifyOk" by (simp add: solo_env_def solo_block_def)
  ultimately have "handle_by_code solo_env solo_m1 (DefaultVal 1) ?c =
      Some (solo_core StatePreprepared (solo_round (Some solo_preprepare) [] [] 0 req) (os @ [Broadcast 5 solo_m2]), None)"
    by (simp add: handle_by_code_def handlePreprepare_def checkMessage_def solo_msg_def solo_set_simps)
      (simp add: solo_preprepare_def msg_codes solo_set_simps)
  from solo_message [OF this] show ?thesis by (simp add: solo_msg_def)
qed

lemma solo_add:
  "ms_Add \<lparr> ms_valSet = solo_set, ms_messages = [] \<rparr> (solo_msg code pl) =
     (\<lparr> ms_valSet = solo_set, ms_messages = [(1, solo_msg code pl)] \<rparr>, None)"
  by (simp add: ms_Add_def ms_verify_def solo_msg_def solo_set_simps)

lemma solo_sendCommit:
  "sendCommit solo_env (solo_core st (solo_round (Some solo_preprepare) ps cs l req) os) =
   Some (solo_core st (solo_round (Some solo_preprepare) ps cs l req) (os @ [Broadcast 5 solo_m3]))"
proof -
  have "be_val solo_env = mod_env" "sub_PrevHash solo_subject = 5" by (simp_all add: solo_env_def solo_subject_def)
  then show ?thesis by (simp add: sendCommit_def broadcastCommit_def solo_member solo_broadcast)
qed

lemma solo_accepts:
  "acceptPrepare solo_m2 (solo_core st (solo_round pp [] cs l req) os) = Some (solo_core st (solo_round pp [solo_m2] cs l req) os)"
  "acceptCommit solo_m3 (solo_core st (solo_round pp ps [] l req) os) = Some (solo_core st (solo_round pp ps [solo_m3] l req) os)"
  by (simp_all add: acceptPrepare_def acceptCommit_def) (simp_all add: solo_round_def solo_add)

lemma solo_prepared:
  "handleEvent solo_env (MessageEvent 5 (Some solo_m2))
     (solo_core StatePreprepared (solo_round (Some solo_preprepare) [] [] 0 req) os) =
   Some (solo_core StatePrepared (solo_round (Some solo_preprepare) [solo_m2] [] 7 req) (os @ [Broadcast 5 solo_m3, GossipSubPeer 5 solo_m2]))"
proof -
  let ?c = "solo_core StatePreprepared (solo_round (Some solo_preprepare) [] [] 0 req) os"
  have "GetPrepareOrCommitSize (solo_round (Some solo_preprepare) [solo_m2] [] 0 req) = 1"
    by (simp add: GetPrepareOrCommitSize_def solo_round_def ms_Size_def ms_Values_def ms_Get_def)
  then have "enter_prepared solo_env 7 (solo_core StatePreprepared (solo_round (Some solo_preprepare) [solo_m2] [] 0 req) os) =
      Some (solo_core StatePrepared (solo_round (Some solo_preprepare) [solo_m2] [] 7 req) (os @ [Broadcast 5 solo_m3]))"
    by (simp add: enter_prepared_def IsHashLocked_def solo_setState solo_sendCommit solo_set_simps less_State_def)
  moreover have "sub_Digest solo_subject = 7" "sub_View solo_subject = solo_view" by (simp_all add: solo_subject_def)
  moreover have "vs_CheckInSubList (be_val solo_env) solo_set (m_Hash solo_m2) solo_view 1 = Some True"
    by (simp add: solo_env_def solo_member)
  moreover have "m_Msg solo_m2 = SubjectMsg solo_subject" "m_Code solo_m2 = msgPrepare" "m_Address solo_m2 = 1"
    by (simp_all add: solo_msg_def)
  ultimately have "handle_by_code solo_env solo_m2 (DefaultVal 1) ?c =
      Some (solo_core StatePrepared (solo_round (Some solo_preprepare) [solo_m2] [] 7 req) (os @ [Broadcast 5 solo_m3]), None)"
    by (simp add: handle_by_code_def handlePrepare_def checkMessage_def solo_accepts) (simp add: msg_codes)
  from solo_message [OF this] show ?thesis by (simp add: solo_msg_def)
qed

lemma solo_committed:
  "handleEvent solo_env (MessageEvent 5 (Some solo_m3))
     (solo_core StatePrepared (solo_round (Some solo_preprepare) ps [] 7 req) os) =
   Some (solo_core StateCommitted (solo_round (Some solo_preprepare) ps [solo_m3] 7 req)
     (os @ [CommitBlock solo_block [replicate 65 0], GossipSubPeer 5 solo_m3]))"
proof -
  let ?c = "solo_core StatePrepared (solo_round (Some solo_preprepare) ps [] 7 req) os"
  have seals: "map (\<lambda>m. seal_of (m_CommittedSeal m)) (ms_Values (rs_Commits (solo_round pp ps [solo_m3] l req))) = [replicate 65 0]"
    for pp l by (simp add: ms_Values_def solo_round_def solo_msg_def seal_of_def)
  have "ms_Size (rs_Commits (solo_round (Some solo_preprepare) ps [solo_m3] 7 req)) = 1"
    by (simp add: solo_round_def ms_Size_def)
  then have "commit_if_quorum solo_env (solo_core StatePrepared (solo_round (Some solo_preprepare) ps [solo_m3] 7 req) os) =
      Some (solo_core StateCommitted (solo_round (Some solo_preprepare) ps [solo_m3] 7 req) (os @ [CommitBlock solo_block [replicate 65 0]]))"
    by (simp add: commit_if_quorum_def core_commit_def solo_setState solo_set_simps less_State_def seals)
      (simp add: solo_env_def)
  moreover have "enter_prepared solo_env 7 (solo_core StatePrepared (solo_round (Some solo_preprepare) ps [solo_m3] 7 req) os) =
      Some (solo_core StatePrepared (solo_round (Some solo_preprepare) ps [solo_m3] 7 req) os)"
    by (simp add: enter_prepared_def less_State_def)
  moreover have "sub_Digest solo_subject = 7" "sub_View solo_subject = solo_view" by (simp_all add: solo_subject_def)
  moreover have "vs_CheckInSubList (be_val solo_env) solo_set (m_Hash solo_m3) solo_view 1 = Some True"
    by (simp add: solo_env_def solo_member)
  moreover have "m_Msg solo_m3 = SubjectMsg solo_subject" "m_Code solo_m3 = msgCommit" "m_Address solo_m3 = 1"
    by (simp_all add: solo_msg_def)
  ultimately have "handle_by_code solo_env solo_m3 (DefaultVal 1) ?c =
      Some (solo_core StateCommitted (solo_round (Some solo_preprepare) ps [solo_m3] 7 req) (os @ [CommitBlock solo_block [replicate 65 0]]), None)"
    by (simp add: handle_by_code_def handleCommit_def checkMessage_def solo_accepts) (simp add: msg_codes)
  from solo_message [OF this] show ?thesis by (simp add: solo_msg_def)
qed

lemma solo_env_ok: "env_ok (net_ctx solo_params N {}) solo_env"
  by (auto simp: env_ok_def net_ctx_def solo_params_def solo_env_def solo_set_def good_set_def ds_IsSubSet_def
      split: if_splits)

lemma solo_step:
  assumes "net_reach solo_params N" "handleEvent solo_env ev (N 1) = Some c'"
    and "event_ok (net_ctx solo_params N {}) solo_env (N 1) ev"
  shows "net_reach solo_params (N(1 := c'))"
  using assms net_step.event [OF _ solo_env_ok assms(3,2)] by (auto simp: solo_params_def intro: net_reach.step)

lemma solo_deliver:
  assumes "net_reach solo_params N" "handleEvent solo_env (MessageEvent 5 (Some (solo_msg code pl))) (N 1) = Some c'"
    and "Broadcast 5 (solo_msg code pl) \<in> set (c_outbox (N 1))" "pl = PreprepareMsg solo_preprepare \<or> pl = SubjectMsg solo_subject"
  shows "net_reach solo_params (N(1 := c'))"
  using assms(1,2)
proof (rule solo_step)
  have "m_Address (solo_msg code pl) = 1" by (simp add: solo_msg_def)
  then have "sent N (solo_msg code pl)" using assms(3) unfolding sent_def by metis
  then show "event_ok (net_ctx solo_params N {}) solo_env (N 1) (MessageEvent 5 (Some (solo_msg code pl)))"
    using assms(4)
    by (auto simp: net_ctx_def authentic_def solo_params_def solo_msg_def solo_preprepare_def solo_view_def solo_block_def)
qed

lemma solo_run:
  "\<exists>N. net_reach solo_params N \<and> CommitBlock solo_block [replicate 65 0] \<in> set (c_outbox (N 1))"
proof -
  define N1 where "N1 = core_New(1 := solo_core StateAcceptRequest (solo_round None [] [] 0 None) (solo_out 2))"
  have "net_reach solo_params N1"
    unfolding N1_def using net_step.start [OF _ solo_env_ok, of 1 core_New] solo_start
    by (auto simp: solo_params_def intro: net_reach.intros)
  then have "net_reach solo_params (N1(1 := solo_core StateAcceptRequest (solo_round None [] [] 0 (Some solo_block))
      (solo_out 2 @ [Broadcast 5 solo_m1])))" (is "net_reach _ ?N2")
    by (rule solo_step [where ev = "RequestEvent (Some solo_block)"]) (simp_all add: N1_def solo_request del: handleEvent.simps)
  then have "net_reach solo_params (?N2(1 := solo_core StatePreprepared (solo_round (Some solo_preprepare) [] [] 0 (Some solo_block))
      ((solo_out 2 @ [Broadcast 5 solo_m1]) @ [Broadcast 5 solo_m2, GossipSubPeer 5 solo_m1])))" (is "net_reach _ ?N3")
    by (rule solo_deliver [where code = msgPreprepare and pl = "PreprepareMsg solo_preprepare"])
      (simp_all add: solo_preprepared del: handleEvent.simps, simp add: solo_core_def)
  then have "net_reach solo_params (?N3(1 := solo_core StatePrepared (solo_round (Some solo_preprepare) [solo_m2] [] 7 (Some solo_block))
      (((solo_out 2 @ [Broadcast 5 solo_m1]) @ [Broadcast 5 solo_m2, GossipSubPeer 5 solo_m1]) @
        [Broadcast 5 solo_m3, GossipSubPeer 5 solo_m2])))" (is "net_reach _ ?N4")
    by (rule solo_deliver [where code = msgPrepare and pl = "SubjectMsg solo_subject"])
      (simp_all add: solo_prepared del: handleEvent.simps, simp add: solo_core_def)
  then have "net_reach solo_params (?N4(1 := solo_core StateCommitted (solo_round (Some solo_preprepare) [solo_m2] [solo_m3] 7 (Some solo_block))
      ((((solo_out 2 @ [Broadcast 5 solo_m1]) @ [Broadcast 5 solo_m2, GossipSubPeer 5 solo_m1]) @
        [Broadcast 5 solo_m3, GossipSubPeer 5 solo_m2]) @ [CommitBlock solo_block [replicate 65 0], GossipSubPeer 5 solo_m3])))"
    by (rule solo_deliver [where code = msgCommit and pl = "SubjectMsg solo_subject"])
      (simp_all add: solo_committed del: handleEvent.simps, simp add: solo_core_def)
  then show ?thesis by (intro exI conjI, assumption) (simp add: solo_core_def)
qed


end
