(* ===== verification/Istanbul_Views.thy ===== *)
theory Istanbul_Views
  imports Istanbul_Network
begin

text \<open>
  Two properties of a single engine that need no assumption on the backend: its view never goes back, and what the
  COMMIT message for an old block carries.
\<close>

section \<open>Views\<close>

definition view_of :: "core \<Rightarrow> View option" where
  "view_of c = map_option currentView (c_current c)"

definition advances :: "core \<Rightarrow> core \<Rightarrow> bool" where
  "advances c c' \<longleftrightarrow> (\<forall>v. view_of c = Some v \<longrightarrow> (\<exists>v'. view_of c' = Some v' \<and> View_Cmp v v' \<le> 0))"

lemma View_le: "View_Cmp v w \<le> 0 \<longleftrightarrow>
    view_Sequence v < view_Sequence w \<or> view_Sequence v = view_Sequence w \<and> view_Round v \<le> view_Round w"
  by (auto simp: View_Cmp_def Let_def sgn_if)

lemma View_le_trans: "View_Cmp a b \<le> 0 \<Longrightarrow> View_Cmp b c \<le> 0 \<Longrightarrow> View_Cmp a c \<le> 0"
  unfolding View_le by auto

lemma advances_refl [simp]: "advances c c"
  by (simp add: advances_def)

lemma advances_same: "view_of c' = view_of c \<Longrightarrow> advances c c'"
  by (simp add: advances_def)

lemma advances_left: "advances d c' \<Longrightarrow> view_of d = view_of c \<Longrightarrow> advances c c'"
  by (simp add: advances_def)

lemma advances_trans: "advances a b \<Longrightarrow> advances b c \<Longrightarrow> advances a c"
  unfolding advances_def by (meson View_le_trans)

lemma view_of_simps [simp]:
  "view_of (emit os c) = view_of c" "view_of (c\<lparr> c_backlogs := bs \<rparr>) = view_of c" "view_of (c\<lparr> c_state := st \<rparr>) = view_of c"
  "view_of (c\<lparr> c_pendingRequests := q \<rparr>) = view_of c" "view_of (c\<lparr> c_roundChangeSet := r \<rparr>) = view_of c"
  "view_of (c\<lparr> c_waitingForRoundChange := b \<rparr>) = view_of c" "view_of (c\<lparr> c_valSet := v \<rparr>) = view_of c"
  "view_of (set_current rs c) = Some (currentView rs)"
  by (simp_all add: view_of_def)

lemma view_of_current: "c_current c = Some rs \<Longrightarrow> view_of c = Some (currentView rs)"
  by (simp add: view_of_def)

lemma setState_view: "setState st c = Some c' \<Longrightarrow> view_of c' = view_of c"
proof -
  assume s: "setState st c = Some c'"
  have b: "view_of d' = view_of d" if "processBacklog d = Some d'" for d d'
    using that by (auto simp: processBacklog_def bind_eq_Some_conv split: if_splits)
  have p: "view_of d' = view_of d" if "processPendingRequests d = Some d'" for d d'
    using that by (auto simp: processPendingRequests_def bind_eq_Some_conv split: if_splits)
  show ?thesis
    using s b p by (fastforce simp: setState_def bind_eq_Some_conv split: if_splits)
qed

lemma broadcast_view: "broadcast_as out env h code pl c = Some c' \<Longrightarrow> view_of c' = view_of c"
  using broadcast_as_cases [of out env h code pl c c'] by auto

lemma sendPreprepare_view: "sendPreprepare env p c = Some (c', p') \<Longrightarrow> view_of c' = view_of c"
  by (auto simp: sendPreprepare_def bind_eq_Some_conv Let_def split: if_splits dest: broadcast_view)

lemma sendPrepare_view: "sendPrepare env c = Some c' \<Longrightarrow> view_of c' = view_of c"
  by (auto simp: sendPrepare_def bind_eq_Some_conv split: if_splits dest: broadcast_view)

lemma sendCommit_view: "sendCommit env c = Some c' \<Longrightarrow> view_of c' = view_of c"
  by (auto simp: sendCommit_def broadcastCommit_def bind_eq_Some_conv split: if_splits option.splits dest: broadcast_view)

lemma set_pendingRequest_view: "set_pendingRequest p c = Some c' \<Longrightarrow> view_of c' = view_of c"
  by (auto simp: set_pendingRequest_def bind_eq_Some_conv view_of_def currentView_def)

lemma timer_view: "newRoundChangeTimer env c = Some c' \<Longrightarrow> view_of c' = view_of c"
  by (auto simp: newRoundChangeTimer_def bind_eq_Some_conv)

lemma updateRoundState_view: "view_of (updateRoundState env view vs b c) = Some view"
  by (auto simp: updateRoundState_def newRoundState_def currentView_def split: option.splits bool.splits)

lemma sendRoundChange_advances:
  assumes "sendRoundChange env rnd c = Some c'"
  shows "advances c c'"
proof -
  obtain rs where rs: "c_current c = Some rs" using assms by (auto simp: sendRoundChange_def bind_eq_Some_conv)
  show ?thesis
  proof (cases "rs_round rs \<ge> rnd")
    case False
    let ?v = "\<lparr> view_Round = rnd, view_Sequence = rs_sequence rs \<rparr>"
    obtain c1 h pl where c1: "catchUpRound env ?v c = Some c1" "broadcast env h msgRoundChange pl c1 = Some c'"
      using assms rs False by (auto simp: sendRoundChange_def bind_eq_Some_conv)
    have "view_of c1 = Some ?v"
      using c1(1) by (auto simp: catchUpRound_def bind_eq_Some_conv Let_def updateRoundState_view dest!: timer_view)
    then have "view_of c' = Some ?v" using broadcast_view [OF c1(2)] by simp
    then show ?thesis using rs False by (simp add: advances_def view_of_current View_le currentView_def)
  qed (use assms rs in \<open>simp add: sendRoundChange_def\<close>)
qed

lemma sendNextRoundChange_advances: "sendNextRoundChange env c = Some c' \<Longrightarrow> advances c c'"
  by (auto simp: sendNextRoundChange_def bind_eq_Some_conv split: if_splits intro: sendRoundChange_advances)

lemma repropose_view: "repropose env c = Some c' \<Longrightarrow> view_of c' = view_of c"
  by (auto simp: repropose_def bind_eq_Some_conv split: if_splits option.splits
      dest!: sendPreprepare_view set_pendingRequest_view)

lemma enter_round_view:
  assumes "enter_round env p a view b c = Some c'"
  shows "view_of c' = Some view"
proof -
  from assms obtain vs vs' c1 c3 c4 where
    c3: "setState StateAcceptRequest (updateRoundState env view vs b c1\<lparr> c_valSet := Some vs', c_waitingForRoundChange := False \<rparr>) = Some c3"
    and c4: "(if b then repropose env c3 else Some c3) = Some c4" and c': "newRoundChangeTimer env c4 = Some c'"
    by (auto simp: enter_round_def bind_eq_Some_conv Let_def)
  have "view_of c3 = Some view" using setState_view [OF c3] by (simp add: updateRoundState_view)
  moreover have "view_of c4 = view_of c3" using c4 repropose_view by (auto split: if_splits)
  ultimately show ?thesis using timer_view [OF c'] by simp
qed

lemma startNewRound_advances:
  assumes "startNewRound env rnd c = Some c'"
  shows "advances c c'"
proof -
  obtain p a where last: "be_LastProposal env = Some (p, a)" using assms by (auto simp: startNewRound_def bind_eq_Some_conv)
  show ?thesis
  proof (cases "new_round_view p rnd (c_current c)")
    case (Some vb)
    obtain view b where vb: "vb = (view, b)" by (cases vb)
    have "view_of c' = Some view"
      using assms last Some vb enter_round_view by (simp add: startNewRound_def)
    moreover have "View_Cmp (currentView rs) view \<le> 0" if "c_current c = Some rs" for rs
      using Some vb that by (auto simp: new_round_view_def Let_def View_le currentView_def split: if_splits)
    ultimately show ?thesis by (auto simp: advances_def view_of_def)
  qed (use assms last in \<open>simp add: startNewRound_def\<close>)
qed

lemma core_commit_advances:
  assumes "core_commit env c = Some c'"
  shows "advances c c'"
proof -
  obtain c1 rs where c1: "setState StateCommitted c = Some c1" "c_current c1 = Some rs"
    using assms by (auto simp: core_commit_def bind_eq_Some_conv)
  have v: "view_of c1 = view_of c" by (rule setState_view [OF c1(1)])
  have u: "view_of (set_current (UnlockHash rs) d) = view_of c1" for d
    using c1(2) by (simp add: view_of_current currentView_def UnlockHash_def)
  have "view_of c' = view_of c1 \<or> (\<exists>d. sendNextRoundChange env (set_current (UnlockHash rs) d) = Some c')"
    using assms c1 by (auto simp: core_commit_def Let_def split: option.splits if_splits)
  then show ?thesis
  proof
    assume "\<exists>d. sendNextRoundChange env (set_current (UnlockHash rs) d) = Some c'"
    then obtain d where "advances (set_current (UnlockHash rs) d) c'" using sendNextRoundChange_advances by blast
    then show ?thesis using u [of d] v advances_left by metis
  qed (use v in \<open>simp add: advances_same\<close>)
qed

lemma currentView_LockHash [simp]: "currentView (LockHash rs) = currentView rs"
  by (simp add: currentView_def)

lemma enter_prepared_view:
  assumes "enter_prepared env d c = Some c'"
  shows "view_of c' = view_of c"
proof -
  obtain rs where rs: "c_current c = Some rs" using assms by (auto simp: enter_prepared_def bind_eq_Some_conv)
  have "c' = c \<or> (\<exists>c0 c1. (c0 = c \<or> c0 = set_current (LockHash rs) c) \<and> setState StatePrepared c0 = Some c1 \<and> sendCommit env c1 = Some c')"
    using assms rs by (auto simp: enter_prepared_def bind_eq_Some_conv split: if_splits)
  then show ?thesis
    using rs by (auto simp: view_of_current dest!: setState_view sendCommit_view)
qed

lemma commit_if_quorum_advances:
  assumes "commit_if_quorum env c = Some c'"
  shows "advances c c'"
proof -
  obtain rs where rs: "c_current c = Some rs" using assms by (auto simp: commit_if_quorum_def bind_eq_Some_conv)
  then consider "c' = c" | "core_commit env (set_current (LockHash rs) c) = Some c'"
    using assms by (auto simp: commit_if_quorum_def bind_eq_Some_conv split: if_splits)
  then show ?thesis
  proof cases
    case 2
    show ?thesis by (rule advances_left [OF core_commit_advances [OF 2]]) (simp add: view_of_current rs)
  qed simp
qed

lemma acceptPreprepare_view: "acceptPreprepare pp c = Some c' \<Longrightarrow> view_of c' = view_of c"
  by (auto simp: acceptPreprepare_def SetPreprepare_def bind_eq_Some_conv view_of_def currentView_def)

lemma accept_proposal_advances:
  assumes "accept_proposal env pp c = Some c'"
  shows "advances c c'"
proof -
  obtain rs where rs: "c_current c = Some rs" using assms by (auto simp: accept_proposal_def bind_eq_Some_conv)
  have r: "view_of (set_current rs1 c) = view_of c" if "refresh_locked_proposal rs = Some rs1" for rs1
    using that rs by (auto simp: refresh_locked_proposal_def bind_eq_Some_conv view_of_current currentView_def)
  show ?thesis
  proof (cases "IsHashLocked (be_HasBadProposal env) rs")
    case False
    then obtain c1 c2 where "acceptPreprepare pp c = Some c1" "setState StatePreprepared c1 = Some c2" "sendPrepare env c2 = Some c'"
      using assms rs by (auto simp: accept_proposal_def bind_eq_Some_conv)
    then show ?thesis by (simp add: advances_same acceptPreprepare_view setState_view sendPrepare_view)
  next
    case True
    then obtain rs1 where rs1: "refresh_locked_proposal rs = Some rs1"
      using assms rs by (auto simp: accept_proposal_def bind_eq_Some_conv)
    show ?thesis
    proof (cases "p_Hash (pp_Proposal pp) = rs_lockedHash rs1")
      case False
      then have "sendNextRoundChange env (set_current rs1 c) = Some c'"
        using True assms rs rs1 by (simp add: accept_proposal_def)
      then show ?thesis using r [OF rs1] sendNextRoundChange_advances advances_left by blast
    next
      case same: True
      then obtain c2 c3 where "acceptPreprepare pp (set_current rs1 c) = Some c2" "setState StatePrepared c2 = Some c3"
          "sendCommit env c3 = Some c'"
        using True assms rs rs1 by (auto simp: accept_proposal_def bind_eq_Some_conv)
      then show ?thesis using r [OF rs1] acceptPreprepare_view setState_view sendCommit_view advances_same by metis
    qed
  qed
qed

lemma accept_vote_view:
  "acceptPrepare msg c = Some c' \<Longrightarrow> view_of c' = view_of c" "acceptCommit msg c = Some c' \<Longrightarrow> view_of c' = view_of c"
  by (auto simp: acceptPrepare_def acceptCommit_def bind_eq_Some_conv view_of_def currentView_def)

lemma handle_old_preprepare_view:
  "handle_old_preprepare env pp src c = Some (c', err) \<Longrightarrow> view_of c' = view_of c"
  by (auto simp: handle_old_preprepare_def sendCommitForOldBlock_def broadcastCommit_def Let_def bind_eq_Some_conv
      split: if_splits dest!: broadcast_view)

lemma handlePreprepare_advances:
  assumes "handlePreprepare env msg src c = Some (c', err)"
  shows "advances c c'"
proof -
  have "c' = c \<or> c' = emit [PostBacklogLater (val_Address src) msg (m_Hash msg)] c \<or> sendNextRoundChange env c = Some c' \<or>
      (\<exists>pp. handle_old_preprepare env pp src c = Some (c', err) \<or> accept_proposal env pp c = Some c')"
    using assms
    by (auto simp: handlePreprepare_def bind_eq_Some_conv split: option.splits if_splits verifyResult.splits)
  then show ?thesis
    by (elim disjE exE)
      (simp_all add: advances_same sendNextRoundChange_advances handle_old_preprepare_view accept_proposal_advances)
qed

lemma handlePrepare_advances:
  assumes "handlePrepare env msg src c = Some (c', err)"
  shows "advances c c'"
proof -
  have "c' = c \<or> (\<exists>c1 d. acceptPrepare msg c = Some c1 \<and> enter_prepared env d c1 = Some c')"
    using assms by (auto simp: handlePrepare_def bind_eq_Some_conv split: option.splits if_splits)
  then show ?thesis by (auto simp: accept_vote_view enter_prepared_view intro!: advances_same)
qed

lemma handleCommit_advances:
  assumes "handleCommit env msg src c = Some (c', err)"
  shows "advances c c'"
  using assms
proof (cases rule: handleCommit_cases)
  case (2 rs sub c1 c2)
  have "view_of c2 = view_of c" using accept_vote_view(2) [OF 2(5)] enter_prepared_view [OF 2(6)] by simp
  then show ?thesis using commit_if_quorum_advances [OF 2(7)] advances_left by blast
qed simp

lemma handleRoundChange_advances:
  assumes "handleRoundChange env msg c = Some (c', err)"
  shows "advances c c'"
proof -
  have "c' = c \<or> (\<exists>rcs. c' = c\<lparr> c_roundChangeSet := rcs \<rparr> \<or>
      (\<exists>rnd. startNewRound env rnd (c\<lparr> c_roundChangeSet := rcs \<rparr>) = Some c' \<or>
             sendRoundChange env rnd (c\<lparr> c_roundChangeSet := rcs \<rparr>) = Some c'))"
    using assms
    by (auto simp: handleRoundChange_def Let_def bind_eq_Some_conv split: option.splits if_splits sum.splits)
  moreover have left: "advances c c'" if "advances (c\<lparr> c_roundChangeSet := rcs \<rparr>) c'" for rcs
    using advances_left [OF that] by simp
  ultimately show ?thesis
    using startNewRound_advances [THEN left] sendRoundChange_advances [THEN left]
    by (elim disjE exE) (auto simp: advances_same)
qed

lemma handle_by_code_advances:
  "handle_by_code env msg src c = Some (c', err) \<Longrightarrow> advances c c'"
  unfolding handle_by_code_def
  by (auto split: if_splits simp: handlePreprepare_advances handlePrepare_advances handleCommit_advances handleRoundChange_advances)

lemma handleCheckedMsg_advances:
  assumes "handleCheckedMsg env msg src c = Some (c', err)"
  shows "advances c c'"
proof -
  obtain c1 where c1: "handle_by_code env msg src c = Some (c1, err)" "c' = c1 \<or> c' = storeBacklog msg src c1"
    using assms by (auto simp: handleCheckedMsg_def bind_eq_Some_conv split: if_splits)
  have "view_of (storeBacklog msg src c1) = view_of c1" by (simp add: storeBacklog_def Let_def)
  then have "view_of c' = view_of c1" using c1(2) by auto
  then show ?thesis using handle_by_code_advances [OF c1(1)] by (simp add: advances_def)
qed

lemma handleMsg_advances:
  assumes "handleMsg env pl c = Some (c', err)"
  shows "advances c c'"
proof -
  obtain vs where vs: "c_valSet c = Some vs" using assms by (auto simp: handleMsg_def bind_eq_Some_conv)
  show ?thesis
  proof (cases "FromPayload env vs pl")
    case (Inr msg)
    then show ?thesis
      using assms vs handleCheckedMsg_advances
      by (cases "vs_GetByAddress vs (m_Address msg)") (auto simp: handleMsg_def)
  qed (use assms vs in \<open>simp add: handleMsg_def\<close>)
qed

lemma handleTimeoutMsg_advances:
  assumes "handleTimeoutMsg env v c = Some c'"
  shows "advances c c'"
proof -
  have "c' = c \<or> (\<exists>rnd. sendRoundChange env rnd c = Some c') \<or> startNewRound env 0 c = Some c'"
    using assms by (auto simp: handleTimeoutMsg_def Let_def bind_eq_Some_conv split: option.splits if_splits)
  then show ?thesis using sendRoundChange_advances startNewRound_advances by auto
qed

lemma handleRequest_view:
  assumes "handleRequest env request c = Some (c', err)"
  shows "view_of c' = view_of c"
proof -
  have "c' = c \<or> (\<exists>p c1. set_pendingRequest p c = Some c1 \<and>
      (c' = c1 \<or> (\<exists>p' c2. sendPreprepare env p c1 = Some (c2, p') \<and> set_pendingRequest p' c2 = Some c')))"
    using assms by (auto simp: handleRequest_def bind_eq_Some_conv split: option.splits if_splits)
  then show ?thesis by (elim disjE exE conjE) (auto dest!: set_pendingRequest_view sendPreprepare_view)
qed

lemma gossip_view [simp]: "view_of (gossip_if_ok h msg r) = view_of (fst r)"
  by (simp add: gossip_if_ok_def)

lemma advances_right: "advances c d \<Longrightarrow> view_of c' = view_of d \<Longrightarrow> advances c c'"
  by (simp add: advances_def)

lemma handleEvent_advances:
  assumes "handleEvent env e c = Some c'"
  shows "advances c c'"
proof (cases e)
  case (RequestEvent request)
  then obtain c1 err where c1: "handleRequest env request c = Some (c1, err)" "c' = c1 \<or> (\<exists>p. c' = storeRequestMsg p c1)"
    using assms by (auto simp: bind_eq_Some_conv split: option.splits if_splits)
  then have "view_of c' = view_of c1" by (auto simp: storeRequestMsg_def)
  then show ?thesis using handleRequest_view [OF c1(1)] by (simp add: advances_same)
next
  case (MessageEvent h pl)
  then obtain c1 err where c1: "handleMsg env pl c = Some (c1, err)" "view_of c' = view_of c1"
    using assms by (auto simp: bind_eq_Some_conv split: option.splits)
  show ?thesis using advances_right [OF handleMsg_advances [OF c1(1)] c1(2)] .
next
  case (BacklogEvent a m h)
  then have "c' = c \<or> (\<exists>src c1 err. handleCheckedMsg env m src c = Some (c1, err) \<and> c' = gossip_if_ok h m (c1, err))"
    using assms by (auto simp: bind_eq_Some_conv split: option.splits)
  then show ?thesis using handleCheckedMsg_advances advances_right by fastforce
next
  case (TimeoutEvent v)
  then show ?thesis using assms handleTimeoutMsg_advances by simp
next
  case FinalCommittedEvent
  then show ?thesis using assms startNewRound_advances by (simp add: handleFinalCommitted_def)
qed

section \<open>Runs of one engine\<close>

text \<open>The loop of \<open>handleEvents\<close> over a finite number of events; the answers of the backend may differ from event to
  event. \<open>None\<close> is a panic.\<close>

fun handleEvents :: "(istanbulEnv \<times> coreEvent) list \<Rightarrow> core \<Rightarrow> core option" where
  "handleEvents [] c = Some c"
| "handleEvents ((env, e) # es) c = do { c1 \<leftarrow> handleEvent env e c; handleEvents es c1 }"

lemma handleEvents_advances: "handleEvents es c = Some c' \<Longrightarrow> advances c c'"
proof (induction es c rule: handleEvents.induct)
  case (2 env e es c)
  then obtain c1 where "handleEvent env e c = Some c1" "handleEvents es c1 = Some c'"
    by (auto simp: bind_eq_Some_conv)
  then show ?case using 2(1) handleEvent_advances advances_trans by blast
qed simp

text \<open>C16: Over any sequence of requests, messages, timeouts and final-commit events, and whatever the backend answers,
  the view of a running engine (sequence first, then round) never goes back. So a validator never votes twice in a round
  by returning to it.\<close>

theorem view_never_goes_back:
  assumes "handleEvents es c = Some c'" and "c_current c = Some rs"
  shows "\<exists>rs'. c_current c' = Some rs' \<and> View_Cmp (currentView rs) (currentView rs') \<le> 0"
  using handleEvents_advances [OF assms(1)] assms(2) by (auto simp: advances_def view_of_def)

text \<open>Witness: the request of a block followed by its PRE-PREPARE in the engine of the single validator.\<close>

theorem view_never_goes_back_witness:
  "\<exists>c' rs'. handleEvents [(solo_env, RequestEvent (Some solo_block)), (solo_env, MessageEvent 5 (Some solo_m1))]
       (solo_core StateAcceptRequest (solo_round None [] [] 0 None) []) = Some c' \<and>
     c_current c' = Some rs' \<and> View_Cmp solo_view (currentView rs') \<le> 0"
proof -
  let ?c = "solo_core StateAcceptRequest (solo_round None [] [] 0 None) []"
  let ?es = "[(solo_env, RequestEvent (Some solo_block)), (solo_env, MessageEvent 5 (Some solo_m1))]"
  obtain c' where run: "handleEvents ?es ?c = Some c'" by (simp add: solo_request solo_preprepared del: handleEvent.simps)
  from view_never_goes_back [OF this solo_sel(1)] show ?thesis using run by (simp del: handleEvents.simps)
qed

section \<open>The COMMIT for an old block\<close>

text \<open>C40: An old PRE-PREPARE of a block the node has, from the proposer of its round, is answered with a COMMIT for the
  old block whose committed seal is the signature on the proposal of the \<open>current\<close> round, whatever the state of that
  round: also when no quorum of PREPARE messages has been seen for it.\<close>

theorem old_block_commit_seals_current_proposal:
  assumes cur: "c_current c = Some rs" "rs_Proposal rs = Some p"
    and msg: "m_Code msg = msgPreprepare" "m_Msg msg = PreprepareMsg pp" "View_Cmp (pp_View pp) (currentView rs) < 0"
    and known: "be_HasPropsal env (p_Hash (pp_Proposal pp)) (p_Number (pp_Proposal pp))"
    and proposer: "vs_CalcProposer (be_val env) (be_GetProposer env (big_Uint64 (p_Number (pp_Proposal pp)) - 1))
        (big_Uint64 (view_Round (pp_View pp))) (vs_Copy (be_val env) (be_ParentValidators env (pp_Proposal pp))) = Some vs"
      "vs_IsProposer vs (val_Address src) = Some True"
    and sign: "\<And>b. be_Sign env b = Some (sig b)"
  shows "\<exists>m. handleCheckedMsg env msg src c = Some (emit [BroadcastOld (p_ParentHash (pp_Proposal pp)) m] c, None) \<and>
    m_Msg m = SubjectMsg \<lparr> sub_View = pp_View pp, sub_Digest = p_Hash (pp_Proposal pp),
      sub_PrevHash = p_ParentHash (pp_Proposal pp) \<rparr> \<and>
    m_CommittedSeal m = sig (PrepareCommittedSeal (p_Hash p))"
proof -
  have old: "checkMessage c rs msgPreprepare (pp_View pp) = Some errOldMessage"
    using msg(3) by (simp add: checkMessage_def msg_codes)
  show ?thesis
    using cur msg(1,2) known proposer old
    by (simp add: handleCheckedMsg_def handle_by_code_def handlePreprepare_def handle_old_preprepare_def
        sendCommitForOldBlock_def broadcastCommit_def broadcast_as_def finalizeMessage_def sign Let_def)
      (intro exI conjI, rule refl, simp_all)
qed

text \<open>Witness: the single validator, which has preprepared block 7 and seen no PREPARE, receives the PRE-PREPARE of
  block 3 and signs block 7.\<close>

definition old_preprepare :: Preprepare where
  "old_preprepare = \<lparr> pp_View = \<lparr> view_Round = 0, view_Sequence = 0 \<rparr>,
     pp_Proposal = \<lparr> p_Hash = 3, p_Number = 0, p_ParentHash = 2, p_Round = 0 \<rparr> \<rparr>"

definition old_env :: istanbulEnv where
  "old_env = solo_env\<lparr> be_HasPropsal := \<lambda>_ _. True, be_GetProposer := \<lambda>_. 0, be_Sign := Some \<rparr>"

lemma solo_copy: "vs_Copy mod_env solo_set = solo_set"
  by (simp add: solo_set_def ds_Copy_def newDefaultSubSet_def sort_validators_def getByIndex_def)

theorem old_block_commit_seals_current_proposal_witness:
  "\<exists>m. handleCheckedMsg old_env (solo_msg msgPreprepare (PreprepareMsg old_preprepare)) (DefaultVal 1)
      (solo_core StatePreprepared (solo_round (Some solo_preprepare) [] [] 0 None) []) =
      Some (solo_core StatePreprepared (solo_round (Some solo_preprepare) [] [] 0 None) [BroadcastOld 2 m], None) \<and>
    m_Msg m = SubjectMsg \<lparr> sub_View = pp_View old_preprepare, sub_Digest = 3, sub_PrevHash = 2 \<rparr> \<and>
    m_CommittedSeal m = PrepareCommittedSeal 7"
proof -
  let ?c = "solo_core StatePreprepared (solo_round (Some solo_preprepare) [] [] 0 None) []"
  let ?m = "solo_msg msgPreprepare (PreprepareMsg old_preprepare)"
  have view: "View_Cmp (pp_View old_preprepare) solo_view < 0"
    by (simp add: old_preprepare_def solo_view_def View_Cmp_def)
  have vs: "vs_CalcProposer (be_val old_env) (be_GetProposer old_env (big_Uint64 (p_Number (pp_Proposal old_preprepare)) - 1))
      (big_Uint64 (view_Round (pp_View old_preprepare)))
      (vs_Copy (be_val old_env) (be_ParentValidators old_env (pp_Proposal old_preprepare))) = Some solo_set"
    using solo_set_simps(3)
    by (simp add: old_env_def solo_env_def old_preprepare_def big_Uint64_def solo_copy)
  show ?thesis
    using old_block_commit_seals_current_proposal [of ?c _ solo_block ?m old_preprepare old_env solo_set "DefaultVal 1" id,
        OF solo_sel(1) solo_round_sel(7) _ _ _ _ vs] view
    by (simp add: solo_msg_def old_env_def solo_set_simps) (simp add: old_preprepare_def solo_block_def)
qed

end
