(* ===== verification/Accounts.thy ===== *)
theory Accounts
  imports Chain_Config
begin

text \<open>
  Accounts (\<open>blockchain/types/account/\<close>) and what they are made of: account keys as the constructors of
  \<open>blockchain/types/accountkey/\<close>, the code information byte of \<open>params/protocol_params.go\<close>, and the conversions between
  byte slices and hashes of \<open>common/types.go\<close>.

  An extended hash is a byte list, as in \<open>Trie_Nodes\<close>. A code hash is a \<open>[]byte\<close> in the source that always holds the
  32 bytes of a hash; it is a \<open>hash\<close> here.
\<close>

section \<open>Bytes of words\<close>

text \<open>The bytes of a fixed-size big-endian array, and \<open>Hash.SetBytes\<close>, which keeps the last 32 bytes.\<close>

definition word_bytes :: "nat \<Rightarrow> 'a::len word \<Rightarrow> bytes" where
  "word_bytes n w = map (\<lambda>i. ucast (drop_bit (8 * i) w)) (rev [0..<n])"

definition addr_bytes :: "address \<Rightarrow> bytes" where
  "addr_bytes a = word_bytes 20 a"

definition hash_bytes :: "hash \<Rightarrow> bytes" where
  "hash_bytes h = word_bytes 32 h"

definition BytesToHash :: "bytes \<Rightarrow> hash" where
  "BytesToHash b = foldl (\<lambda>h x. 256 * h + ucast x) 0 b"

section \<open>Keys and code information\<close>

datatype AccountKey =
    AccountKeyNil
  | AccountKeyLegacy
  | AccountKeyPublic bytes
  | AccountKeyFail
  | AccountKeyWeightedMultiSig u64 "(u64 \<times> bytes) list"
  | AccountKeyRoleBased "AccountKey list"

type_synonym CodeInfo = u8

definition NewCodeInfo :: "u8 \<Rightarrow> u8 \<Rightarrow> CodeInfo" where
  "NewCodeInfo codeFormat vmVersion =
     Bit_Operations.or (Bit_Operations.and codeFormat 0x0F) (push_bit 4 vmVersion)"

definition NewCodeInfoWithRules :: "u8 \<Rightarrow> Rules \<Rightarrow> CodeInfo" where
  "NewCodeInfoWithRules codeFormat r =
     NewCodeInfo codeFormat (if IsLondon r then 1 else if IsIstanbul r then 1 else 0)"

section \<open>Accounts\<close>

record AccountCommon =
  ac_nonce :: u64
  ac_balance :: int
  ac_humanReadable :: bool
  ac_key :: AccountKey

text \<open>A legacy account has a nonce, a balance, a storage root and a code hash of its own.\<close>

datatype Account =
    LegacyAccount u64 int hash hash
  | ExternallyOwnedAccount AccountCommon
  | SmartContractAccount AccountCommon bytes hash CodeInfo

text \<open>The map of initial values; a missing entry is \<open>None\<close>.\<close>

record accountValues =
  av_Nonce :: "u64 option"
  av_Balance :: "int option"
  av_StorageRoot :: "bytes option"
  av_CodeHash :: "hash option"
  av_HumanReadable :: "bool option"
  av_AccountKey :: "AccountKey option"
  av_CodeInfo :: "CodeInfo option"

definition no_values :: accountValues where
  "no_values = \<lparr> av_Nonce = None, av_Balance = None, av_StorageRoot = None, av_CodeHash = None,
     av_HumanReadable = None, av_AccountKey = None, av_CodeInfo = None \<rparr>"

definition newAccountCommon :: AccountCommon where
  "newAccountCommon = \<lparr> ac_nonce = 0, ac_balance = 0, ac_humanReadable = False, ac_key = AccountKeyLegacy \<rparr>"

definition or_else :: "'a option \<Rightarrow> 'a \<Rightarrow> 'a" where
  "or_else x d = (case x of None \<Rightarrow> d | Some v \<Rightarrow> v)"

definition newAccountCommonWithMap :: "accountValues \<Rightarrow> AccountCommon" where
  "newAccountCommonWithMap values =
     (let acc = newAccountCommon in
      \<lparr> ac_nonce = or_else (av_Nonce values) (ac_nonce acc),
        ac_balance = or_else (av_Balance values) (ac_balance acc),
        ac_humanReadable = or_else (av_HumanReadable values) (ac_humanReadable acc),
        ac_key = or_else (av_AccountKey values) (ac_key acc) \<rparr>)"

definition newSmartContractAccountWithMap :: "hash \<Rightarrow> accountValues \<Rightarrow> Account" where
  "newSmartContractAccountWithMap emptyCodeHash values =
     SmartContractAccount (newAccountCommonWithMap values)
       (or_else (av_StorageRoot values) (replicate 39 0))
       (or_else (av_CodeHash values) emptyCodeHash)
       (or_else (av_CodeInfo values) 0)"

definition newExternallyOwnedAccountWithMap :: "accountValues \<Rightarrow> Account" where
  "newExternallyOwnedAccountWithMap values = ExternallyOwnedAccount (newAccountCommonWithMap values)"

fun GetNonce_acc :: "Account \<Rightarrow> u64" where
  "GetNonce_acc (LegacyAccount n _ _ _) = n"
| "GetNonce_acc (ExternallyOwnedAccount c) = ac_nonce c"
| "GetNonce_acc (SmartContractAccount c _ _ _) = ac_nonce c"

fun GetBalance_acc :: "Account \<Rightarrow> int" where
  "GetBalance_acc (LegacyAccount _ b _ _) = b"
| "GetBalance_acc (ExternallyOwnedAccount c) = ac_balance c"
| "GetBalance_acc (SmartContractAccount c _ _ _) = ac_balance c"

fun SetNonce_acc :: "u64 \<Rightarrow> Account \<Rightarrow> Account" where
  "SetNonce_acc n (LegacyAccount _ b r h) = LegacyAccount n b r h"
| "SetNonce_acc n (ExternallyOwnedAccount c) = ExternallyOwnedAccount (c\<lparr> ac_nonce := n \<rparr>)"
| "SetNonce_acc n (SmartContractAccount c r h i) = SmartContractAccount (c\<lparr> ac_nonce := n \<rparr>) r h i"

fun SetBalance_acc :: "int \<Rightarrow> Account \<Rightarrow> Account" where
  "SetBalance_acc b (LegacyAccount n _ r h) = LegacyAccount n b r h"
| "SetBalance_acc b (ExternallyOwnedAccount c) = ExternallyOwnedAccount (c\<lparr> ac_balance := b \<rparr>)"
| "SetBalance_acc b (SmartContractAccount c r h i) = SmartContractAccount (c\<lparr> ac_balance := b \<rparr>) r h i"

text \<open>A legacy account has no code format, so it is not a \<open>ProgramAccount\<close>: only smart contract accounts are.\<close>

fun is_program :: "Account \<Rightarrow> bool" where
  "is_program (SmartContractAccount _ _ _ _) = True"
| "is_program _ = False"

fun GetStorageRoot :: "Account \<Rightarrow> bytes option" where
  "GetStorageRoot (SmartContractAccount _ r _ _) = Some r"
| "GetStorageRoot _ = None"

fun GetCodeHash_acc :: "Account \<Rightarrow> hash option" where
  "GetCodeHash_acc (SmartContractAccount _ _ h _) = Some h"
| "GetCodeHash_acc _ = None"

fun SetCodeHash :: "hash \<Rightarrow> Account \<Rightarrow> Account" where
  "SetCodeHash h (SmartContractAccount c r _ i) = SmartContractAccount c r h i"
| "SetCodeHash h acc = acc"

fun Empty_acc :: "hash \<Rightarrow> Account \<Rightarrow> bool" where
  "Empty_acc emptyCodeHash (LegacyAccount n b _ h) \<longleftrightarrow> n = 0 \<and> b = 0 \<and> h = emptyCodeHash"
| "Empty_acc emptyCodeHash (ExternallyOwnedAccount c) \<longleftrightarrow>
     ac_nonce c = 0 \<and> ac_balance c = 0 \<and> ac_key c = AccountKeyLegacy"
| "Empty_acc emptyCodeHash (SmartContractAccount c _ h _) \<longleftrightarrow>
     ac_nonce c = 0 \<and> ac_balance c = 0 \<and> h = emptyCodeHash"

lemma account_updates [simp]:
  "GetNonce_acc (SetNonce_acc n a) = n"
  "GetBalance_acc (SetNonce_acc n a) = GetBalance_acc a"
  "GetNonce_acc (SetBalance_acc b a) = GetNonce_acc a"
  "GetBalance_acc (SetBalance_acc b a) = b"
  "SetNonce_acc (GetNonce_acc a) a = a"
  "SetNonce_acc n (SetNonce_acc n' a) = SetNonce_acc n a"
  "SetBalance_acc (GetBalance_acc a) a = a"
  "SetBalance_acc b (SetBalance_acc b' a) = SetBalance_acc b a"
  "is_program (SetNonce_acc n a) = is_program a"
  "is_program (SetBalance_acc b a) = is_program a"
  "is_program (SetCodeHash h a) = is_program a"
  "GetCodeHash_acc (SetNonce_acc n a) = GetCodeHash_acc a"
  "GetCodeHash_acc (SetBalance_acc b a) = GetCodeHash_acc a"
  "GetStorageRoot (SetNonce_acc n a) = GetStorageRoot a"
  "GetStorageRoot (SetBalance_acc b a) = GetStorageRoot a"
  "GetStorageRoot (SetCodeHash h a) = GetStorageRoot a"
  "SetCodeHash h (SetCodeHash h' a) = SetCodeHash h a"
  by (cases a; simp)+

lemma SetCodeHash_same: "GetCodeHash_acc a = Some h \<Longrightarrow> SetCodeHash h a = a"
  by (cases a) auto

lemma is_program_code: "is_program a \<longleftrightarrow> (\<exists>h. GetCodeHash_acc a = Some h)"
  by (cases a) auto

section \<open>Distinct addresses have distinct bytes\<close>

lemma word_bytes_nth: "i < n \<Longrightarrow> word_bytes n w ! i = ucast (drop_bit (8 * (n - Suc i)) w)"
  by (simp add: word_bytes_def rev_nth)

lemma word_bytes_inj:
  fixes a b :: "'a::len word"
  assumes "LENGTH('a) \<le> 8 * n" "word_bytes n a = word_bytes n b"
  shows "a = b"
proof (rule bit_word_eqI)
  fix i assume i: "i < LENGTH('a)"
  let ?j = "i div 8"
  have j: "?j < n" using assms(1) i by simp
  have "word_bytes n a ! (n - Suc ?j) = word_bytes n b ! (n - Suc ?j)" using assms(2) by simp
  then have e: "(ucast (drop_bit (8 * ?j) a) :: u8) = ucast (drop_bit (8 * ?j) b)" using j by (simp add: word_bytes_nth)
  have "bit (ucast (drop_bit (8 * ?j) w) :: u8) (i mod 8) \<longleftrightarrow> bit w i" for w :: "'a word"
    by (simp add: bit_ucast_iff bit_drop_bit_eq)
  then show "bit a i \<longleftrightarrow> bit b i" using e by metis
qed

lemma addr_bytes_inj: "addr_bytes a = addr_bytes b \<longleftrightarrow> a = b"
  unfolding addr_bytes_def using word_bytes_inj [of 20 a b] by auto

lemma hash_bytes_inj: "hash_bytes a = hash_bytes b \<longleftrightarrow> a = b"
  unfolding hash_bytes_def using word_bytes_inj [of 32 a b] by auto

end
