(* ===== verification/Trie_Encoding.thy ===== *)
theory Trie_Encoding
  imports Klaytn_Prelude
begin

unbundle bit_operations_syntax

text \<open>
  The key encodings of the state trie (\<open>storage/statedb/encoding.go\<close>): key bytes, one byte per nibble with an optional
  terminator, and the compact form that is stored. Round trips between them, and the in-place variant computes the same
  bytes. An index out of range is \<open>None\<close>.
\<close>

section \<open>Encodings\<close>

definition hasTerm :: "bytes \<Rightarrow> bool" where
  "hasTerm s \<longleftrightarrow> s \<noteq> [] \<and> last s = 16"

fun decodeNibbles :: "bytes \<Rightarrow> bytes option" where
  "decodeNibbles [] = Some []"
| "decodeNibbles [_] = None"
| "decodeNibbles (x # y # ns) = map_option ((#) (push_bit 4 x OR y)) (decodeNibbles ns)"

definition hexToCompact :: "bytes \<Rightarrow> bytes option" where
  "hexToCompact hex0 =
     (let term = hasTerm hex0;
          hex1 = (if term then butlast hex0 else hex0);
          flag = (if term then push_bit 5 1 else 0)
      in if odd (length hex1)
         then map_option ((#) (flag OR push_bit 4 1 OR hd hex1)) (decodeNibbles (tl hex1))
         else map_option ((#) flag) (decodeNibbles hex1))"

text \<open>The loop of \<open>hexToCompactInPlace\<close> over the buffer.\<close>

function compact_loop :: "nat \<Rightarrow> nat \<Rightarrow> nat \<Rightarrow> bytes \<Rightarrow> bytes" where
  "compact_loop hexLen bi ni hex =
     (if ni < hexLen
      then compact_loop hexLen (bi + 1) (ni + 2) (hex[bi := push_bit 4 (hex ! ni) OR hex ! (ni + 1)])
      else hex)"
  by pat_completeness auto
termination
  by (relation "measure (\<lambda>(hexLen, bi, ni, hex). hexLen - ni)") auto

declare compact_loop.simps [simp del]

text \<open>The length of the compact key and the buffer that holds it.\<close>

definition hexToCompactInPlace :: "bytes \<Rightarrow> (nat \<times> bytes) option" where
  "hexToCompactInPlace hex =
     (if hex = [] then None
      else
        let hexLen = (if hasTerm hex then length hex - 1 else length hex);
            flag = (if hasTerm hex then push_bit 5 1 else 0);
            firstByte = (if odd hexLen then flag OR push_bit 4 1 OR hex ! 0 else flag);
            hex' = compact_loop hexLen 1 (if odd hexLen then 1 else 0) hex
        in Some (hexLen div 2 + 1, hex'[0 := firstByte]))"

definition keybytesToHex :: "bytes \<Rightarrow> bytes" where
  "keybytesToHex str = concat (map (\<lambda>b. [b div 16, b mod 16]) str) @ [16]"

definition compactToHex :: "bytes \<Rightarrow> bytes" where
  "compactToHex compact =
     (if compact = [] then compact
      else
        let base0 = butlast (keybytesToHex compact);
            base = (if hd base0 \<ge> 2 then base0 @ [16] else base0);
            chop = 2 - unat (hd base0 AND 1)
        in drop chop base)"

definition hexToKeybytes :: "bytes \<Rightarrow> bytes option" where
  "hexToKeybytes hex0 =
     (let hex1 = (if hasTerm hex0 then butlast hex0 else hex0)
      in if odd (length hex1) then None else decodeNibbles hex1)"

fun prefixLen :: "bytes \<Rightarrow> bytes \<Rightarrow> nat" where
  "prefixLen (x # xs) (y # ys) = (if x = y then Suc (prefixLen xs ys) else 0)"
| "prefixLen _ _ = 0"

section \<open>Nibbles\<close>

definition nibbles :: "bytes \<Rightarrow> bool" where
  "nibbles ns \<longleftrightarrow> (\<forall>n \<in> set ns. n < 16)"

lemma nibbles_simps [simp]:
  "nibbles []" "nibbles (n # ns) \<longleftrightarrow> n < 16 \<and> nibbles ns" "nibbles (ms @ ns) \<longleftrightarrow> nibbles ms \<and> nibbles ns"
  by (auto simp: nibbles_def)

lemma nibbles_last: "nibbles ns \<Longrightarrow> \<not> hasTerm ns"
  by (cases ns rule: rev_cases) (auto simp: hasTerm_def)

lemma hasTerm_snoc [simp]: "hasTerm (ns @ [16])" "hasTerm (n # ns @ [16])"
  by (simp_all add: hasTerm_def)

lemma nibble_bits: "(x :: u8) < 16 \<Longrightarrow> bit x n \<Longrightarrow> n < 4"
proof -
  assume "x < 16" "bit x n"
  moreover from \<open>x < 16\<close> have "take_bit 4 x = x" using take_bit_eq_mod [of 4 x] mod_word_less [of x 16] by simp
  ultimately show ?thesis by (metis bit_take_bit_iff)
qed

lemma join_nibbles:
  assumes "(x :: u8) < 16" "y < 16"
  shows "(push_bit 4 x OR y) div 16 = x" "(push_bit 4 x OR y) mod 16 = y"
proof -
  have "drop_bit 4 (push_bit 4 x OR y) = x"
    by (rule bit_word_eqI) (use nibble_bits [OF assms(1)] nibble_bits [OF assms(2)] in \<open>auto simp: bit_simps\<close>)
  then show "(push_bit 4 x OR y) div 16 = x"
    using drop_bit_eq_div [of 4 "push_bit 4 x OR y"] by simp
  have "take_bit 4 (push_bit 4 x OR y) = y"
    by (rule bit_word_eqI) (use nibble_bits [OF assms(2)] in \<open>auto simp: bit_simps\<close>)
  then show "(push_bit 4 x OR y) mod 16 = y"
    using take_bit_eq_mod [of 4 "push_bit 4 x OR y"] by simp
qed

lemma split_nibbles: "push_bit 4 (b div 16) OR b mod 16 = (b :: u8)"
proof -
  have "push_bit 4 (drop_bit 4 b) OR take_bit 4 b = b"
    by (rule bit_word_eqI) (auto simp: bit_simps)
  then show ?thesis using drop_bit_eq_div [of 4 b] take_bit_eq_mod [of 4 b] by simp
qed

definition to_nibbles :: "bytes \<Rightarrow> bytes" where
  "to_nibbles bs = concat (map (\<lambda>b. [b div 16, b mod 16]) bs)"

lemma to_nibbles_simps [simp]: "to_nibbles [] = []" "to_nibbles (b # bs) = b div 16 # b mod 16 # to_nibbles bs"
  by (simp_all add: to_nibbles_def)

lemma nibbles_to_nibbles [simp]: "nibbles (to_nibbles bs)"
proof (induction bs)
  case (Cons b bs)
  have "b div 16 < 16" "b mod 16 < 16"
    by (simp_all add: word_less_nat_alt unat_div unat_mod unsigned_less [of b, simplified] less_mult_imp_div_less)
  with Cons show ?case by simp
qed simp

lemma even_length_to_nibbles [simp]: "length (to_nibbles bs) = 2 * length bs"
  by (induction bs) auto

lemma decodeNibbles_to_nibbles [simp]: "decodeNibbles (to_nibbles bs) = Some bs"
  by (induction bs) (auto simp: split_nibbles)

lemma to_nibbles_decode: "nibbles ns \<Longrightarrow> decodeNibbles ns = Some bs \<Longrightarrow> to_nibbles bs = ns"
  by (induction ns arbitrary: bs rule: decodeNibbles.induct) (auto simp: join_nibbles)

lemma decodeNibbles_even: "even (length ns) \<Longrightarrow> \<exists>bs. decodeNibbles ns = Some bs \<and> length bs = length ns div 2"
  by (induction ns rule: decodeNibbles.induct) auto

lemma keybytesToHex_eq: "keybytesToHex bs = to_nibbles bs @ [16]"
  by (simp add: keybytesToHex_def to_nibbles_def)

section \<open>Round trips\<close>

lemma compactToHex_Cons:
  "compactToHex (b # bs) = drop (2 - unat (b div 16 AND 1)) (to_nibbles (b # bs) @ (if b div 16 \<ge> 2 then [16] else []))"
  by (simp add: compactToHex_def keybytesToHex_eq Let_def butlast_append)

lemma compact_round_trip:
  assumes "nibbles ns"
  shows "\<exists>bs. hexToCompact (ns @ (if t then [16] else [])) = Some bs \<and>
     compactToHex bs = ns @ (if t then [16] else [])"
proof (cases "odd (length ns)")
  case True
  then obtain n ms where ns: "ns = n # ms" "even (length ms)" by (cases ns) auto
  obtain bs where bs: "decodeNibbles ms = Some bs" using decodeNibbles_even [OF ns(2)] by blast
  have ms: "to_nibbles bs = ms" using assms ns(1) bs by (simp add: to_nibbles_decode)
  have n: "n < 16" using assms ns(1) by simp
  have f: "(48 OR n) div 16 = 3" "(48 OR n) mod 16 = n" "(16 OR n) div 16 = 1" "(16 OR n) mod 16 = n"
    using join_nibbles [of 3 n] join_nibbles [of 1 n] n by simp_all
  have o: "(32 :: u8) OR (16 OR n) = 48 OR n" by (simp add: or.assoc [symmetric])
  show ?thesis
    using ns bs nibbles_last [OF assms]
    by (cases t) (auto simp: hexToCompact_def Let_def compactToHex_Cons f o ms word_le_nat_alt)
next
  case False
  then obtain bs where bs: "decodeNibbles ns = Some bs" using decodeNibbles_even by blast
  show ?thesis
    using False bs nibbles_last [OF assms] to_nibbles_decode [OF assms bs]
    by (cases t) (auto simp: hexToCompact_def Let_def compactToHex_Cons)
qed

lemma keybytes_round_trip: "hexToKeybytes (keybytesToHex key) = Some key"
  by (simp add: hexToKeybytes_def keybytesToHex_eq)

section \<open>Compaction in place\<close>

lemma compact_loop_spec:
  assumes "bi \<le> ni + 1" "hexLen \<le> length hex" "even (hexLen - ni)" "ni \<le> hexLen" "bi + (hexLen - ni) div 2 \<le> length hex"
  shows "\<exists>bs. decodeNibbles (drop ni (take hexLen hex)) = Some bs \<and>
    compact_loop hexLen bi ni hex = take bi hex @ bs @ drop (bi + length bs) hex"
  using assms
proof (induction hexLen bi ni hex rule: compact_loop.induct)
  case (1 hexLen bi ni hex)
  show ?case
  proof (cases "ni < hexLen")
    case True
    let ?v = "push_bit 4 (hex ! ni) OR hex ! (ni + 1)"
    let ?hex = "hex[bi := ?v]"
    have ni: "ni + 2 \<le> hexLen" using True 1(4) by presburger
    have even': "even (hexLen - (ni + 2))" "bi + 1 + (hexLen - (ni + 2)) div 2 \<le> length hex"
      using 1(4,6) ni by (auto simp: even_diff_nat)
    obtain bs where bs: "decodeNibbles (drop (ni + 2) (take hexLen ?hex)) = Some bs"
      "compact_loop hexLen (bi + 1) (ni + 2) ?hex = take (bi + 1) ?hex @ bs @ drop (bi + 1 + length bs) ?hex"
      using 1(1) [OF True] 1(2,3) ni even' by auto
    have read: "drop (ni + 2) (take hexLen ?hex) = drop (ni + 2) (take hexLen hex)"
      using 1(2) by (simp add: drop_take)
    have "drop ni (take hexLen hex) = hex ! ni # hex ! (ni + 1) # drop (ni + 2) (take hexLen hex)"
      using ni 1(3) by (simp add: Cons_nth_drop_Suc [symmetric])
    then have "decodeNibbles (drop ni (take hexLen hex)) = Some (?v # bs)" using bs(1) read by simp
    moreover have "compact_loop hexLen bi ni hex = take bi hex @ (?v # bs) @ drop (bi + length (?v # bs)) hex"
      using True bs(2) even'(2) by (subst compact_loop.simps) (simp add: take_Suc_conv_app_nth)
    ultimately show ?thesis by blast
  next
    case False
    then show ?thesis using 1(5) by (subst compact_loop.simps) simp
  qed
qed

lemma in_place_round_trip:
  assumes "hex \<noteq> []"
  shows "\<exists>n buf. hexToCompactInPlace hex = Some (n, buf) \<and> hexToCompact hex = Some (take n buf)"
proof -
  define hexLen where "hexLen = (if hasTerm hex then length hex - 1 else length hex)"
  define ni where "ni = (if odd hexLen then 1 else 0 :: nat)"
  have body: "(if hasTerm hex then butlast hex else hex) = take hexLen hex"
    by (simp add: hexLen_def butlast_conv_take)
  have len: "hexLen \<le> length hex" by (simp add: hexLen_def)
  have len2: "1 + (hexLen - ni) div 2 \<le> length hex" using assms len by (cases hex) (auto simp: ni_def)
  have "even (hexLen - ni)" "ni \<le> hexLen" by (auto simp: ni_def elim: oddE)
  then obtain bs where bs: "decodeNibbles (drop ni (take hexLen hex)) = Some bs"
    "compact_loop hexLen 1 ni hex = take 1 hex @ bs @ drop (1 + length bs) hex"
    using compact_loop_spec [of 1 ni hexLen hex] len len2 by auto
  have "length bs = hexLen div 2"
    using decodeNibbles_even [of "drop ni (take hexLen hex)"] bs(1) \<open>even (hexLen - ni)\<close> len
    by (auto simp: ni_def split: if_splits elim: oddE)
  moreover obtain h hs where hex: "hex = h # hs" using assms by (cases hex) auto
  ultimately have buf: "take (hexLen div 2 + 1) ((compact_loop hexLen 1 ni hex)[0 := f]) = f # bs" for f
    using bs(2) by simp
  have place: "hexToCompactInPlace hex = Some (hexLen div 2 + 1, (compact_loop hexLen 1 ni hex)
      [0 := if odd hexLen then (if hasTerm hex then 32 else 0) OR 16 OR h else if hasTerm hex then 32 else 0])"
    using hex by (simp add: hexToCompactInPlace_def Let_def hexLen_def ni_def)
  have len': "length (take hexLen hex) = hexLen" using len by simp
  have "hexToCompact hex = Some ((if odd hexLen then (if hasTerm hex then 32 else 0) OR 16 OR h
      else if hasTerm hex then 32 else 0) # bs)"
  proof (cases "odd hexLen")
    case True
    then have "hd (take hexLen hex) = h" "tl (take hexLen hex) = drop ni (take hexLen hex)"
      using hex by (auto simp: ni_def take_Cons' drop_Suc elim: oddE)
    then show ?thesis
      using True bs(1) len' unfolding hexToCompact_def body Let_def by simp
  next
    case False
    then show ?thesis using bs(1) len' unfolding hexToCompact_def body Let_def by (simp add: ni_def)
  qed
  with place buf show ?thesis by simp
qed

text \<open>C22: A hex key of nibbles, with or without the terminator, survives the compact encoding, which is defined on it; a
  key survives the hex encoding; and the in-place compaction leaves exactly the compact encoding at the start of its
  buffer.\<close>

theorem trie_keys_round_trip:
  assumes "nibbles ns" and "hex = ns @ (if terminated then [16] else [])" and "hex \<noteq> []"
  shows "(\<exists>bs n buf. hexToCompact hex = Some bs \<and> compactToHex bs = hex \<and>
      hexToCompactInPlace hex = Some (n, buf) \<and> take n buf = bs) \<and>
    hexToKeybytes (keybytesToHex key) = Some key"
  using assms compact_round_trip [of ns terminated] keybytes_round_trip in_place_round_trip [of hex] by auto

theorem trie_keys_round_trip_witness:
  "(\<exists>bs n buf. hexToCompact [1, 2, 3, 16] = Some bs \<and> compactToHex bs = [1, 2, 3, 16] \<and>
      hexToCompactInPlace [1, 2, 3, 16] = Some (n, buf) \<and> take n buf = bs) \<and>
    hexToKeybytes (keybytesToHex [171]) = Some [171]"
  by (rule trie_keys_round_trip [of "[1, 2, 3]" _ True]) (simp_all add: word_less_nat_alt)

end
