(* ===== verification/Trie_Nodes.thy ===== *)
theory Trie_Nodes
  imports Trie_Encoding
begin

text \<open>
  The Merkle Patricia trie (\<open>storage/statedb/trie.go\<close>, \<open>node.go\<close>): lookup, insertion and deletion on nodes that may be
  loaded or only referenced by their hash. The node database is the argument \<open>db\<close>. Go's nil node is \<open>NilNode\<close>; a panic
  is an error value of its own. The recursion follows references into the database, so it takes fuel; \<open>OutOfFuel\<close> is
  shown to be unreachable on well-formed tries. The path prefix is only used for error reports.
\<close>

section \<open>Nodes\<close>

definition HashLength :: nat where "HashLength = 32"
definition ExtHashLength :: nat where "ExtHashLength = 39"

text \<open>\<open>None\<close> is the fatal log call.\<close>

definition BytesToExtHash :: "bytes \<Rightarrow> bytes option" where
  "BytesToExtHash b =
     (if b = [] then Some (replicate ExtHashLength 0)
      else if length b = HashLength then Some (b @ replicate (ExtHashLength - HashLength) 0)
      else if length b = ExtHashLength then Some b
      else None)"

definition Unextend :: "bytes \<Rightarrow> bytes" where
  "Unextend eh = take HashLength eh"

definition EmptyExtHash :: "bytes \<Rightarrow> bool" where
  "EmptyExtHash eh \<longleftrightarrow> Unextend eh = replicate HashLength 0"

record nodeFlag =
  nf_hash :: "bytes option"
  nf_dirty :: bool

definition newFlag :: nodeFlag where
  "newFlag = \<lparr> nf_hash = None, nf_dirty = True \<rparr>"

datatype node =
    NilNode
  | FullNode "node list" nodeFlag
  | ShortNode bytes node nodeFlag
  | HashNode bytes
  | ValueNode bytes

fun node_cache :: "node \<Rightarrow> bytes option" where
  "node_cache (FullNode _ fl) = nf_hash fl"
| "node_cache (ShortNode _ _ fl) = nf_hash fl"
| "node_cache _ = None"

datatype trieError = MissingNode bytes bytes | TriePanic | OutOfFuel | ErrPruningDisabled

type_synonym nodeDB = "bytes \<Rightarrow> node option"
type_synonym marks = "bytes \<Rightarrow> u64 option"

record trieOpts =
  to_pruning :: bool
  to_PruningBlockNumber :: u64

definition resolveHash :: "nodeDB \<Rightarrow> bytes \<Rightarrow> bytes \<Rightarrow> trieError + node" where
  "resolveHash db h prefix =
     (case BytesToExtHash h of
        None \<Rightarrow> Inl TriePanic
      | Some eh \<Rightarrow> (case db eh of None \<Rightarrow> Inl (MissingNode (Unextend eh) prefix) | Some n \<Rightarrow> Inr n))"

definition trie_resolve :: "nodeDB \<Rightarrow> node \<Rightarrow> bytes \<Rightarrow> trieError + node" where
  "trie_resolve db n prefix = (case n of HashNode h \<Rightarrow> resolveHash db h prefix | _ \<Rightarrow> Inr n)"

text \<open>A cached hash always has one of the lengths \<open>BytesToExtHash\<close> accepts; on another one the
  program stops in the fatal log call.\<close>

definition mark_hash :: "trieOpts \<Rightarrow> bytes \<Rightarrow> marks \<Rightarrow> marks" where
  "mark_hash opts h ms =
     (case BytesToExtHash h of None \<Rightarrow> ms | Some eh \<Rightarrow> ms(eh \<mapsto> to_PruningBlockNumber opts))"

definition markPrunableNode :: "trieOpts \<Rightarrow> node \<Rightarrow> marks \<Rightarrow> marks" where
  "markPrunableNode opts n ms =
     (if \<not> to_pruning opts \<or> to_PruningBlockNumber opts = 0 then ms
      else case n of
        HashNode h \<Rightarrow> mark_hash opts h ms
      | _ \<Rightarrow> (case node_cache n of None \<Rightarrow> ms | Some h \<Rightarrow> mark_hash opts h ms))"

text \<open>Array accesses of \<open>Children [17]node\<close>.\<close>

definition child_at :: "node list \<Rightarrow> u8 \<Rightarrow> node option" where
  "child_at cs i = (if unat i < 17 then Some (cs ! unat i) else None)"

section \<open>Lookup\<close>

text \<open>The value, the node with the references on the path loaded, and whether anything was loaded.\<close>

fun tryGet :: "nodeDB \<Rightarrow> nat \<Rightarrow> node \<Rightarrow> bytes \<Rightarrow> nat \<Rightarrow> trieError + (bytes option \<times> node \<times> bool)" where
  "tryGet db 0 n key pos = Inl OutOfFuel"
| "tryGet db (Suc fuel) n key pos =
     (case n of
        NilNode \<Rightarrow> Inr (None, NilNode, False)
      | ValueNode v \<Rightarrow> Inr (Some v, ValueNode v, False)
      | ShortNode k val fl \<Rightarrow>
          if length key - pos < length k \<or> k \<noteq> take (length k) (drop pos key) then Inr (None, n, False)
          else rbind (tryGet db fuel val key (pos + length k))
                 (\<lambda>(value, newnode, didResolve).
                    Inr (value, if didResolve then ShortNode k newnode fl else n, didResolve))
      | FullNode cs fl \<Rightarrow>
          (if length key \<le> pos then Inl TriePanic
           else case child_at cs (key ! pos) of
             None \<Rightarrow> Inl TriePanic
           | Some c \<Rightarrow>
               rbind (tryGet db fuel c key (pos + 1))
                 (\<lambda>(value, newnode, didResolve).
                    Inr (value, if didResolve then FullNode (cs[unat (key ! pos) := newnode]) fl else n, didResolve)))
      | HashNode h \<Rightarrow>
          rbind (resolveHash db h (take pos key))
            (\<lambda>child. rbind (tryGet db fuel child key pos)
               (\<lambda>(value, newnode, _). Inr (value, newnode, True))))"

section \<open>Insertion\<close>

text \<open>Whether the trie has changed and the new node, with the pruning marks made on the way.\<close>

type_synonym update = "(trieError + (bool \<times> node)) \<times> marks"

definition changed :: "update \<Rightarrow> node \<Rightarrow> (node \<Rightarrow> marks \<Rightarrow> update) \<Rightarrow> update" where
  "changed r old f =
     (case fst r of
        Inl e \<Rightarrow> (Inl e, snd r)
      | Inr (dirty, nn) \<Rightarrow> if \<not> dirty then (Inr (False, old), snd r) else f nn (snd r))"

fun trie_insert :: "nodeDB \<Rightarrow> trieOpts \<Rightarrow> nat \<Rightarrow> node \<Rightarrow> bytes \<Rightarrow> bytes \<Rightarrow> node \<Rightarrow> marks \<Rightarrow> update" where
  "trie_insert db opts 0 n prefix key value ms = (Inl OutOfFuel, ms)"
| "trie_insert db opts (Suc fuel) n prefix key value ms =
     (if key = [] then
        (case n of
           ValueNode v \<Rightarrow> (case value of ValueNode w \<Rightarrow> (Inr (v \<noteq> w, value), ms) | _ \<Rightarrow> (Inl TriePanic, ms))
         | _ \<Rightarrow> (Inr (True, value), ms))
      else case n of
        ShortNode k val fl \<Rightarrow>
          let matchlen = prefixLen key k in
          if matchlen = length k then
            changed (trie_insert db opts fuel val (prefix @ take matchlen key) (drop matchlen key) value ms) n
              (\<lambda>nn ms'. (Inr (True, ShortNode k nn newFlag), markPrunableNode opts n ms'))
          else if \<not> unat (k ! matchlen) < 17 then (Inl TriePanic, ms)
          else
            (case trie_insert db opts fuel NilNode (prefix @ take (matchlen + 1) k) (drop (matchlen + 1) k) val ms of
               (Inl e, ms1) \<Rightarrow> (Inl e, ms1)
             | (Inr (_, c1), ms1) \<Rightarrow>
                 if length key \<le> matchlen \<or> \<not> unat (key ! matchlen) < 17 then (Inl TriePanic, ms1)
                 else
                   (case trie_insert db opts fuel NilNode (prefix @ take (matchlen + 1) key) (drop (matchlen + 1) key) value ms1 of
                      (Inl e, ms2) \<Rightarrow> (Inl e, ms2)
                    | (Inr (_, c2), ms2) \<Rightarrow>
                        let branch = FullNode ((replicate 17 NilNode)[unat (k ! matchlen) := c1, unat (key ! matchlen) := c2]) newFlag
                        in (Inr (True, if matchlen = 0 then branch else ShortNode (take matchlen key) branch newFlag),
                            markPrunableNode opts n ms2)))
      | FullNode cs fl \<Rightarrow>
          (case child_at cs (hd key) of
             None \<Rightarrow> (Inl TriePanic, ms)
           | Some c \<Rightarrow>
               changed (trie_insert db opts fuel c (prefix @ [hd key]) (tl key) value ms) n
                 (\<lambda>nn ms'. (Inr (True, FullNode (cs[unat (hd key) := nn]) newFlag), markPrunableNode opts n ms')))
      | NilNode \<Rightarrow> (Inr (True, ShortNode key value newFlag), ms)
      | HashNode h \<Rightarrow>
          (case resolveHash db h prefix of
             Inl e \<Rightarrow> (Inl e, ms)
           | Inr rn \<Rightarrow>
               changed (trie_insert db opts fuel rn prefix key value ms) rn (\<lambda>nn ms'. (Inr (True, nn), ms')))
      | ValueNode _ \<Rightarrow> (Inl TriePanic, ms))"

section \<open>Deletion\<close>

text \<open>The loop over the children of a full node: the index of the only child that is left, \<open>-1\<close> when there is none
  and \<open>-2\<close> when there are more.\<close>

fun remaining_child :: "int \<Rightarrow> nat \<Rightarrow> node list \<Rightarrow> int" where
  "remaining_child pos i [] = pos"
| "remaining_child pos i (c # cs) =
     (if c = NilNode then remaining_child pos (Suc i) cs
      else if pos = -1 then remaining_child (int i) (Suc i) cs
      else -2)"

definition reduce_full :: "nodeDB \<Rightarrow> bytes \<Rightarrow> node list \<Rightarrow> trieError + node" where
  "reduce_full db prefix cs =
     (let pos = remaining_child (-1) 0 cs in
      if pos \<ge> 0 then
        if pos \<noteq> 16 then
          rbind (trie_resolve db (cs ! nat pos) prefix)
            (\<lambda>cnode. case cnode of
               ShortNode k val _ \<Rightarrow> Inr (ShortNode (word_of_int pos # k) val newFlag)
             | _ \<Rightarrow> Inr (ShortNode [word_of_int pos] (cs ! nat pos) newFlag))
        else Inr (ShortNode [word_of_int pos] (cs ! nat pos) newFlag)
      else Inr (FullNode cs newFlag))"

fun trie_delete :: "nodeDB \<Rightarrow> trieOpts \<Rightarrow> nat \<Rightarrow> node \<Rightarrow> bytes \<Rightarrow> bytes \<Rightarrow> marks \<Rightarrow> update" where
  "trie_delete db opts 0 n prefix key ms = (Inl OutOfFuel, ms)"
| "trie_delete db opts (Suc fuel) n prefix key ms =
     (case n of
        ShortNode k val fl \<Rightarrow>
          let matchlen = prefixLen key k in
          if matchlen < length k then (Inr (False, n), ms)
          else if matchlen = length key then (Inr (True, NilNode), markPrunableNode opts n ms)
          else
            changed (trie_delete db opts fuel val (prefix @ take (length k) key) (drop (length k) key) ms) n
              (\<lambda>child ms'.
                 (Inr (True, case child of
                               ShortNode k' val' _ \<Rightarrow> ShortNode (k @ k') val' newFlag
                             | _ \<Rightarrow> ShortNode k child newFlag),
                  markPrunableNode opts n ms'))
      | FullNode cs fl \<Rightarrow>
          (if key = [] then (Inl TriePanic, ms)
           else case child_at cs (hd key) of
             None \<Rightarrow> (Inl TriePanic, ms)
           | Some c \<Rightarrow>
               changed (trie_delete db opts fuel c (prefix @ [hd key]) (tl key) ms) n
                 (\<lambda>nn ms'. (map_sum id (Pair True) (reduce_full db prefix (cs[unat (hd key) := nn])),
                            markPrunableNode opts n ms')))
      | ValueNode _ \<Rightarrow> (Inr (True, NilNode), ms)
      | NilNode \<Rightarrow> (Inr (False, NilNode), ms)
      | HashNode h \<Rightarrow>
          (case resolveHash db h prefix of
             Inl e \<Rightarrow> (Inl e, ms)
           | Inr rn \<Rightarrow>
               changed (trie_delete db opts fuel rn prefix key ms) rn (\<lambda>nn ms'. (Inr (True, nn), ms'))))"

section \<open>The trie\<close>

record Trie =
  tr_opts :: trieOpts
  tr_root :: node
  tr_originalRoot :: bytes
  tr_storage :: bool
  tr_pruningMarksCache :: marks

text \<open>Two steps per nibble are enough: one for a reference, one for the node it stands for.\<close>

definition key_fuel :: "bytes \<Rightarrow> nat" where
  "key_fuel key = 2 * length key + 4"

definition newTrie :: "nodeDB \<Rightarrow> bytes \<Rightarrow> bytes \<Rightarrow> bool \<Rightarrow> u64 \<Rightarrow> bool \<Rightarrow> trieError + Trie" where
  "newTrie db emptyRoot root pruning pruningBlock storage =
     (let trie = \<lparr> tr_opts = \<lparr> to_pruning = pruning, to_PruningBlockNumber = pruningBlock \<rparr>, tr_root = NilNode,
                   tr_originalRoot = root, tr_storage = storage, tr_pruningMarksCache = Map.empty \<rparr>
      in if \<not> pruning \<and> pruningBlock \<noteq> 0 then Inl ErrPruningDisabled
         else if \<not> EmptyExtHash root \<and> Unextend root \<noteq> emptyRoot
         then rbind (resolveHash db root []) (\<lambda>rootnode. Inr (trie\<lparr> tr_root := rootnode \<rparr>))
         else Inr trie)"

definition TryGet :: "nodeDB \<Rightarrow> bytes \<Rightarrow> Trie \<Rightarrow> (trieError + bytes option) \<times> Trie" where
  "TryGet db key t =
     (let k = keybytesToHex key in
      case tryGet db (key_fuel k) (tr_root t) k 0 of
        Inl e \<Rightarrow> (Inl e, t)
      | Inr (value, newroot, didResolve) \<Rightarrow> (Inr value, if didResolve then t\<lparr> tr_root := newroot \<rparr> else t))"

text \<open>The result of an update is put in the trie; an error leaves the root but keeps the marks made before it.\<close>

definition set_root :: "Trie \<Rightarrow> update \<Rightarrow> (trieError + unit) \<times> Trie" where
  "set_root t r =
     (let t' = t\<lparr> tr_pruningMarksCache := snd r \<rparr> in
      case fst r of Inl e \<Rightarrow> (Inl e, t') | Inr (_, n) \<Rightarrow> (Inr (), t'\<lparr> tr_root := n \<rparr>))"

definition TryUpdateWithHexKey :: "nodeDB \<Rightarrow> bytes \<Rightarrow> bytes \<Rightarrow> Trie \<Rightarrow> (trieError + unit) \<times> Trie" where
  "TryUpdateWithHexKey db hexKey value t =
     (if value \<noteq> []
      then set_root t (trie_insert db (tr_opts t) (key_fuel hexKey) (tr_root t) [] hexKey (ValueNode value) (tr_pruningMarksCache t))
      else set_root t (trie_delete db (tr_opts t) (key_fuel hexKey) (tr_root t) [] hexKey (tr_pruningMarksCache t)))"

definition TryUpdate :: "nodeDB \<Rightarrow> bytes \<Rightarrow> bytes \<Rightarrow> Trie \<Rightarrow> (trieError + unit) \<times> Trie" where
  "TryUpdate db key value t = TryUpdateWithHexKey db (keybytesToHex key) value t"

definition TryDelete :: "nodeDB \<Rightarrow> bytes \<Rightarrow> Trie \<Rightarrow> (trieError + unit) \<times> Trie" where
  "TryDelete db key t =
     (let k = keybytesToHex key
      in set_root t (trie_delete db (tr_opts t) (key_fuel k) (tr_root t) [] k (tr_pruningMarksCache t)))"

end
