(* ===== verification/Trie_Map.thy ===== *)
theory Trie_Map
  imports Trie_Nodes
begin

text \<open>
  The trie implements a map from keys to non-empty values, also when parts of it are only referenced in the database.
  \<open>holds\<close> says which value a node has for a hex key, \<open>wf_trie\<close> is the canonical form: no empty keys, no short node under a
  short node, at least two children in a full node. Lookup, insertion and deletion succeed on canonical tries, keep
  them canonical and act on \<open>holds\<close> as on a map. Canonical tries with the same contents are the same up to loading.
\<close>

section \<open>Contents and canonical form\<close>

definition deref :: "nodeDB \<Rightarrow> bytes \<Rightarrow> node option" where
  "deref db h = (case BytesToExtHash h of None \<Rightarrow> None | Some eh \<Rightarrow> db eh)"

lemma resolveHash_deref: "deref db h = Some n \<Longrightarrow> resolveHash db h prefix = Inr n"
  by (auto simp: deref_def resolveHash_def split: option.splits)

inductive holds :: "nodeDB \<Rightarrow> node \<Rightarrow> bytes \<Rightarrow> bytes \<Rightarrow> bool" for db where
  val: "holds db (ValueNode v) [] v"
| short: "holds db c s v \<Longrightarrow> holds db (ShortNode k c fl) (k @ s) v"
| full: "unat x < 17 \<Longrightarrow> holds db (cs ! unat x) s v \<Longrightarrow> holds db (FullNode cs fl) (x # s) v"
| ref: "deref db h = Some n \<Longrightarrow> holds db n k v \<Longrightarrow> holds db (HashNode h) k v"

inductive_simps holds_simps [simp]:
  "holds db NilNode k v" "holds db (ValueNode w) k v" "holds db (ShortNode key c fl) k v" "holds db (FullNode cs fl) k v"
  "holds db (HashNode h) k v"

lemma holds_functional: "holds db n k v \<Longrightarrow> holds db n k w \<Longrightarrow> v = w"
  by (induction arbitrary: w rule: holds.induct) auto

text \<open>A full node, loaded or not.\<close>

definition is_branch :: "nodeDB \<Rightarrow> node \<Rightarrow> bool" where
  "is_branch db n \<longleftrightarrow>
     (case n of FullNode _ _ \<Rightarrow> True | HashNode h \<Rightarrow> (\<exists>cs fl. deref db h = Some (FullNode cs fl)) | _ \<Rightarrow> False)"

lemma is_branch_simps [simp]:
  "is_branch db (FullNode cs fl)" "\<not> is_branch db (ShortNode k c fl)" "\<not> is_branch db NilNode" "\<not> is_branch db (ValueNode v)"
  "is_branch db (HashNode h) \<longleftrightarrow> (\<exists>cs fl. deref db h = Some (FullNode cs fl))"
  by (simp_all add: is_branch_def)

definition value_slot :: "node \<Rightarrow> bool" where
  "value_slot c \<longleftrightarrow> c = NilNode \<or> (\<exists>v. c = ValueNode v \<and> v \<noteq> [])"

fun is_hash :: "node \<Rightarrow> bool" where
  "is_hash (HashNode _) = True"
| "is_hash _ = False"

definition crowded :: "node list \<Rightarrow> bool" where
  "crowded cs \<longleftrightarrow> (\<exists>i < length cs. \<exists>j < length cs. i \<noteq> j \<and> cs ! i \<noteq> NilNode \<and> cs ! j \<noteq> NilNode)"

inductive wf_trie :: "nodeDB \<Rightarrow> node \<Rightarrow> bool" for db where
  leaf: "nibbles ns \<Longrightarrow> v \<noteq> [] \<Longrightarrow> wf_trie db (ShortNode (ns @ [16]) (ValueNode v) fl)"
| ext: "nibbles ns \<Longrightarrow> ns \<noteq> [] \<Longrightarrow> is_branch db c \<Longrightarrow> wf_trie db c \<Longrightarrow> wf_trie db (ShortNode ns c fl)"
| full: "length cs = 17 \<Longrightarrow> (\<And>i. i < 16 \<Longrightarrow> cs ! i = NilNode \<or> wf_trie db (cs ! i)) \<Longrightarrow> value_slot (cs ! 16) \<Longrightarrow>
    crowded cs \<Longrightarrow> wf_trie db (FullNode cs fl)"
| ref: "deref db h = Some n \<Longrightarrow> \<not> is_hash n \<Longrightarrow> wf_trie db n \<Longrightarrow> wf_trie db (HashNode h)"

inductive_simps wf_trie_simps [simp]:
  "wf_trie db NilNode" "wf_trie db (ValueNode v)" "wf_trie db (HashNode h)" "wf_trie db (FullNode cs fl)"

text \<open>Keys with their terminator.\<close>

definition tkey :: "bytes \<Rightarrow> bool" where
  "tkey k \<longleftrightarrow> (\<exists>ns. nibbles ns \<and> k = ns @ [16])"

lemma tkey_Cons: "tkey (x # s) \<longleftrightarrow> (x = 16 \<and> s = []) \<or> (x < 16 \<and> tkey s)"
proof
  assume "tkey (x # s)"
  then obtain ns where "nibbles ns" "x # s = ns @ [16]" by (auto simp: tkey_def)
  then show "(x = 16 \<and> s = []) \<or> (x < 16 \<and> tkey s)" by (cases ns) (auto simp: tkey_def)
next
  assume "(x = 16 \<and> s = []) \<or> (x < 16 \<and> tkey s)"
  then show "tkey (x # s)"
  proof
    assume "x < 16 \<and> tkey s"
    then obtain ns where "nibbles (x # ns)" "x # s = (x # ns) @ [16]" by (auto simp: tkey_def)
    then show ?thesis unfolding tkey_def by blast
  qed (auto simp: tkey_def intro: exI [of _ "[]"])
qed

lemma tkey_nonempty [simp]: "\<not> tkey []"
  by (simp add: tkey_def)

lemma tkey_append: "nibbles ns \<Longrightarrow> tkey (ns @ s) \<longleftrightarrow> tkey s"
  by (induction ns) (auto simp: tkey_Cons)

lemma tkey_keybytes: "tkey (keybytesToHex key)"
  unfolding tkey_def keybytesToHex_eq by auto

lemma unat_nibble: "x < (16 :: u8) \<longleftrightarrow> unat x < 16"
  by (simp add: word_less_nat_alt)

lemma unat_term: "unat x = 16 \<longleftrightarrow> x = (16 :: u8)"
  by (simp add: word_unat_eq_iff)

lemma wf_trie_children:
  assumes "wf_trie db (FullNode cs fl)" "unat (x :: u8) < 17"
  shows "(x = 16 \<and> value_slot (cs ! unat x)) \<or> (x < 16 \<and> (cs ! unat x = NilNode \<or> wf_trie db (cs ! unat x)))"
proof (cases "unat x < 16")
  case True
  then show ?thesis using assms(1) by (simp add: unat_nibble)
next
  case False
  then have "unat x = 16" using assms(2) by simp
  then show ?thesis using assms(1) unat_term [of x] by simp
qed

lemma wf_holds:
  assumes "wf_trie db n" "holds db n k v"
  shows "tkey k \<and> v \<noteq> []"
  using assms
proof (induction arbitrary: k v rule: wf_trie.induct)
  case (leaf ns w fl)
  then show ?case by (auto simp: tkey_def)
next
  case (full cs fl)
  then obtain x s where x: "k = x # s" "unat x < 17" "holds db (cs ! unat x) s v" by auto
  show ?case
  proof (cases "unat x < 16")
    case True
    then show ?thesis using full(4) [OF True] x by (auto simp: tkey_Cons unat_nibble)
  next
    case False
    then have "unat x = 16" using x(2) by simp
    moreover from this have "x = 16" using unat_term by blast
    ultimately show ?thesis using full(2) x by (auto simp: tkey_Cons value_slot_def)
  qed
qed (auto simp: tkey_append)

lemma slot_nonempty: "value_slot c \<Longrightarrow> c \<noteq> NilNode \<Longrightarrow> \<exists>v. holds db c [] v"
  by (auto simp: value_slot_def)

lemma wf_nonempty: "wf_trie db n \<Longrightarrow> \<exists>k v. holds db n k v"
proof (induction rule: wf_trie.induct)
  case (full cs fl)
  obtain i where i: "i < 17" "cs ! i \<noteq> NilNode" using full(1,3) by (auto simp: crowded_def)
  obtain s v where "holds db (cs ! i) s v"
  proof (cases "i < 16")
    case True
    then show thesis using full(4) i that by blast
  next
    case False
    then have "i = 16" using i(1) by simp
    then show thesis using slot_nonempty [OF full(2)] i(2) that by blast
  qed
  moreover have "unat (of_nat i :: u8) = i" using i(1) by (simp add: unat_of_nat)
  ultimately have "holds db (FullNode cs fl) (of_nat i # s) v" using i(1) by simp
  then show ?case by blast
qed auto

lemma child_holds:
  assumes "wf_trie db (FullNode cs fl)" "i < 17" "cs ! i \<noteq> NilNode"
  shows "\<exists>s v. holds db (FullNode cs fl) (of_nat i # s) v"
proof -
  have u: "unat (of_nat i :: u8) = i" using assms(2) by (simp add: unat_of_nat)
  then have "\<exists>s v. holds db (cs ! i) s v"
    using wf_trie_children [OF assms(1), of "of_nat i"] assms(2,3) slot_nonempty wf_nonempty by metis
  then show ?thesis using u assms(2) by auto
qed

lemma branch_two_keys:
  assumes "wf_trie db n" "is_branch db n"
  shows "\<exists>x s v y t w. x \<noteq> y \<and> holds db n (x # s) v \<and> holds db n (y # t) w"
proof -
  obtain cs fl where n: "wf_trie db (FullNode cs fl)" "holds db n = holds db (FullNode cs fl)"
    using assms by (cases n) (auto simp: fun_eq_iff)
  then obtain i j where ij: "i < 17" "j < 17" "i \<noteq> j" "cs ! i \<noteq> NilNode" "cs ! j \<noteq> NilNode"
    by (auto simp: crowded_def)
  moreover from ij have "(of_nat i :: u8) \<noteq> of_nat j"
    by (simp add: word_unat_eq_iff unat_of_nat)
  ultimately show ?thesis using child_holds [OF n(1)] n(2) by metis
qed

section \<open>Lookup\<close>

definition enough :: "node \<Rightarrow> bytes \<Rightarrow> nat \<Rightarrow> bool" where
  "enough n k fuel \<longleftrightarrow> 2 * length k + (if is_hash n then 1 else 0) < fuel"

text \<open>Loading nodes changes neither the contents nor the canonical form.\<close>

definition loaded :: "nodeDB \<Rightarrow> node \<Rightarrow> node \<Rightarrow> bool" where
  "loaded db n n' \<longleftrightarrow> wf_trie db n' \<and> holds db n' = holds db n \<and> is_branch db n' = is_branch db n"

definition get_ok :: "nodeDB \<Rightarrow> node \<Rightarrow> bytes \<Rightarrow> trieError + (bytes option \<times> node \<times> bool) \<Rightarrow> bool" where
  "get_ok db n k r \<longleftrightarrow>
     (\<exists>value n' d. r = Inr (value, n', d) \<and> (\<forall>v. value = Some v \<longleftrightarrow> holds db n k v) \<and> (d \<longrightarrow> loaded db n n'))"

lemma crowded_update:
  assumes "crowded cs" "c \<noteq> NilNode" "cs ! i \<noteq> NilNode"
  shows "crowded (cs[i := c])"
proof -
  obtain j k where "j < length cs" "k < length cs" "j \<noteq> k" "cs ! j \<noteq> NilNode" "cs ! k \<noteq> NilNode"
    using assms(1) by (auto simp: crowded_def)
  moreover have "cs[i := c] ! m \<noteq> NilNode" if "cs ! m \<noteq> NilNode" "m < length cs" for m
    using that assms(2) by (cases "m = i") auto
  ultimately show ?thesis unfolding crowded_def by (metis length_list_update)
qed

lemma loaded_full:
  assumes "wf_trie db (FullNode cs fl)" "unat (x :: u8) < 16" "loaded db (cs ! unat x) c"
  shows "loaded db (FullNode cs fl) (FullNode (cs[unat x := c]) fl)"
proof -
  have len: "length cs = 17" using assms(1) by simp
  have nil: "c \<noteq> NilNode" "cs ! unat x \<noteq> NilNode"
    using assms(3) wf_nonempty [of db c] by (auto simp: loaded_def fun_eq_iff)
  have "crowded (cs[unat x := c])"
    using assms(1) nil by (intro crowded_update) auto
  moreover have "cs[unat x := c] ! i = NilNode \<or> wf_trie db (cs[unat x := c] ! i)" if "i < 16" for i
    using assms that by (cases "i = unat x") (auto simp: nth_list_update loaded_def)
  ultimately have "wf_trie db (FullNode (cs[unat x := c]) fl)" using assms(1,2) len by simp
  moreover have "holds db (cs[unat x := c] ! unat y) = holds db (cs ! unat y)" if "unat y < 17" for y :: u8
    using assms(3) len that by (cases "unat y = unat x") (auto simp: loaded_def)
  ultimately show ?thesis by (auto simp: loaded_def fun_eq_iff)
qed

lemma tryGet_value_slot: "value_slot c \<Longrightarrow> 0 < fuel \<Longrightarrow>
    \<exists>value. tryGet db fuel c key pos = Inr (value, c, False) \<and> (\<forall>v. value = Some v \<longleftrightarrow> holds db c [] v)"
  by (cases fuel) (auto simp: value_slot_def)

lemma take_prefix_iff: "length k \<le> length s \<Longrightarrow> k = take (length k) s \<longleftrightarrow> (\<exists>t. s = k @ t)"
  by (metis append_eq_conv_conj append_take_drop_id)

lemma tryGet_same: "tryGet db fuel n key pos = Inr (value, n', False) \<Longrightarrow> n' = n"
  by (cases fuel; cases n) (auto simp: rbind_eq_Inr split: if_splits option.splits)

lemma loaded_trans: "loaded db a b \<Longrightarrow> loaded db b c \<Longrightarrow> loaded db a c"
  by (simp add: loaded_def)

lemma tryGet_ok:
  assumes "wf_trie db n" "tkey (drop pos key)" "enough n (drop pos key) fuel"
  shows "get_ok db n (drop pos key) (tryGet db fuel n key pos)"
  using assms
proof (induction arbitrary: pos fuel rule: wf_trie.induct)
  case (leaf ns v fl)
  obtain f where fuel: "fuel = Suc f" using leaf(4) by (cases fuel) (auto simp: enough_def)
  have f: "f > 0" using leaf(3,4) fuel by (cases "drop pos key") (auto simp: enough_def)
  show ?case
  proof (cases "\<exists>t. drop pos key = (ns @ [16]) @ t")
    case True
    then obtain t where t: "drop pos key = (ns @ [16]) @ t" by blast
    then have "t = []" using leaf(1,3) by (auto simp: tkey_append tkey_Cons)
    moreover have "length key - pos = length (drop pos key)" by simp
    ultimately show ?thesis using t fuel f by (cases f) (auto simp: get_ok_def)
  next
    case False
    then have "length key - pos < Suc (length ns) \<or> ns @ [16] \<noteq> take (Suc (length ns)) (drop pos key)"
      using take_prefix_iff [of "ns @ [16]" "drop pos key"] by (auto simp: not_less)
    then have "tryGet db fuel (ShortNode (ns @ [16]) (ValueNode v) fl) key pos = Inr (None, ShortNode (ns @ [16]) (ValueNode v) fl, False)"
      using fuel by simp
    then show ?thesis using False by (auto simp: get_ok_def)
  qed
next
  case (ext ns c fl)
  then obtain f where fuel: "fuel = Suc f" by (cases fuel) (auto simp: enough_def)
  show ?case
  proof (cases "\<exists>t. drop pos key = ns @ t")
    case True
    then obtain t where t: "drop pos key = ns @ t" by blast
    then have t': "drop (pos + length ns) key = t" by (metis add.commute append_eq_conv_conj drop_drop)
    have "length ns + length t = length key - pos" using t by (metis length_append length_drop)
    moreover have "tkey t" using ext(1,6) t by (simp add: tkey_append)
    moreover have "enough c t f" using ext(2,7) fuel t by (cases ns) (auto simp: enough_def)
    ultimately show ?thesis
      using ext(5) [of "pos + length ns" f] t t' fuel ext(1-4)
      by (auto simp: get_ok_def loaded_def fun_eq_iff intro!: wf_trie.ext)
  next
    case False
    then have "length key - pos < length ns \<or> ns \<noteq> take (length ns) (drop pos key)"
      using take_prefix_iff [of ns "drop pos key"] by (auto simp: not_less)
    then have "tryGet db fuel (ShortNode ns c fl) key pos = Inr (None, ShortNode ns c fl, False)"
      using fuel by simp
    then show ?thesis using False by (auto simp: get_ok_def)
  qed
next
  case (full cs fl)
  then obtain f where fuel: "fuel = Suc f" by (cases fuel) (auto simp: enough_def)
  have wf: "wf_trie db (FullNode cs fl)" using full(1-4) by auto
  obtain x s where xs: "drop pos key = x # s" using full(5) by (cases "drop pos key") auto
  then have key: "pos < length key" "key ! pos = x" "drop (Suc pos) key = s"
    by (metis drop_eq_Nil list.distinct(1) not_le, metis nth_via_drop, metis Cons_nth_drop_Suc drop_eq_Nil list.distinct(1) list.inject not_le)
  consider (t) "x = 16" "s = []" | (n) "unat x < 16" "tkey s" using full(5) xs by (auto simp: tkey_Cons unat_nibble)
  then show ?case
  proof cases
    case t
    obtain v where "tryGet db f (cs ! 16) key (Suc pos) = Inr (v, cs ! 16, False)"
      "\<forall>w. v = Some w \<longleftrightarrow> holds db (cs ! 16) [] w"
      using tryGet_value_slot [OF full(2), of f db key "Suc pos"] full(6) fuel xs by (auto simp: enough_def)
    then show ?thesis using fuel key xs t by (auto simp: get_ok_def child_at_def)
  next
    case n
    have "enough (cs ! unat x) s f" using full(6) fuel xs by (auto simp: enough_def)
    then have "get_ok db (cs ! unat x) s (tryGet db f (cs ! unat x) key (Suc pos))"
    proof (cases "cs ! unat x = NilNode")
      case True
      then show ?thesis using \<open>enough _ s f\<close> by (cases f) (auto simp: get_ok_def enough_def)
    next
      case False
      then show ?thesis using full(4) [OF n(1)] n(2) key(3) \<open>enough _ s f\<close> by blast
    qed
    then show ?thesis using fuel key xs n loaded_full [OF wf n(1)] by (auto simp: get_ok_def child_at_def)
  qed
next
  case (ref h n)
  then obtain f where fuel: "fuel = Suc f" by (cases fuel) (auto simp: enough_def)
  have "get_ok db n (drop pos key) (tryGet db f n key pos)"
    using ref(2,4-6) fuel by (auto simp: enough_def)
  then obtain val n' d where r: "tryGet db f n key pos = Inr (val, n', d)"
    "\<forall>v. val = Some v \<longleftrightarrow> holds db n (drop pos key) v" "d \<longrightarrow> loaded db n n'"
    unfolding get_ok_def by blast
  have "loaded db (HashNode h) n"
    using ref(1-3) by (cases n) (auto simp: loaded_def fun_eq_iff)
  moreover have "n' = n" if "\<not> d" using tryGet_same r(1) that by simp
  ultimately have "loaded db (HashNode h) n'" using r(3) loaded_trans by blast
  then show ?case
    unfolding get_ok_def using fuel resolveHash_deref [OF ref(1)] ref(1) r(1,2) by auto
qed

section \<open>Insertion\<close>

definition insert_ok :: "nodeDB \<Rightarrow> node \<Rightarrow> bytes \<Rightarrow> bytes \<Rightarrow> update \<Rightarrow> bool" where
  "insert_ok db n k v r \<longleftrightarrow>
     (\<exists>d n' ms. r = (Inr (d, n'), ms) \<and> (\<not> d \<longrightarrow> holds db n k v) \<and>
       (\<forall>k' w. holds db n' k' w \<longleftrightarrow> (if k' = k then w = v else holds db n k' w)) \<and>
       wf_trie db n' \<and> (is_branch db n \<longrightarrow> is_branch db n'))"

lemma prefixLen_spec:
  "prefixLen a b \<le> length a \<and> prefixLen a b \<le> length b \<and> take (prefixLen a b) a = take (prefixLen a b) b \<and>
   (prefixLen a b < length a \<and> prefixLen a b < length b \<longrightarrow> a ! prefixLen a b \<noteq> b ! prefixLen a b)"
  by (induction a b rule: prefixLen.induct) auto

lemma prefixLen_cases:
  obtains (whole) t where "key = k @ t" "prefixLen key k = length k"
  | (branch) p x s y t where "key = p @ x # s" "k = p @ y # t" "x \<noteq> y" "prefixLen key k = length p"
  | (shorter) y t where "k = key @ y # t" "prefixLen key k = length key"
proof -
  let ?m = "prefixLen key k"
  note spec = prefixLen_spec [of key k]
  consider "?m = length k" | "?m < length k" "?m = length key" | "?m < length k" "?m < length key"
    using spec by linarith
  then show thesis
  proof cases
    case 1
    then have "key = k @ drop ?m key" using spec by (metis append_take_drop_id take_all_iff order_refl)
    then show thesis using 1 that(1) by blast
  next
    case 2
    then have "k = take ?m k @ k ! ?m # drop (Suc ?m) k" by (simp add: id_take_nth_drop)
    moreover have "take ?m k = key" using 2(2) spec by simp
    ultimately show thesis using 2(2) that(3) by metis
  next
    case 3
    then have "k = take ?m k @ k ! ?m # drop (Suc ?m) k" "key = take ?m k @ key ! ?m # drop (Suc ?m) key"
      using spec by (simp_all add: id_take_nth_drop) (metis id_take_nth_drop)
    moreover have "length (take ?m k) = ?m" using 3 by simp
    ultimately show thesis using that(2) spec 3 by metis
  qed
qed

lemma tkey_prefix: "tkey k \<Longrightarrow> tkey (k @ t) \<Longrightarrow> t = []"
  by (induction k) (auto simp: tkey_Cons)

lemma insert_ok_changed:
  assumes "insert_ok db c s v r" and old: "wf_trie db n"
    and in_n: "\<And>w. holds db c s w \<Longrightarrow> holds db n k w"
    and new: "\<And>nn ms. r = (Inr (True, nn), ms) \<Longrightarrow> insert_ok db n k v (f nn ms)"
  shows "insert_ok db n k v (changed r n f)"
proof -
  obtain d n' ms where r: "r = (Inr (d, n'), ms)" "\<not> d \<longrightarrow> holds db c s v" using assms(1) by (auto simp: insert_ok_def)
  show ?thesis
  proof (cases d)
    case True
    then show ?thesis using r new by (simp add: changed_def)
  next
    case False
    then have "holds db n k v" using r(2) in_n by blast
    then show ?thesis using False r(1) old holds_functional unfolding insert_ok_def changed_def by fastforce
  qed
qed

lemma insert_ok_same:
  assumes "holds db m = holds db n" "is_branch db m = is_branch db n" "insert_ok db n k v r"
  shows "insert_ok db m k v r"
  using assms(3) unfolding insert_ok_def assms(1,2) .

lemma insert_nil_ok:
  assumes "tkey k" "v \<noteq> []" "0 < fuel"
  shows "insert_ok db NilNode k v (trie_insert db opts fuel NilNode prefix k (ValueNode v) ms)"
proof -
  obtain f where f: "fuel = Suc f" using assms(3) by (cases fuel) auto
  have "k \<noteq> []" "wf_trie db (ShortNode k (ValueNode v) newFlag)"
    using assms(1,2) by (auto simp: tkey_def intro: wf_trie.leaf)
  then show ?thesis using f by (auto simp: insert_ok_def)
qed

text \<open>What ends up in a new branch: the rest of the old short node, and the new leaf.\<close>

lemma insert_rest:
  "0 < fuel \<Longrightarrow> trie_insert db opts fuel NilNode prefix t c ms = (Inr (True, if t = [] then c else ShortNode t c newFlag), ms)"
  by (cases fuel) auto

definition slot_ok :: "nodeDB \<Rightarrow> u8 \<Rightarrow> node \<Rightarrow> bool" where
  "slot_ok db x c \<longleftrightarrow> c \<noteq> NilNode \<and> unat x < 17 \<and> (if x = 16 then value_slot c else wf_trie db c)"

lemma new_branch:
  assumes "slot_ok db x c" "slot_ok db y d" "x \<noteq> y"
  shows "wf_trie db (FullNode ((replicate 17 NilNode)[unat y := d, unat x := c]) fl)"
    and "holds db (FullNode ((replicate 17 NilNode)[unat y := d, unat x := c]) fl) k w \<longleftrightarrow>
      (\<exists>s. k = x # s \<and> holds db c s w \<or> k = y # s \<and> holds db d s w)"
proof -
  let ?cs = "(replicate 17 NilNode)[unat y := d, unat x := c]"
  have u: "unat x \<noteq> unat y" "unat x < 17" "unat y < 17" using assms by (simp_all add: slot_ok_def word_unat_eq_iff)
  have nth: "?cs ! i = (if i = unat x then c else if i = unat y then d else NilNode)" if "i < 17" for i
    using that u by (simp add: nth_list_update)
  have "?cs ! i = NilNode \<or> wf_trie db (?cs ! i)" if "i < 16" for i
    using nth [of i] that assms unat_term [of x] unat_term [of y] by (auto simp: slot_ok_def)
  moreover have "value_slot (?cs ! 16)"
    using nth [of 16] assms unat_term [of x] unat_term [of y] by (auto simp: slot_ok_def value_slot_def)
  moreover have "crowded ?cs"
    unfolding crowded_def using u nth assms(1,2) by (intro exI [of _ "unat x"] conjI exI [of _ "unat y"]) (auto simp: slot_ok_def)
  ultimately show "wf_trie db (FullNode ?cs fl)" by simp
  show "holds db (FullNode ?cs fl) k w \<longleftrightarrow> (\<exists>s. k = x # s \<and> holds db c s w \<or> k = y # s \<and> holds db d s w)"
    using nth u by (auto simp: word_unat_eq_iff [symmetric] split: if_splits)
qed

lemma tkey_front: "tkey (p @ x # s) \<Longrightarrow> nibbles p \<and> tkey (x # s)"
  by (induction p) (auto simp: tkey_Cons)

lemma wf_shortE:
  assumes "wf_trie db (ShortNode k c fl)"
  obtains (leaf) ns v where "nibbles ns" "v \<noteq> []" "k = ns @ [16]" "c = ValueNode v"
  | (ext) "nibbles k" "k \<noteq> []" "is_branch db c" "wf_trie db c"
  using assms by (cases rule: wf_trie.cases) auto

lemma short_slot:
  assumes "wf_trie db (ShortNode (p @ y # t) c fl)"
  shows "slot_ok db y (if t = [] then c else ShortNode t c newFlag)"
  using assms
proof (cases rule: wf_shortE)
  case (leaf ns v)
  then have "tkey (p @ y # t)" by (auto simp: tkey_def)
  then have yt: "tkey (y # t)" using tkey_front by blast
  then show ?thesis
  proof (cases "t = []")
    case True
    then show ?thesis using leaf yt by (auto simp: slot_ok_def value_slot_def tkey_Cons)
  next
    case False
    then have "y < 16" "tkey t" using yt by (auto simp: tkey_Cons)
    then show ?thesis using leaf False
      by (auto simp: slot_ok_def unat_nibble tkey_def intro: wf_trie.leaf)
  qed
next
  case ext
  then have "y < 16" "nibbles t" by auto
  moreover have "c \<noteq> NilNode" using ext by auto
  ultimately show ?thesis using ext by (auto simp: slot_ok_def unat_nibble intro: wf_trie.ext)
qed

lemma leaf_slot:
  assumes "tkey (x # s)" "v \<noteq> []"
  shows "slot_ok db x (if s = [] then ValueNode v else ShortNode s (ValueNode v) newFlag)"
proof -
  have "x = 16 \<and> s = [] \<or> x < 16 \<and> tkey s" using assms(1) by (simp add: tkey_Cons)
  moreover have "wf_trie db (ShortNode s (ValueNode v) newFlag)" if "tkey s"
    using that assms(2) by (auto simp: tkey_def intro: wf_trie.leaf)
  ultimately show ?thesis using assms(2) by (auto simp: slot_ok_def value_slot_def unat_nibble)
qed

lemma insert_branch_ok:
  assumes wf: "wf_trie db (ShortNode k c fl)" and key: "tkey key" "v \<noteq> []" "0 < fuel"
    and split: "key = p @ x # s" "k = p @ y # t" "x \<noteq> y" "prefixLen key k = length p"
  shows "insert_ok db (ShortNode k c fl) key v (trie_insert db opts (Suc fuel) (ShortNode k c fl) prefix key (ValueNode v) ms)"
proof -
  let ?d = "if t = [] then c else ShortNode t c newFlag"
  let ?l = "if s = [] then ValueNode v else ShortNode s (ValueNode v) newFlag"
  let ?branch = "FullNode ((replicate 17 NilNode)[unat y := ?d, unat x := ?l]) newFlag"
  have slots: "slot_ok db y ?d" "slot_ok db x ?l" and p: "nibbles p"
    using short_slot [of db p y t] leaf_slot [of x s v db] wf key(1,2) split(1,2) tkey_front [of p x s] by auto
  have ins: "trie_insert db opts (Suc fuel) (ShortNode k c fl) prefix key (ValueNode v) ms =
      (Inr (True, if p = [] then ?branch else ShortNode p ?branch newFlag), markPrunableNode opts (ShortNode k c fl) ms)"
    using split slots insert_rest [OF key(3)] by (simp add: nth_append slot_ok_def Let_def)
  define B where "B = ?branch"
  have B: "wf_trie db B" "is_branch db B"
    "\<And>k w. holds db B k w \<longleftrightarrow> (\<exists>s'. k = x # s' \<and> holds db ?l s' w \<or> k = y # s' \<and> holds db ?d s' w)"
    using new_branch [OF slots(2,1) split(3), where fl = newFlag] by (simp_all add: B_def del: holds_simps wf_trie_simps)
  have l: "holds db ?l s' w \<longleftrightarrow> s' = s \<and> w = v" for s' w by auto
  have d: "holds db ?d s' w \<longleftrightarrow> (\<exists>s''. s' = t @ s'' \<and> holds db c s'' w)" for s' w by auto
  have hB: "holds db B k w \<longleftrightarrow> k = x # s \<and> w = v \<or> (\<exists>s''. k = y # t @ s'' \<and> holds db c s'' w)" for k w
    unfolding B(3) l d by blast
  have e: "holds db (if p = [] then B else ShortNode p B newFlag) k' w \<longleftrightarrow> (\<exists>s'. k' = p @ s' \<and> holds db B s' w)" for k' w
    by simp
  have hf: "holds db (if p = [] then B else ShortNode p B newFlag) k' w \<longleftrightarrow>
      (if k' = key then w = v else holds db (ShortNode k c fl) k' w)" for k' w
    unfolding e hB unfolding split(1,2) using split(3) by auto
  have wff: "wf_trie db (if p = [] then B else ShortNode p B newFlag)"
    using B(1,2) p by (auto intro: wf_trie.ext)
  show ?thesis
    unfolding ins insert_ok_def B_def [symmetric]
    by (intro exI conjI, rule refl) (simp, simp only: hf, simp, rule wff, simp)
qed

lemma short_key_not_longer:
  assumes "wf_trie db (ShortNode (key @ y # t) c fl)"
  shows "\<not> tkey key"
  using assms
proof (cases rule: wf_shortE)
  case (leaf ns w)
  then show ?thesis using tkey_prefix [of key "y # t"] by (auto simp: tkey_def)
qed (auto simp: tkey_def)

lemma insert_leaf_ok:
  assumes wf: "wf_trie db (ShortNode k (ValueNode u) fl)" and key: "tkey key" "v \<noteq> []" "0 < fuel"
  shows "insert_ok db (ShortNode k (ValueNode u) fl) key v
    (trie_insert db opts (Suc fuel) (ShortNode k (ValueNode u) fl) prefix key (ValueNode v) ms)"
proof (cases key k rule: prefixLen_cases)
  case (whole t)
  obtain ns where ns: "nibbles ns" "k = ns @ [16]" using wf by (cases rule: wf_shortE) auto
  then have t: "t = []" "k = key" using whole(1) key(1) by (auto simp: tkey_append tkey_Cons)
  moreover have "wf_trie db (ShortNode k (ValueNode v) fl')" for fl' using ns key(2) by (auto intro: wf_trie.leaf)
  moreover have "key \<noteq> []" using key(1) by auto
  ultimately show ?thesis
    using whole key(3) wf by (cases fuel) (auto simp: Let_def changed_def insert_ok_def)
next
  case branch
  then show ?thesis using insert_branch_ok [OF wf key] by blast
next
  case shorter
  then show ?thesis using short_key_not_longer wf key(1) by blast
qed

lemma insert_ext_ok:
  assumes wf: "wf_trie db (ShortNode k c fl)" "is_branch db c" and key: "tkey key" "v \<noteq> []" "0 < fuel"
    and sub: "\<And>s prefix' ms'. key = k @ s \<Longrightarrow> insert_ok db c s v (trie_insert db opts fuel c prefix' s (ValueNode v) ms')"
  shows "insert_ok db (ShortNode k c fl) key v (trie_insert db opts (Suc fuel) (ShortNode k c fl) prefix key (ValueNode v) ms)"
proof (cases key k rule: prefixLen_cases)
  case (whole t)
  let ?f = "\<lambda>nn ms'. (Inr (True, ShortNode k nn newFlag), markPrunableNode opts (ShortNode k c fl) ms')"
  have k: "nibbles k" "k \<noteq> []" using wf by (auto elim: wf_shortE)
  have "key \<noteq> []" using key(1) by auto
  then have "trie_insert db opts (Suc fuel) (ShortNode k c fl) prefix key (ValueNode v) ms =
      changed (trie_insert db opts fuel c (prefix @ k) t (ValueNode v) ms) (ShortNode k c fl) ?f"
    using whole k(2) by (simp add: Let_def)
  moreover have "insert_ok db (ShortNode k c fl) key v
      (changed (trie_insert db opts fuel c (prefix @ k) t (ValueNode v) ms) (ShortNode k c fl) ?f)"
  proof (rule insert_ok_changed [OF sub [OF whole(1)] wf(1)])
    fix nn ms'
    assume "trie_insert db opts fuel c (prefix @ k) t (ValueNode v) ms = (Inr (True, nn), ms')"
    with sub [OF whole(1), of "prefix @ k" ms] have nn: "wf_trie db nn" "is_branch db nn"
      "\<forall>k' w. holds db nn k' w \<longleftrightarrow> (if k' = t then w = v else holds db c k' w)"
      using wf(2) by (auto simp: insert_ok_def)
    then have "wf_trie db (ShortNode k nn newFlag)" using k by (auto intro: wf_trie.ext)
    then show "insert_ok db (ShortNode k c fl) key v (?f nn ms')"
      using nn(3) whole(1) by (auto simp: insert_ok_def)
  qed (use whole in auto)
  ultimately show ?thesis by simp
next
  case branch
  then show ?thesis using insert_branch_ok [OF wf(1) key] by blast
next
  case shorter
  then show ?thesis using short_key_not_longer wf(1) key(1) by blast
qed

lemma full_update:
  assumes "wf_trie db (FullNode cs fl)" "slot_ok db x c"
  shows "wf_trie db (FullNode (cs[unat x := c]) fl')"
    and "holds db (FullNode (cs[unat x := c]) fl') k w \<longleftrightarrow>
      (\<exists>y s. k = y # s \<and> unat y < 17 \<and> (if y = x then holds db c s w else holds db (cs ! unat y) s w))"
proof -
  let ?cs = "cs[unat x := c]"
  have len: "length cs = 17" and x: "unat x < 17" using assms by (simp_all add: slot_ok_def)
  have nth: "?cs ! i = (if i = unat x then c else cs ! i)" if "i < 17" for i
    using that len by (simp add: nth_list_update)
  have "?cs ! i = NilNode \<or> wf_trie db (?cs ! i)" if "i < 16" for i
    using nth [of i] that assms unat_term [of x] by (auto simp: slot_ok_def)
  moreover have "value_slot (?cs ! 16)"
    using nth [of 16] assms unat_term [of x] by (auto simp: slot_ok_def)
  moreover have "crowded ?cs"
  proof -
    obtain i where i: "i < 17" "i \<noteq> unat x" "cs ! i \<noteq> NilNode"
      using assms(1) len by (auto simp: crowded_def)
    then show ?thesis unfolding crowded_def using x nth assms(2) len
      by (intro exI [of _ "unat x"] exI [of _ i] conjI) (auto simp: slot_ok_def)
  qed
  ultimately show "wf_trie db (FullNode ?cs fl')" using len by simp
  show "holds db (FullNode ?cs fl') k w \<longleftrightarrow>
      (\<exists>y s. k = y # s \<and> unat y < 17 \<and> (if y = x then holds db c s w else holds db (cs ! unat y) s w))"
  proof -
    have "holds db (?cs ! unat y) s w = (if y = x then holds db c s w else holds db (cs ! unat y) s w)" if "unat y < 17" for y s
      using nth [OF that] by (simp add: word_unat_eq_iff)
    then show ?thesis unfolding holds_simps by blast
  qed
qed

text \<open>Insertion below a full node, at the value slot and at the others.\<close>

definition slot_insert_ok :: "nodeDB \<Rightarrow> u8 \<Rightarrow> node \<Rightarrow> bytes \<Rightarrow> bytes \<Rightarrow> update \<Rightarrow> bool" where
  "slot_insert_ok db x c s v r \<longleftrightarrow>
     (\<exists>d c' ms. r = (Inr (d, c'), ms) \<and> (\<not> d \<longrightarrow> holds db c s v) \<and> slot_ok db x c' \<and>
        (\<forall>k' w. holds db c' k' w \<longleftrightarrow> (if k' = s then w = v else holds db c k' w)))"

lemma insert_value_slot:
  "value_slot c \<Longrightarrow> v \<noteq> [] \<Longrightarrow> 0 < fuel \<Longrightarrow> slot_insert_ok db 16 c [] v (trie_insert db opts fuel c prefix [] (ValueNode v) ms)"
  by (cases fuel) (auto simp: value_slot_def slot_insert_ok_def slot_ok_def)

lemma insert_slot:
  assumes "insert_ok db c s v r" "unat x < 16"
  shows "slot_insert_ok db x c s v r"
proof -
  have "x \<noteq> 16" using assms(2) unat_term [of x] by auto
  then show ?thesis using assms unfolding insert_ok_def slot_insert_ok_def slot_ok_def by fastforce
qed

lemma insert_full_ok:
  assumes wf: "wf_trie db (FullNode cs fl)" and x: "unat x < 17"
    and sub: "slot_insert_ok db x (cs ! unat x) s v (trie_insert db opts fuel (cs ! unat x) (prefix @ [x]) s (ValueNode v) ms)"
  shows "insert_ok db (FullNode cs fl) (x # s) v (trie_insert db opts (Suc fuel) (FullNode cs fl) prefix (x # s) (ValueNode v) ms)"
proof -
  obtain d c ms' where c: "trie_insert db opts fuel (cs ! unat x) (prefix @ [x]) s (ValueNode v) ms = (Inr (d, c), ms')"
    "\<not> d \<longrightarrow> holds db (cs ! unat x) s v" "slot_ok db x c"
    "\<And>k' w. holds db c k' w \<longleftrightarrow> (if k' = s then w = v else holds db (cs ! unat x) k' w)"
    using sub by (auto simp: slot_insert_ok_def)
  note new = full_update [OF wf c(3), where fl' = newFlag]
  show ?thesis
  proof (cases d)
    case True
    then have "trie_insert db opts (Suc fuel) (FullNode cs fl) prefix (x # s) (ValueNode v) ms =
        (Inr (True, FullNode (cs[unat x := c]) newFlag), markPrunableNode opts (FullNode cs fl) ms')"
      using c(1) x by (simp add: child_at_def changed_def)
    moreover have "holds db (FullNode (cs[unat x := c]) newFlag) k' w \<longleftrightarrow>
        (if k' = x # s then w = v else holds db (FullNode cs fl) k' w)" for k' w
      unfolding new(2) c(4) using x by auto
    ultimately show ?thesis
      using new(1) unfolding insert_ok_def
      by (intro exI conjI) (assumption, simp, simp del: holds_simps, assumption, simp)
  next
    case False
    then have "trie_insert db opts (Suc fuel) (FullNode cs fl) prefix (x # s) (ValueNode v) ms = (Inr (False, FullNode cs fl), ms')"
      using c(1) x by (simp add: child_at_def changed_def)
    moreover have "holds db (FullNode cs fl) (x # s) v" using c(2) False x by simp
    ultimately show ?thesis using wf holds_functional unfolding insert_ok_def by fastforce
  qed
qed

lemma trie_insert_ok:
  assumes "wf_trie db n" "tkey key" "v \<noteq> []" "enough n key fuel"
  shows "insert_ok db n key v (trie_insert db opts fuel n prefix key (ValueNode v) ms)"
  using assms
proof (induction arbitrary: key prefix ms fuel rule: wf_trie.induct)
  case (leaf ns u fl)
  then obtain f where "fuel = Suc f" "0 < f" by (cases fuel; cases key) (auto simp: enough_def)
  then show ?case using insert_leaf_ok wf_trie.leaf [OF leaf(1,2)] leaf(3,4) by blast
next
  case (ext ns c fl)
  then obtain f where f: "fuel = Suc f" "0 < f" by (cases fuel; cases key) (auto simp: enough_def)
  have "insert_ok db c s v (trie_insert db opts f c prefix' s (ValueNode v) ms')" if "key = ns @ s" for s prefix' ms'
    using ext(5) [of s f] ext(1,2,6-8) that f by (cases ns) (auto simp: enough_def tkey_append tkey_Cons)
  then show ?case using insert_ext_ok wf_trie.ext [OF ext(1-4)] ext(3,6,7) f by blast
next
  case (full cs fl)
  then have wf: "wf_trie db (FullNode cs fl)" by auto
  obtain f where f: "fuel = Suc f" "0 < f" using full(5,7) by (cases fuel; cases key) (auto simp: enough_def)
  obtain x s where key: "key = x # s" using full(5) by (cases key) auto
  consider (t) "x = 16" "s = []" | (n) "unat x < 16" "tkey s" using full(5) key by (auto simp: tkey_Cons unat_nibble)
  then have "unat x < 17 \<and> slot_insert_ok db x (cs ! unat x) s v (trie_insert db opts f (cs ! unat x) (prefix @ [x]) s (ValueNode v) ms)"
  proof cases
    case t
    then show ?thesis using insert_value_slot [OF full(2,6) f(2)] by simp
  next
    case n
    have "enough (cs ! unat x) s f" using full(7) f key by (auto simp: enough_def)
    then have "insert_ok db (cs ! unat x) s v (trie_insert db opts f (cs ! unat x) (prefix @ [x]) s (ValueNode v) ms)"
      using full(4) [OF n(1)] insert_nil_ok [OF n(2) full(6) f(2)] n(2) full(6) by auto
    then show ?thesis using insert_slot n(1) by auto
  qed
  then show ?case using insert_full_ok [OF wf] key f(1) by blast
next
  case (ref h n)
  then obtain f where f: "fuel = Suc f" by (cases fuel) (auto simp: enough_def)
  have n: "insert_ok db n key v (trie_insert db opts f n prefix key (ValueNode v) ms)"
    using ref f by (auto simp: enough_def)
  moreover have same: "holds db (HashNode h) = holds db n" "is_branch db (HashNode h) = is_branch db n"
    using ref(1-3) by (auto simp: fun_eq_iff) (cases n; auto)+
  moreover have "insert_ok db n key v (changed (trie_insert db opts f n prefix key (ValueNode v) ms) n (\<lambda>nn ms'. (Inr (True, nn), ms')))"
    using n by (rule insert_ok_changed) (use ref(3) n in auto)
  moreover have "trie_insert db opts fuel (HashNode h) prefix key (ValueNode v) ms =
      changed (trie_insert db opts f n prefix key (ValueNode v) ms) n (\<lambda>nn ms'. (Inr (True, nn), ms'))"
    using f ref(1,5) resolveHash_deref by auto
  ultimately show ?case using insert_ok_same [OF same] by simp
qed

end
