(* ===== verification/Trie_Delete.thy ===== *)
theory Trie_Delete
  imports Trie_Map
begin

text \<open>
  Deletion from the trie keeps it canonical and removes exactly the key; the trie as a map over the calls
  \<open>TryGet\<close>, \<open>TryUpdate\<close> and \<open>TryDelete\<close>; canonical tries are determined by their contents.
\<close>

section \<open>Deletion\<close>

definition delete_ok :: "nodeDB \<Rightarrow> node \<Rightarrow> bytes \<Rightarrow> update \<Rightarrow> bool" where
  "delete_ok db n k r \<longleftrightarrow>
     (\<exists>d n' ms. r = (Inr (d, n'), ms) \<and> (\<not> d \<longrightarrow> (\<forall>w. \<not> holds db n k w)) \<and>
       (\<forall>k' w. holds db n' k' w \<longleftrightarrow> k' \<noteq> k \<and> holds db n k' w) \<and>
       (n' = NilNode \<or> wf_trie db n') \<and> (d \<longrightarrow> \<not> is_hash n'))"

lemma delete_okI:
  assumes "\<And>k' w. holds db n' k' w \<longleftrightarrow> k' \<noteq> k \<and> holds db n k' w" "n' = NilNode \<or> wf_trie db n'" "\<not> is_hash n'"
  shows "delete_ok db n k (Inr (True, n'), ms)"
  unfolding delete_ok_def using assms by blast

lemma delete_ok_same: "holds db m = holds db n \<Longrightarrow> delete_ok db n k r \<Longrightarrow> delete_ok db m k r"
  unfolding delete_ok_def by simp

lemma delete_ok_changed:
  assumes "delete_ok db c s r" and old: "wf_trie db n"
    and in_n: "\<And>w. holds db n k w \<Longrightarrow> holds db c s w"
    and new: "\<And>nn ms. r = (Inr (True, nn), ms) \<Longrightarrow> delete_ok db n k (f nn ms)"
  shows "delete_ok db n k (changed r n f)"
proof -
  obtain d n' ms where r: "r = (Inr (d, n'), ms)" "\<not> d \<longrightarrow> (\<forall>w. \<not> holds db c s w)" using assms(1) by (auto simp: delete_ok_def)
  show ?thesis
  proof (cases d)
    case True
    then show ?thesis using r new by (simp add: changed_def)
  next
    case False
    then have none: "\<not> holds db n k w" for w using r(2) in_n by blast
    have "changed r n f = (Inr (False, n), ms)" using False r(1) by (simp add: changed_def)
    moreover have "holds db n k' w \<longleftrightarrow> k' \<noteq> k \<and> holds db n k' w" for k' w using none by blast
    ultimately show ?thesis unfolding delete_ok_def using none old by blast
  qed
qed

lemma wf_not_nil: "wf_trie db n \<Longrightarrow> n \<noteq> NilNode"
  by auto

text \<open>A branch that loses a key is not empty.\<close>

lemma branch_not_emptied:
  assumes "wf_trie db c" "is_branch db c" "\<And>k' w. holds db n' k' w \<longleftrightarrow> k' \<noteq> k \<and> holds db c k' w"
  shows "n' \<noteq> NilNode"
proof -
  obtain x s v y t w where "x \<noteq> y" "holds db c (x # s) v" "holds db c (y # t) w" using branch_two_keys [OF assms(1,2)] by blast
  then have "holds db n' (x # s) v \<or> holds db n' (y # t) w" using assms(3) by auto
  then show ?thesis by auto
qed

lemma merge_short:
  assumes "nibbles k" "k \<noteq> []" "wf_trie db c" "\<not> is_hash c"
  shows "wf_trie db (case c of ShortNode k' val' _ \<Rightarrow> ShortNode (k @ k') val' newFlag | _ \<Rightarrow> ShortNode k c newFlag)"
    and "holds db (case c of ShortNode k' val' _ \<Rightarrow> ShortNode (k @ k') val' newFlag | _ \<Rightarrow> ShortNode k c newFlag) k1 w \<longleftrightarrow>
      (\<exists>s. k1 = k @ s \<and> holds db c s w)"
proof -
  show "wf_trie db (case c of ShortNode k' val' _ \<Rightarrow> ShortNode (k @ k') val' newFlag | _ \<Rightarrow> ShortNode k c newFlag)"
  proof (cases c)
    case (ShortNode k' val' fl)
    with assms(3) have "wf_trie db (ShortNode k' val' fl)" by simp
    then show ?thesis
    proof (cases rule: wf_shortE)
      case (leaf ns v)
      then have "wf_trie db (ShortNode ((k @ ns) @ [16]) (ValueNode v) newFlag)" using assms(1) by (intro wf_trie.leaf) auto
      then show ?thesis using leaf ShortNode by simp
    next
      case ext
      then show ?thesis using assms(1,2) ShortNode by (auto intro: wf_trie.ext)
    qed
  next
    case (FullNode cs fl)
    then show ?thesis using assms wf_trie.ext [of k db c newFlag] by simp
  qed (use assms in auto)
qed (cases c; auto)

lemma delete_ext_ok:
  assumes wf: "wf_trie db (ShortNode k c fl)" "is_branch db c" "wf_trie db c" and key: "tkey key"
    and sub: "\<And>s prefix' ms'. key = k @ s \<Longrightarrow> delete_ok db c s (trie_delete db opts fuel c prefix' s ms')"
  shows "delete_ok db (ShortNode k c fl) key (trie_delete db opts (Suc fuel) (ShortNode k c fl) prefix key ms)"
proof (cases key k rule: prefixLen_cases)
  case (whole t)
  have k: "nibbles k" "k \<noteq> []" using wf by (auto elim: wf_shortE)
  have "t \<noteq> []" using key k(1) whole(1) by (auto simp: tkey_def)
  let ?f = "\<lambda>child ms'. (Inr (True, case child of ShortNode k' val' _ \<Rightarrow> ShortNode (k @ k') val' newFlag
        | _ \<Rightarrow> ShortNode k child newFlag), markPrunableNode opts (ShortNode k c fl) ms')"
  have "trie_delete db opts (Suc fuel) (ShortNode k c fl) prefix key ms =
      changed (trie_delete db opts fuel c (prefix @ k) t ms) (ShortNode k c fl) ?f"
    using whole \<open>t \<noteq> []\<close> by (simp add: Let_def)
  moreover have "delete_ok db (ShortNode k c fl) key (changed (trie_delete db opts fuel c (prefix @ k) t ms) (ShortNode k c fl) ?f)"
  proof (rule delete_ok_changed [OF sub [OF whole(1)] wf(1)])
    fix nn ms'
    assume "trie_delete db opts fuel c (prefix @ k) t ms = (Inr (True, nn), ms')"
    with sub [OF whole(1), of "prefix @ k" ms] have nn: "nn = NilNode \<or> wf_trie db nn" "\<not> is_hash nn"
      "\<And>k' w. holds db nn k' w \<longleftrightarrow> k' \<noteq> t \<and> holds db c k' w"
      by (auto simp: delete_ok_def)
    then have "wf_trie db nn" using branch_not_emptied [OF wf(3,2)] by blast
    note m = merge_short [OF k this nn(2)]
    have "holds db (case nn of ShortNode k' val' _ \<Rightarrow> ShortNode (k @ k') val' newFlag | _ \<Rightarrow> ShortNode k nn newFlag) k' w \<longleftrightarrow>
        k' \<noteq> key \<and> holds db (ShortNode k c fl) k' w" for k' w
      unfolding m(2) nn(3) whole(1) by auto
    then show "delete_ok db (ShortNode k c fl) key (?f nn ms')"
      by (rule delete_okI) (use m(1) in \<open>auto split: node.splits\<close>)
  qed (use whole in auto)
  ultimately show ?thesis by simp
next
  case (branch p x s y t)
  then show ?thesis using wf(1) by (auto simp: delete_ok_def)
next
  case shorter
  then show ?thesis using short_key_not_longer wf(1) key by blast
qed

lemma delete_leaf_ok:
  assumes "nibbles ns" "v \<noteq> []" "tkey key"
  shows "delete_ok db (ShortNode (ns @ [16]) (ValueNode v) fl) key (trie_delete db opts (Suc fuel) (ShortNode (ns @ [16]) (ValueNode v) fl) prefix key ms)"
proof (cases key "ns @ [16]" rule: prefixLen_cases)
  case (whole t)
  then have "t = []" using assms by (auto simp: tkey_append tkey_Cons)
  then show ?thesis using whole by (auto simp: delete_ok_def Let_def)
next
  case (branch p x s y t)
  then show ?thesis using wf_trie.leaf [OF assms(1,2)] by (auto simp: delete_ok_def)
next
  case shorter
  then show ?thesis using short_key_not_longer wf_trie.leaf [OF assms(1,2)] assms(3) by metis
qed

lemma remaining_child_neg: "p < 0 \<Longrightarrow> p \<noteq> -1 \<Longrightarrow> remaining_child p i cs = p \<or> remaining_child p i cs = -2"
  by (induction cs arbitrary: i) auto

lemma remaining_child_found:
  "0 \<le> p \<Longrightarrow> remaining_child p i cs = (if \<forall>c \<in> set cs. c = NilNode then p else -2)"
  by (induction cs arbitrary: i) auto

lemma remaining_child_spec:
  "remaining_child (-1) i cs =
     (case filter (\<lambda>j. cs ! j \<noteq> NilNode) [0..<length cs] of [] \<Rightarrow> -1 | [j] \<Rightarrow> int (i + j) | _ \<Rightarrow> -2)"
proof (induction cs arbitrary: i)
  case (Cons c cs)
  have idx: "[0..<Suc (length cs)] = 0 # map Suc [0..<length cs]"
    by (simp add: upt_conv_Cons map_Suc_upt del: upt_Suc)
  have f: "filter (\<lambda>j. (b # cs) ! j \<noteq> NilNode) (map Suc xs) = map Suc (filter (\<lambda>j. cs ! j \<noteq> NilNode) xs)" for b xs
    by (induction xs) auto
  show ?case
  proof (cases "c = NilNode")
    case True
    then show ?thesis using Cons [of "Suc i"] by (simp add: idx f del: upt_Suc split: list.splits)
  next
    case False
    have "(\<forall>c \<in> set cs. c = NilNode) \<longleftrightarrow> filter (\<lambda>j. cs ! j \<noteq> NilNode) [0..<length cs] = []"
      by (auto simp: filter_empty_conv set_conv_nth)
    then show ?thesis
      using False remaining_child_found [of "int i" "Suc i" cs] by (simp add: idx f del: upt_Suc split: list.splits)
  qed
qed simp

lemma remaining_child_cases:
  assumes "length cs = 17"
  obtains (none) "remaining_child (-1) 0 cs = -1" "\<And>i. i < 17 \<Longrightarrow> cs ! i = NilNode"
  | (one) i where "remaining_child (-1) 0 cs = int i" "i < 17" "cs ! i \<noteq> NilNode" "\<And>j. j < 17 \<Longrightarrow> j \<noteq> i \<Longrightarrow> cs ! j = NilNode"
  | (more) "remaining_child (-1) 0 cs = -2" "crowded cs"
proof -
  let ?l = "filter (\<lambda>j. cs ! j \<noteq> NilNode) [0..<length cs]"
  note spec = remaining_child_spec [of 0 cs]
  have mem: "j \<in> set ?l \<longleftrightarrow> j < 17 \<and> cs ! j \<noteq> NilNode" for j using assms by auto
  consider "?l = []" | i where "?l = [i]" | i j l where "?l = i # j # l" by (cases ?l rule: remdups_adj.cases) auto
  then show thesis
  proof cases
    case 1
    then show thesis using spec mem by (intro none) auto
  next
    case (2 i)
    then have "set ?l = {i}" by simp
    then have "j < 17 \<and> cs ! j \<noteq> NilNode \<longleftrightarrow> j = i" for j using mem by auto
    then show thesis using spec 2 by (intro one) auto
  next
    case (3 i j l)
    moreover have "distinct ?l" by simp
    ultimately have "i \<noteq> j" "i \<in> set ?l" "j \<in> set ?l" by auto
    then have "crowded cs" using mem assms unfolding crowded_def by auto
    then show thesis using spec 3 by (intro more) auto
  qed
qed

text \<open>What is left of a full node after one of its slots has been replaced.\<close>

definition slots_wf :: "nodeDB \<Rightarrow> node list \<Rightarrow> bool" where
  "slots_wf db cs \<longleftrightarrow> length cs = 17 \<and> (\<forall>i < 16. cs ! i = NilNode \<or> wf_trie db (cs ! i)) \<and> value_slot (cs ! 16)"

lemma resolve_wf:
  assumes "wf_trie db c"
  shows "\<exists>r. trie_resolve db c prefix = Inr r \<and> wf_trie db r \<and> \<not> is_hash r \<and> holds db r = holds db c \<and> is_branch db r = is_branch db c"
proof (cases c)
  case (HashNode h)
  then obtain n where n: "deref db h = Some n" "\<not> is_hash n" "wf_trie db n" using assms by auto
  have "is_branch db n = is_branch db (HashNode h)" using n(1,2) by (cases n) auto
  moreover have "holds db n = holds db (HashNode h)" using n(1) by (simp add: fun_eq_iff)
  ultimately show ?thesis using n HashNode resolveHash_deref by (auto simp: trie_resolve_def)
qed (use assms in \<open>auto simp: trie_resolve_def\<close>)

lemma single_child_ok:
  assumes "slots_wf db cs" "i < 16" "cs ! i \<noteq> NilNode"
  shows "\<exists>n'. rbind (trie_resolve db (cs ! i) prefix)
            (\<lambda>cnode. case cnode of
               ShortNode k val _ \<Rightarrow> Inr (ShortNode (of_nat i # k) val newFlag)
             | _ \<Rightarrow> Inr (ShortNode [of_nat i] (cs ! i) newFlag)) = Inr n' \<and>
         wf_trie db n' \<and> \<not> is_hash n' \<and> (\<forall>k w. holds db n' k w \<longleftrightarrow> (\<exists>s. k = of_nat i # s \<and> holds db (cs ! i) s w))"
proof -
  have c: "wf_trie db (cs ! i)" using assms by (auto simp: slots_wf_def)
  have nib: "nibbles [of_nat i :: u8]" using assms(2) by (simp add: word_less_nat_alt unat_of_nat)
  obtain r where r: "trie_resolve db (cs ! i) prefix = Inr r" "wf_trie db r" "\<not> is_hash r"
    "holds db r = holds db (cs ! i)" "is_branch db r = is_branch db (cs ! i)"
    using resolve_wf [OF c] by blast
  show ?thesis
  proof (cases r)
    case (ShortNode k val fl)
    then show ?thesis
      using merge_short [OF nib _ r(2,3)] r(1,4) by (auto simp: fun_eq_iff)
  next
    case (FullNode ds fl)
    then have "wf_trie db (ShortNode [of_nat i] (cs ! i) newFlag)" using c nib r(5) by (auto intro: wf_trie.ext)
    then show ?thesis using FullNode r(1) by auto
  qed (use r in auto)
qed

lemma reduce_full_ok:
  assumes "slots_wf db cs" "\<exists>i < 17. cs ! i \<noteq> NilNode"
  shows "\<exists>n'. reduce_full db prefix cs = Inr n' \<and> wf_trie db n' \<and> \<not> is_hash n' \<and> holds db n' = holds db (FullNode cs fl)"
proof -
  have len: "length cs = 17" using assms(1) by (simp add: slots_wf_def)
  from len show ?thesis
  proof (cases rule: remaining_child_cases)
    case none
    then show ?thesis using assms(2) by blast
  next
    case (one i)
    have u: "unat (of_nat i :: u8) = i" using one(2) by (simp add: unat_of_nat)
    have only: "holds db (FullNode cs fl) k w \<longleftrightarrow> (\<exists>s. k = of_nat i # s \<and> holds db (cs ! i) s w)" for k w
    proof -
      have "unat x < 17 \<and> holds db (cs ! unat x) s w \<longleftrightarrow> x = of_nat i \<and> holds db (cs ! i) s w" for x :: u8 and s
        using one(2-4) u by (cases "unat x = i") (auto simp: word_unat_eq_iff)
      then show ?thesis by auto
    qed
    show ?thesis
    proof (cases "i = 16")
      case True
      then obtain v where v: "cs ! 16 = ValueNode v" "v \<noteq> []" using assms(1) one(3) by (auto simp: slots_wf_def value_slot_def)
      then have "wf_trie db (ShortNode [16] (ValueNode v) newFlag)" using wf_trie.leaf [of "[]" v db newFlag] by simp
      moreover have "holds db (ShortNode [16] (ValueNode v) newFlag) = holds db (FullNode cs fl)"
        using only v True by (auto simp: fun_eq_iff)
      ultimately show ?thesis using one(1) True v by (simp add: reduce_full_def Let_def)
    next
      case False
      then have "i < 16" using one(2) by simp
      then show ?thesis
        using single_child_ok [OF assms(1) _ one(3), of prefix] one(1) False only
        by (auto simp: reduce_full_def Let_def fun_eq_iff)
    qed
  next
    case more
    then have "wf_trie db (FullNode cs newFlag)" using assms(1) by (auto simp: slots_wf_def)
    then show ?thesis using more(1) by (auto simp: reduce_full_def Let_def fun_eq_iff)
  qed
qed

definition slot_delete_ok :: "nodeDB \<Rightarrow> u8 \<Rightarrow> node \<Rightarrow> bytes \<Rightarrow> update \<Rightarrow> bool" where
  "slot_delete_ok db x c s r \<longleftrightarrow>
     (\<exists>d c' ms. r = (Inr (d, c'), ms) \<and> (\<not> d \<longrightarrow> (\<forall>w. \<not> holds db c s w)) \<and>
        (c' = NilNode \<or> slot_ok db x c') \<and> (\<forall>k' w. holds db c' k' w \<longleftrightarrow> k' \<noteq> s \<and> holds db c k' w))"

lemma delete_value_slot:
  "value_slot c \<Longrightarrow> 0 < fuel \<Longrightarrow> slot_delete_ok db 16 c [] (trie_delete db opts fuel c prefix [] ms)"
  by (cases fuel) (auto simp: value_slot_def slot_delete_ok_def)

lemma delete_slot:
  assumes "delete_ok db c s r" "unat x < 16"
  shows "slot_delete_ok db x c s r"
proof -
  have "x \<noteq> 16" "unat x < 17" using assms(2) unat_term [of x] by auto
  then show ?thesis using assms(1) wf_not_nil unfolding delete_ok_def slot_delete_ok_def slot_ok_def by metis
qed

lemma slots_update:
  assumes "wf_trie db (FullNode cs fl)" "c = NilNode \<or> slot_ok db x c" "unat x < 17"
  shows "slots_wf db (cs[unat x := c])" "\<exists>i < 17. cs[unat x := c] ! i \<noteq> NilNode"
    "holds db (FullNode (cs[unat x := c]) fl') k w \<longleftrightarrow>
      (\<exists>y s. k = y # s \<and> unat y < 17 \<and> (if y = x then holds db c s w else holds db (cs ! unat y) s w))"
proof -
  have len: "length cs = 17" using assms(1) by simp
  have nth: "cs[unat x := c] ! i = (if i = unat x then c else cs ! i)" if "i < 17" for i
    using that len by (simp add: nth_list_update)
  have "cs[unat x := c] ! i = NilNode \<or> wf_trie db (cs[unat x := c] ! i)" if "i < 16" for i
    using nth [of i] that assms unat_term [of x] by (auto simp: slot_ok_def)
  moreover have "value_slot (cs[unat x := c] ! 16)"
    using nth [of 16] assms unat_term [of x] by (auto simp: slot_ok_def value_slot_def)
  ultimately show "slots_wf db (cs[unat x := c])" using len by (simp add: slots_wf_def)
  obtain i j where "i < 17" "j < 17" "i \<noteq> j" "cs ! i \<noteq> NilNode" "cs ! j \<noteq> NilNode"
    using assms(1) by (auto simp: crowded_def)
  then obtain i where "i < 17" "i \<noteq> unat x" "cs ! i \<noteq> NilNode" by metis
  then show "\<exists>i < 17. cs[unat x := c] ! i \<noteq> NilNode" using nth by (intro exI [of _ i]) auto
  have "holds db (cs[unat x := c] ! unat y) s w = (if y = x then holds db c s w else holds db (cs ! unat y) s w)" if "unat y < 17" for y s
    using nth [OF that] by (simp add: word_unat_eq_iff)
  then show "holds db (FullNode (cs[unat x := c]) fl') k w \<longleftrightarrow>
      (\<exists>y s. k = y # s \<and> unat y < 17 \<and> (if y = x then holds db c s w else holds db (cs ! unat y) s w))"
    unfolding holds_simps by blast
qed

lemma delete_full_ok:
  assumes wf: "wf_trie db (FullNode cs fl)" and x: "unat x < 17"
    and sub: "slot_delete_ok db x (cs ! unat x) s (trie_delete db opts fuel (cs ! unat x) (prefix @ [x]) s ms)"
  shows "delete_ok db (FullNode cs fl) (x # s) (trie_delete db opts (Suc fuel) (FullNode cs fl) prefix (x # s) ms)"
proof -
  obtain d c ms' where c: "trie_delete db opts fuel (cs ! unat x) (prefix @ [x]) s ms = (Inr (d, c), ms')"
    "\<not> d \<longrightarrow> (\<forall>w. \<not> holds db (cs ! unat x) s w)" "c = NilNode \<or> slot_ok db x c"
    "\<And>k' w. holds db c k' w \<longleftrightarrow> k' \<noteq> s \<and> holds db (cs ! unat x) k' w"
    using sub by (auto simp: slot_delete_ok_def)
  show ?thesis
  proof (cases d)
    case True
    note new = slots_update [OF wf c(3) x]
    obtain n' where n': "reduce_full db prefix (cs[unat x := c]) = Inr n'" "wf_trie db n'" "\<not> is_hash n'"
      "holds db n' = holds db (FullNode (cs[unat x := c]) fl)"
      using reduce_full_ok [OF new(1,2)] by blast
    have "trie_delete db opts (Suc fuel) (FullNode cs fl) prefix (x # s) ms =
        (Inr (True, n'), markPrunableNode opts (FullNode cs fl) ms')"
      using c(1) x True n'(1) by (simp add: child_at_def changed_def)
    moreover have "holds db n' k' w \<longleftrightarrow> k' \<noteq> x # s \<and> holds db (FullNode cs fl) k' w" for k' w
      unfolding n'(4) new(3) c(4) by auto
    ultimately show ?thesis using delete_okI n'(2,3) by metis
  next
    case False
    then have "trie_delete db opts (Suc fuel) (FullNode cs fl) prefix (x # s) ms = (Inr (False, FullNode cs fl), ms')"
      using c(1) x by (simp add: child_at_def changed_def)
    moreover have none: "\<not> holds db (FullNode cs fl) (x # s) w" for w using c(2) False by simp
    moreover have "holds db (FullNode cs fl) k' w \<longleftrightarrow> k' \<noteq> x # s \<and> holds db (FullNode cs fl) k' w" for k' w
      using none by blast
    ultimately show ?thesis using wf unfolding delete_ok_def by blast
  qed
qed

lemma trie_delete_ok:
  assumes "wf_trie db n" "tkey key" "enough n key fuel"
  shows "delete_ok db n key (trie_delete db opts fuel n prefix key ms)"
  using assms
proof (induction arbitrary: key prefix ms fuel rule: wf_trie.induct)
  case (leaf ns u fl)
  then obtain f where "fuel = Suc f" by (cases fuel) (auto simp: enough_def)
  then show ?case using delete_leaf_ok leaf(1-3) by blast
next
  case (ext ns c fl)
  then obtain f where f: "fuel = Suc f" by (cases fuel) (auto simp: enough_def)
  have "delete_ok db c s (trie_delete db opts f c prefix' s ms')" if "key = ns @ s" for s prefix' ms'
    using ext(5) [of s f] ext(1,2,6,7) that f by (cases ns) (auto simp: enough_def tkey_append tkey_Cons)
  then show ?case using delete_ext_ok wf_trie.ext [OF ext(1-4)] ext(3,4,6) f by blast
next
  case (full cs fl)
  then have wf: "wf_trie db (FullNode cs fl)" by auto
  obtain f where f: "fuel = Suc f" "0 < f" using full(5,6) by (cases fuel; cases key) (auto simp: enough_def)
  obtain x s where key: "key = x # s" using full(5) by (cases key) auto
  consider (t) "x = 16" "s = []" | (n) "unat x < 16" "tkey s" using full(5) key by (auto simp: tkey_Cons unat_nibble)
  then have "unat x < 17 \<and> slot_delete_ok db x (cs ! unat x) s (trie_delete db opts f (cs ! unat x) (prefix @ [x]) s ms)"
  proof cases
    case t
    then show ?thesis using delete_value_slot [OF full(2) f(2)] by simp
  next
    case n
    have "enough (cs ! unat x) s f" using full(6) f key by (auto simp: enough_def)
    moreover have "delete_ok db NilNode s (trie_delete db opts f NilNode (prefix @ [x]) s ms)"
      using f(2) by (cases f) (auto simp: delete_ok_def)
    ultimately have "delete_ok db (cs ! unat x) s (trie_delete db opts f (cs ! unat x) (prefix @ [x]) s ms)"
      using full(4) [OF n(1)] n(2) by metis
    then show ?thesis using delete_slot n(1) by auto
  qed
  then show ?case using delete_full_ok [OF wf] key f(1) by blast
next
  case (ref h n)
  then obtain f where f: "fuel = Suc f" by (cases fuel) (auto simp: enough_def)
  have n: "delete_ok db n key (trie_delete db opts f n prefix key ms)"
    using ref f by (auto simp: enough_def)
  have same: "holds db (HashNode h) = holds db n" using ref(1) by (simp add: fun_eq_iff)
  moreover have "delete_ok db n key (changed (trie_delete db opts f n prefix key ms) n (\<lambda>nn ms'. (Inr (True, nn), ms')))"
    using n by (rule delete_ok_changed) (use ref(3) n in auto)
  moreover have "trie_delete db opts fuel (HashNode h) prefix key ms =
      changed (trie_delete db opts f n prefix key ms) n (\<lambda>nn ms'. (Inr (True, nn), ms'))"
    using f ref(1) resolveHash_deref by auto
  ultimately show ?case using delete_ok_same [OF same] by simp
qed

section \<open>The trie as a map\<close>

definition trie_inv :: "nodeDB \<Rightarrow> Trie \<Rightarrow> bool" where
  "trie_inv db t \<longleftrightarrow> tr_root t = NilNode \<or> wf_trie db (tr_root t)"

definition has_value :: "nodeDB \<Rightarrow> Trie \<Rightarrow> bytes \<Rightarrow> bytes \<Rightarrow> bool" where
  "has_value db t key v \<longleftrightarrow> holds db (tr_root t) (keybytesToHex key) v"

lemma keybytesToHex_inj: "keybytesToHex a = keybytesToHex b \<longleftrightarrow> a = b"
  by (metis keybytes_round_trip option.inject)

lemma enough_key_fuel: "enough n k (key_fuel k)"
  by (simp add: enough_def key_fuel_def)

lemma TryGet_ok:
  assumes "trie_inv db t"
  shows "\<exists>v t'. TryGet db key t = (Inr v, t') \<and> (\<forall>w. v = Some w \<longleftrightarrow> has_value db t key w) \<and>
    trie_inv db t' \<and> has_value db t' = has_value db t"
proof (cases "tr_root t = NilNode")
  case True
  then show ?thesis using assms by (auto simp: TryGet_def Let_def key_fuel_def has_value_def numeral_eq_Suc)
next
  case False
  let ?k = "keybytesToHex key"
  have "get_ok db (tr_root t) ?k (tryGet db (key_fuel ?k) (tr_root t) ?k 0)"
    using tryGet_ok [of db "tr_root t" 0 ?k] assms False tkey_keybytes enough_key_fuel by (simp add: trie_inv_def)
  then obtain v n' d where r: "tryGet db (key_fuel ?k) (tr_root t) ?k 0 = Inr (v, n', d)"
    "\<forall>w. v = Some w \<longleftrightarrow> holds db (tr_root t) ?k w" "d \<longrightarrow> loaded db (tr_root t) n'"
    unfolding get_ok_def by blast
  let ?t = "if d then t\<lparr> tr_root := n' \<rparr> else t"
  have "TryGet db key t = (Inr v, ?t)" using r(1) by (simp add: TryGet_def Let_def)
  moreover have "trie_inv db ?t" "has_value db ?t = has_value db t"
    using r(3) assms by (auto simp: trie_inv_def loaded_def has_value_def fun_eq_iff)
  ultimately show ?thesis using r(2) by (auto simp: has_value_def)
qed

lemma insert_root_ok:
  assumes "trie_inv db t" "v \<noteq> []" "tkey k"
  shows "insert_ok db (tr_root t) k v (trie_insert db opts (key_fuel k) (tr_root t) [] k (ValueNode v) ms)"
  using assms trie_insert_ok [OF _ assms(3,2) enough_key_fuel] insert_nil_ok [OF assms(3,2), of "key_fuel k"]
  by (auto simp: trie_inv_def key_fuel_def)

lemma delete_root_ok:
  assumes "trie_inv db t" "tkey k"
  shows "delete_ok db (tr_root t) k (trie_delete db opts (key_fuel k) (tr_root t) [] k ms)"
proof (cases "tr_root t = NilNode")
  case True
  then show ?thesis by (auto simp: delete_ok_def key_fuel_def numeral_eq_Suc)
next
  case False
  then show ?thesis using assms trie_delete_ok [OF _ assms(2) enough_key_fuel] by (auto simp: trie_inv_def)
qed

lemma TryDelete_ok:
  assumes "trie_inv db t"
  shows "\<exists>t'. TryDelete db key t = (Inr (), t') \<and> trie_inv db t' \<and>
    (\<forall>k w. has_value db t' k w \<longleftrightarrow> k \<noteq> key \<and> has_value db t k w)"
proof -
  let ?k = "keybytesToHex key"
  obtain d n' ms where r: "trie_delete db (tr_opts t) (key_fuel ?k) (tr_root t) [] ?k (tr_pruningMarksCache t) = (Inr (d, n'), ms)"
    "\<forall>k' w. holds db n' k' w \<longleftrightarrow> k' \<noteq> ?k \<and> holds db (tr_root t) k' w" "n' = NilNode \<or> wf_trie db n'"
    using delete_root_ok [OF assms tkey_keybytes] unfolding delete_ok_def by blast
  then show ?thesis by (auto simp: TryDelete_def Let_def set_root_def trie_inv_def has_value_def keybytesToHex_inj)
qed

lemma TryUpdate_ok:
  assumes "trie_inv db t"
  shows "\<exists>t'. TryUpdate db key v t = (Inr (), t') \<and> trie_inv db t' \<and>
    (\<forall>k w. has_value db t' k w \<longleftrightarrow> (if k = key then w = v \<and> v \<noteq> [] else has_value db t k w))"
proof (cases "v = []")
  case True
  then show ?thesis
    using TryDelete_ok [OF assms, of key] by (auto simp: TryUpdate_def TryUpdateWithHexKey_def TryDelete_def Let_def)
next
  case False
  let ?k = "keybytesToHex key"
  obtain d n' ms where r: "trie_insert db (tr_opts t) (key_fuel ?k) (tr_root t) [] ?k (ValueNode v) (tr_pruningMarksCache t) = (Inr (d, n'), ms)"
    "\<forall>k' w. holds db n' k' w \<longleftrightarrow> (if k' = ?k then w = v else holds db (tr_root t) k' w)" "wf_trie db n'"
    using insert_root_ok [OF assms False tkey_keybytes] unfolding insert_ok_def by blast
  then show ?thesis
    using False by (auto simp: TryUpdate_def TryUpdateWithHexKey_def set_root_def trie_inv_def has_value_def keybytesToHex_inj)
qed

text \<open>The contract the state database relies on, and what follows from it.\<close>

locale key_value_store =
  fixes inv :: "'s \<Rightarrow> bool"
    and get :: "'s \<Rightarrow> bytes \<Rightarrow> bytes option"
    and put :: "bytes \<Rightarrow> bytes \<Rightarrow> 's \<Rightarrow> 's"
  assumes write_inv: "inv s \<Longrightarrow> inv (put k v s)"
    and read_write: "inv s \<Longrightarrow> get (put k v s) k' = (if k' = k then if v = [] then None else Some v else get s k')"
begin

definition writes :: "(bytes \<times> bytes) list \<Rightarrow> 's \<Rightarrow> 's" where
  "writes kvs s = fold (\<lambda>(k, v). put k v) kvs s"

lemma writes_inv: "inv s \<Longrightarrow> inv (writes kvs s)"
  unfolding writes_def by (induction kvs arbitrary: s) (auto simp: write_inv)

lemma read_writes:
  "inv s \<Longrightarrow> get (writes kvs s) k =
     (case map_of (rev kvs) k of None \<Rightarrow> get s k | Some v \<Rightarrow> if v = [] then None else Some v)"
proof (induction kvs rule: rev_induct)
  case (snoc kv kvs)
  then show ?case
    using writes_inv [OF snoc(2), of kvs] by (cases kv) (auto simp: writes_def read_write)
qed (simp add: writes_def)

end

definition trie_read :: "nodeDB \<Rightarrow> Trie \<Rightarrow> bytes \<Rightarrow> bytes option" where
  "trie_read db t key = (case fst (TryGet db key t) of Inl _ \<Rightarrow> None | Inr v \<Rightarrow> v)"

definition trie_write :: "nodeDB \<Rightarrow> bytes \<Rightarrow> bytes \<Rightarrow> Trie \<Rightarrow> Trie" where
  "trie_write db key v t = snd (TryUpdate db key v t)"

lemma trie_read_iff:
  assumes "trie_inv db t"
  shows "trie_read db t key = Some w \<longleftrightarrow> has_value db t key w"
proof -
  obtain v t' where "TryGet db key t = (Inr v, t')" "\<forall>w. v = Some w \<longleftrightarrow> has_value db t key w"
    using TryGet_ok [OF assms, of key] by blast
  then show ?thesis by (simp add: trie_read_def)
qed

lemma trie_write_spec:
  assumes "trie_inv db t"
  shows "trie_inv db (trie_write db k v t)"
    "trie_read db (trie_write db k v t) k' = (if k' = k then if v = [] then None else Some v else trie_read db t k')"
proof -
  obtain t' where t': "TryUpdate db k v t = (Inr (), t')" "trie_inv db t'"
    "\<And>k' w. has_value db t' k' w \<longleftrightarrow> (if k' = k then w = v \<and> v \<noteq> [] else has_value db t k' w)"
    using TryUpdate_ok [OF assms, of k v] by auto
  then show "trie_inv db (trie_write db k v t)" by (simp add: trie_write_def)
  have "trie_read db t' k' = Some w \<longleftrightarrow> (if k' = k then if v = [] then None else Some v else trie_read db t k') = Some w" for w
    unfolding trie_read_iff [OF t'(2)] t'(3) using trie_read_iff [OF assms] by auto
  then show "trie_read db (trie_write db k v t) k' = (if k' = k then if v = [] then None else Some v else trie_read db t k')"
    using t'(1) by (metis not_None_eq trie_write_def snd_conv)
qed

interpretation trie_store: key_value_store "trie_inv db" "trie_read db" "trie_write db" for db
  by unfold_locales (simp_all add: trie_write_spec)

text \<open>C3: On a canonical trie, loaded or not, every sequence of updates succeeds and leaves a canonical trie in which a
  lookup finds the last value written for its key, nothing when that value was empty, and otherwise the value from before.\<close>

theorem trie_updates:
  assumes "trie_inv db t"
  shows "trie_inv db (fold (\<lambda>(k, v). trie_write db k v) kvs t) \<and>
    (\<exists>t'. TryGet db key (fold (\<lambda>(k, v). trie_write db k v) kvs t) =
       (Inr (case map_of (rev kvs) key of
               None \<Rightarrow> trie_read db t key
             | Some v \<Rightarrow> if v = [] then None else Some v), t'))"
proof -
  let ?t = "fold (\<lambda>(k, v). trie_write db k v) kvs t"
  have t: "?t = trie_store.writes db kvs t" by (simp add: trie_store.writes_def)
  have inv: "trie_inv db ?t" unfolding t by (rule trie_store.writes_inv [OF assms])
  obtain v t' where g: "TryGet db key ?t = (Inr v, t')" using TryGet_ok [OF inv] by blast
  then have "v = trie_read db ?t key" by (simp add: trie_read_def)
  then show ?thesis using inv g trie_store.read_writes [OF assms, of kvs key] unfolding t by simp
qed

text \<open>A trie whose root is a leaf that is only referenced.\<close>

definition leaf_db :: nodeDB where
  "leaf_db h = (if h = replicate 39 1 then Some (ShortNode [1, 2, 16] (ValueNode [9]) \<lparr> nf_hash = Some h, nf_dirty = False \<rparr>) else None)"

definition leaf_trie :: Trie where
  "leaf_trie = \<lparr> tr_opts = \<lparr> to_pruning = True, to_PruningBlockNumber = 5 \<rparr>, tr_root = HashNode (replicate 39 1),
     tr_originalRoot = replicate 39 1, tr_storage = False, tr_pruningMarksCache = Map.empty \<rparr>"

lemma leaf_trie_inv: "trie_inv leaf_db leaf_trie"
proof -
  have "wf_trie leaf_db (ShortNode ([1, 2] @ [16]) (ValueNode [9]) fl)" for fl
    by (rule wf_trie.leaf) (simp_all add: word_less_nat_alt)
  then show ?thesis
    by (auto simp: trie_inv_def leaf_trie_def deref_def BytesToExtHash_def HashLength_def ExtHashLength_def leaf_db_def
        simp del: replicate.simps)
qed

theorem trie_updates_witness:
  "trie_inv leaf_db leaf_trie \<and>
   (\<exists>t'. TryGet leaf_db [0x34] (fold (\<lambda>(k, v). trie_write leaf_db k v) [([0x34], [8]), ([0x12], [])] leaf_trie) = (Inr (Some [8]), t'))"
  using trie_updates [OF leaf_trie_inv, of "[([0x34], [8]), ([0x12], [])]" "[0x34]"] leaf_trie_inv by simp

section \<open>Contents determine the trie\<close>

text \<open>The same tree, up to what is loaded and to the flags.\<close>

inductive same_trie :: "nodeDB \<Rightarrow> nodeDB \<Rightarrow> node \<Rightarrow> node \<Rightarrow> bool" for db db' where
  nil: "same_trie db db' NilNode NilNode"
| val: "same_trie db db' (ValueNode v) (ValueNode v)"
| short: "same_trie db db' c d \<Longrightarrow> same_trie db db' (ShortNode k c fl) (ShortNode k d fl')"
| full: "length cs = 17 \<Longrightarrow> length ds = 17 \<Longrightarrow> (\<And>i. i < 17 \<Longrightarrow> same_trie db db' (cs ! i) (ds ! i)) \<Longrightarrow>
    same_trie db db' (FullNode cs fl) (FullNode ds fl')"
| refl: "deref db h = Some n \<Longrightarrow> same_trie db db' n m \<Longrightarrow> same_trie db db' (HashNode h) m"
| refr: "deref db' h = Some m \<Longrightarrow> same_trie db db' n m \<Longrightarrow> same_trie db db' n (HashNode h)"

lemma same_trie_loaded:
  assumes "wf_trie db' m" "holds db n = holds db' m"
    and "\<And>m'. wf_trie db' m' \<Longrightarrow> \<not> is_hash m' \<Longrightarrow> holds db n = holds db' m' \<Longrightarrow> same_trie db db' n m'"
  shows "same_trie db db' n m"
proof (cases m)
  case (HashNode h)
  then obtain m' where m': "deref db' h = Some m'" "\<not> is_hash m'" "wf_trie db' m'" using assms(1) by auto
  then have "holds db' m' = holds db' m" using HashNode by (simp add: fun_eq_iff)
  then have "same_trie db db' n m'" using assms(2,3) m'(2,3) by simp
  then show ?thesis using HashNode m'(1) same_trie.refr by blast
qed (use assms in auto)

lemma branch_keys_differ:
  assumes "wf_trie db c" "is_branch db c" "\<And>k v. holds db c k v \<Longrightarrow> \<exists>s. k = p @ s"
  shows "p = []"
proof (cases p)
  case (Cons z zs)
  obtain x s v y t w where xy: "x \<noteq> y" "holds db c (x # s) v" "holds db c (y # t) w"
    using branch_two_keys [OF assms(1,2)] by blast
  then show ?thesis using assms(3) [OF xy(2)] assms(3) [OF xy(3)] Cons by auto
qed

lemma prefix_of_branch:
  assumes "wf_trie db c" "is_branch db c" "\<And>k v. holds db c k v \<Longrightarrow> \<exists>s. ns @ k = q @ s"
  shows "\<exists>r. ns = q @ r"
proof -
  obtain x s v y t w where xy: "x \<noteq> y" "holds db c (x # s) v" "holds db c (y # t) w"
    using branch_two_keys [OF assms(1,2)] by blast
  obtain s' t' where e: "ns @ x # s = q @ s'" "ns @ y # t = q @ t'" using assms(3) xy by blast
  then consider r where "ns = q @ r" | r where "q = ns @ r" "r \<noteq> []"
    by (metis append.right_neutral append_eq_append_conv2)
  then show ?thesis
  proof cases
    case 2
    then obtain z zs where "r = z # zs" by (cases r) auto
    then show ?thesis using e 2(1) xy(1) by auto
  qed blast
qed

text \<open>The three shapes have different contents.\<close>

lemma leaf_not_branch:
  assumes "wf_trie db c" "is_branch db c" "\<And>k v. holds db c k v \<Longrightarrow> f k = (k0 :: bytes)" "inj f"
  shows False
proof -
  obtain x s v y t w where "x \<noteq> y" "holds db c (x # s) v" "holds db c (y # t) w"
    using branch_two_keys [OF assms(1,2)] by blast
  then show False using assms(3,4) by (metis injD list.inject)
qed

lemma children_same_contents:
  assumes "holds db (FullNode cs fl) = holds db' (FullNode ds fl')" "i < 17"
  shows "holds db (cs ! i) = holds db' (ds ! i)"
proof -
  have u: "unat (of_nat i :: u8) = i" using assms(2) by (simp add: unat_of_nat)
  have "holds db (cs ! i) s v = holds db' (ds ! i) s v" for s v
  proof -
    have "holds db (FullNode cs fl) (of_nat i # s) v = holds db' (FullNode ds fl') (of_nat i # s) v" using assms(1) by simp
    then show ?thesis using u assms(2) by simp
  qed
  then show ?thesis by blast
qed

lemma same_slots:
  assumes "value_slot c" "value_slot d" "holds db c = holds db' d"
  shows "same_trie db db' c d"
proof -
  have "\<forall>v. holds db c [] v \<longleftrightarrow> holds db' d [] v" using assms(3) by simp
  then have "c = d" using assms(1,2) by (auto simp: value_slot_def)
  then show ?thesis using assms(1) by (auto simp: value_slot_def intro: same_trie.nil same_trie.val)
qed

lemma holds_nothing: "wf_trie db n \<Longrightarrow> holds db n = holds db' m \<Longrightarrow> m \<noteq> NilNode"
  using wf_nonempty [of db n] by auto

lemma canonical_leaf:
  assumes "nibbles ns" "v \<noteq> []" "wf_trie db' m" "\<not> is_hash m" "holds db (ShortNode (ns @ [16]) (ValueNode v) fl) = holds db' m"
  shows "same_trie db db' (ShortNode (ns @ [16]) (ValueNode v) fl) m"
proof -
  have m: "holds db' m k w \<longleftrightarrow> k = ns @ [16] \<and> w = v" for k w using assms(5) [symmetric] by simp
  show ?thesis
  proof (cases m)
    case (ShortNode k c fl')
    with assms(3) have "wf_trie db' (ShortNode k c fl')" by simp
    then show ?thesis
    proof (cases rule: wf_shortE)
      case (leaf ns' v')
      then have "k = ns @ [16]" "v' = v" using m [of k v'] ShortNode by auto
      then show ?thesis using ShortNode leaf by (auto intro: same_trie.short same_trie.val)
    next
      case ext
      have "k @ s = ns @ [16]" if "holds db' c s w" for s w using m that ShortNode by auto
      then show ?thesis using leaf_not_branch [OF ext(4,3), of "append k"] by (auto simp: inj_def)
    qed
  next
    case (FullNode cs fl')
    then show ?thesis using leaf_not_branch [OF assms(3), of id] m by (auto simp del: wf_trie_simps)
  qed (use assms in auto)
qed

lemma canonical_ext:
  assumes n: "nibbles ns" "ns \<noteq> []" "is_branch db c" "wf_trie db c" and m: "wf_trie db' m" "\<not> is_hash m"
    and eq: "holds db (ShortNode ns c fl) = holds db' m"
    and sub: "\<And>d. wf_trie db' d \<Longrightarrow> holds db c = holds db' d \<Longrightarrow> same_trie db db' c d"
  shows "same_trie db db' (ShortNode ns c fl) m"
proof -
  have km: "holds db' m k w \<longleftrightarrow> (\<exists>s. k = ns @ s \<and> holds db c s w)" for k w using eq [symmetric] by simp
  show ?thesis
  proof (cases m)
    case (ShortNode k d fl')
    with m(1) have "wf_trie db' (ShortNode k d fl')" by simp
    then show ?thesis
    proof (cases rule: wf_shortE)
      case (leaf ns' v')
      have "ns @ s = ns' @ [16]" if "holds db c s w" for s w using km [of "ns @ s" w] that ShortNode leaf by auto
      then show ?thesis using leaf_not_branch [OF n(4,3), of "append ns"] by (auto simp: inj_def)
    next
      case ext
      have both: "(\<exists>s. k1 = k @ s \<and> holds db' d s w) \<longleftrightarrow> (\<exists>s. k1 = ns @ s \<and> holds db c s w)" for k1 w
        using km ShortNode by simp
      have "\<exists>s. ns @ k1 = k @ s" if "holds db c k1 v" for k1 v using both [of "ns @ k1" v] that by blast
      then have "\<exists>r. ns = k @ r" by (rule prefix_of_branch [OF n(4,3)])
      moreover have "\<exists>s. k @ k1 = ns @ s" if "holds db' d k1 v" for k1 v using both [of "k @ k1" v] that by blast
      then have "\<exists>r. k = ns @ r" by (rule prefix_of_branch [OF ext(4,3)])
      ultimately have k: "k = ns" by auto
      have "holds db c s w = holds db' d s w" for s w using km [of "ns @ s" w] ShortNode k by auto
      then have "same_trie db db' c d" using sub ext(4) by blast
      then show ?thesis using ShortNode k by (auto intro: same_trie.short)
    qed
  next
    case (FullNode cs fl')
    then have "ns = []" using branch_keys_differ [OF m(1), of ns] km by auto
    then show ?thesis using n(2) by simp
  qed (use m in auto)
qed

lemma canonical_full:
  assumes n: "wf_trie db (FullNode cs fl)" and m: "wf_trie db' m" "\<not> is_hash m"
    and eq: "holds db (FullNode cs fl) = holds db' m"
    and sub: "\<And>i d. i < 16 \<Longrightarrow> wf_trie db (cs ! i) \<Longrightarrow> wf_trie db' d \<Longrightarrow> holds db (cs ! i) = holds db' d \<Longrightarrow> same_trie db db' (cs ! i) d"
  shows "same_trie db db' (FullNode cs fl) m"
proof (cases m)
  case (ShortNode k d fl')
  have km: "holds db (FullNode cs fl) s w \<longleftrightarrow> holds db' (ShortNode k d fl') s w" for s w using eq ShortNode by simp
  from m(1) ShortNode have "wf_trie db' (ShortNode k d fl')" by simp
  then show ?thesis
  proof (cases rule: wf_shortE)
    case (leaf ns' v')
    then have "s = ns' @ [16]" if "holds db (FullNode cs fl) s w" for s w using km that by (simp del: holds_simps(4))
    then show ?thesis using leaf_not_branch [OF n, of id] by (auto simp del: holds_simps wf_trie_simps)
  next
    case ext
    have "k = []" using branch_keys_differ [OF n, of k] km by (auto simp del: holds_simps(4) wf_trie_simps)
    then show ?thesis using ext(2) by simp
  qed
next
  case (FullNode ds fl')
  note child = children_same_contents [OF eq [unfolded FullNode]]
  have "same_trie db db' (cs ! i) (ds ! i)" if i: "i < 17" for i
  proof (cases "i = 16")
    case True
    then show ?thesis using same_slots [OF _ _ child [OF i]] n m(1) FullNode by auto
  next
    case False
    then have i16: "i < 16" using i by simp
    have cd: "cs ! i = NilNode \<or> wf_trie db (cs ! i)" "ds ! i = NilNode \<or> wf_trie db' (ds ! i)"
      using n m(1) FullNode i16 by auto
    show ?thesis
    proof (cases "cs ! i = NilNode")
      case True
      then have "ds ! i = NilNode" using cd(2) holds_nothing child [OF i] by metis
      then show ?thesis using True same_trie.nil by simp
    next
      case nn: False
      then have "wf_trie db' (ds ! i)" using cd holds_nothing child [OF i] by metis
      then show ?thesis using sub [OF i16] cd(1) nn child [OF i] by blast
    qed
  qed
  then show ?thesis using n m(1) FullNode by (auto intro!: same_trie.full)
qed (use m in auto)

lemma canonical_trie:
  assumes "wf_trie db n" "wf_trie db' m" "holds db n = holds db' m"
  shows "same_trie db db' n m"
  using assms
proof (induction arbitrary: m rule: wf_trie.induct)
  case (leaf ns v fl)
  show ?case by (rule same_trie_loaded [OF leaf(3,4)]) (use canonical_leaf leaf(1,2) in blast)
next
  case (ext ns c fl)
  show ?case by (rule same_trie_loaded [OF ext(6,7)]) (use canonical_ext [OF ext(1-4)] ext(5) in blast)
next
  case (full cs fl)
  then have wf: "wf_trie db (FullNode cs fl)" by auto
  have "same_trie db db' (cs ! i) d" if "i < 16" "wf_trie db (cs ! i)" "wf_trie db' d" "holds db (cs ! i) = holds db' d" for i d
    using full(4) [OF that(1)] that by auto
  then show ?case by (intro same_trie_loaded [OF full(5,6)] canonical_full [OF wf]) blast+
next
  case (ref h n)
  have "holds db (HashNode h) = holds db n" using ref(1) by (simp add: fun_eq_iff)
  then have "same_trie db db' n m" using ref by metis
  then show ?case using ref(1) same_trie.refl by blast
qed

text \<open>All keys are whole bytes.\<close>

definition byte_keys :: "nodeDB \<Rightarrow> Trie \<Rightarrow> bool" where
  "byte_keys db t \<longleftrightarrow> (\<forall>k v. holds db (tr_root t) k v \<longrightarrow> (\<exists>key. k = keybytesToHex key))"

lemma trie_write_byte_keys:
  assumes "trie_inv db t" "byte_keys db t"
  shows "byte_keys db (trie_write db key v t)"
proof (cases "v = []")
  case True
  let ?k = "keybytesToHex key"
  obtain d n' ms where r: "trie_delete db (tr_opts t) (key_fuel ?k) (tr_root t) [] ?k (tr_pruningMarksCache t) = (Inr (d, n'), ms)"
    "\<forall>k' w. holds db n' k' w \<longleftrightarrow> k' \<noteq> ?k \<and> holds db (tr_root t) k' w"
    using delete_root_ok [OF assms(1) tkey_keybytes] unfolding delete_ok_def by blast
  have "byte_keys db (t\<lparr> tr_root := n' \<rparr>)" unfolding byte_keys_def using r(2) assms(2) by (auto simp: byte_keys_def)
  then show ?thesis
    using True r(1) by (simp add: trie_write_def TryUpdate_def TryUpdateWithHexKey_def set_root_def byte_keys_def)
next
  case False
  let ?k = "keybytesToHex key"
  obtain d n' ms where r: "trie_insert db (tr_opts t) (key_fuel ?k) (tr_root t) [] ?k (ValueNode v) (tr_pruningMarksCache t) = (Inr (d, n'), ms)"
    "\<forall>k' w. holds db n' k' w \<longleftrightarrow> (if k' = ?k then w = v else holds db (tr_root t) k' w)"
    using insert_root_ok [OF assms(1) False tkey_keybytes] unfolding insert_ok_def by blast
  have "byte_keys db (t\<lparr> tr_root := n' \<rparr>)" unfolding byte_keys_def using r(2) assms(2) by (auto simp: byte_keys_def)
  then show ?thesis
    using False r(1) by (simp add: trie_write_def TryUpdate_def TryUpdateWithHexKey_def set_root_def byte_keys_def)
qed

lemma writes_byte_keys:
  "trie_inv db t \<Longrightarrow> byte_keys db t \<Longrightarrow> byte_keys db (fold (\<lambda>(k, v). trie_write db k v) kvs t)"
  by (induction kvs arbitrary: t) (auto simp: trie_write_byte_keys trie_write_spec)

lemma same_reads_same_trie:
  assumes "trie_inv db t" "byte_keys db t" "trie_inv db' t'" "byte_keys db' t'"
    "\<And>key. trie_read db t key = trie_read db' t' key"
  shows "same_trie db db' (tr_root t) (tr_root t')"
proof -
  have "holds db (tr_root t) k v \<longleftrightarrow> holds db' (tr_root t') k v" for k v
    using trie_read_iff [OF assms(1)] trie_read_iff [OF assms(3)] assms(2,4,5)
    unfolding byte_keys_def has_value_def by metis
  then have eq: "holds db (tr_root t) = holds db' (tr_root t')" by (simp add: fun_eq_iff)
  show ?thesis
  proof (cases "tr_root t = NilNode")
    case True
    then have "tr_root t' = NilNode" using assms(3) eq holds_nothing [of db' "tr_root t'" db NilNode] by (auto simp: trie_inv_def)
    then show ?thesis using True by (simp add: same_trie.nil)
  next
    case False
    then have "wf_trie db (tr_root t)" "tr_root t' \<noteq> NilNode"
      using assms(1) eq holds_nothing [of db "tr_root t" db' "tr_root t'"] by (auto simp: trie_inv_def)
    then show ?thesis using assms(3) canonical_trie eq by (auto simp: trie_inv_def)
  qed
qed

definition final_value :: "(bytes \<times> bytes) list \<Rightarrow> bytes \<Rightarrow> bytes option" where
  "final_value kvs key = (case map_of (rev kvs) key of None \<Rightarrow> None | Some v \<Rightarrow> if v = [] then None else Some v)"

text \<open>C5: Two sequences of updates and deletions of an empty trie that leave the same value for every key build the same
  tree, whatever was inserted and removed on the way, in whatever order.\<close>

theorem trie_history_independent:
  assumes "\<forall>key. final_value kvs key = final_value kvs' key"
    and "newTrie db emptyRoot (replicate 39 0) pruning block storage = Inr t"
    and "newTrie db' emptyRoot' (replicate 39 0) pruning' block' storage' = Inr t'"
  shows "same_trie db db' (tr_root (fold (\<lambda>(k, v). trie_write db k v) kvs t)) (tr_root (fold (\<lambda>(k, v). trie_write db' k v) kvs' t'))"
proof -
  have root: "tr_root t = NilNode" "tr_root t' = NilNode"
    using assms(2,3) by (auto simp: newTrie_def Let_def EmptyExtHash_def Unextend_def HashLength_def split: if_splits)
  then have inv: "trie_inv db t" "trie_inv db' t'" "byte_keys db t" "byte_keys db' t'"
    by (simp_all add: trie_inv_def byte_keys_def)
  have none: "trie_read db t key = None" "trie_read db' t' key = None" for key
    using trie_read_iff [OF inv(1), of key] trie_read_iff [OF inv(2), of key] root
    by (auto simp: has_value_def)
  have reads: "trie_read db (fold (\<lambda>(k, v). trie_write db k v) kvs t) key = final_value kvs key"
    "trie_read db' (fold (\<lambda>(k, v). trie_write db' k v) kvs' t') key = final_value kvs' key" for key
    using trie_store.read_writes [OF inv(1), of kvs key] trie_store.read_writes [OF inv(2), of kvs' key] none
    by (simp_all add: trie_store.writes_def final_value_def split: option.splits)
  show ?thesis
    using trie_store.writes_inv [OF inv(1), of kvs] trie_store.writes_inv [OF inv(2), of kvs'] reads assms(1)
    by (intro same_reads_same_trie writes_byte_keys inv) (simp_all add: trie_store.writes_def)
qed

text \<open>Witness: a value that is inserted and deleted again leaves no trace.\<close>

theorem trie_history_independent_witness:
  "\<exists>t t'. newTrie leaf_db [] (replicate 39 0) False 0 False = Inr t \<and> newTrie Map.empty [] (replicate 39 0) True 7 False = Inr t' \<and>
     same_trie leaf_db Map.empty
       (tr_root (fold (\<lambda>(k, v). trie_write leaf_db k v) [([1], [5]), ([2], [6]), ([1], [])] t))
       (tr_root (fold (\<lambda>(k, v). trie_write Map.empty k v) [([2], [6])] t'))"
proof -
  have "final_value [([1], [5]), ([2], [6]), ([1], [])] key = final_value [([2], [6])] key" for key
    by (simp add: final_value_def)
  moreover obtain t where "newTrie leaf_db [] (replicate 39 0) False 0 False = Inr t"
    by (simp add: newTrie_def Let_def EmptyExtHash_def Unextend_def HashLength_def)
  moreover obtain t' where "newTrie Map.empty [] (replicate 39 0) True 7 False = Inr t'"
    by (simp add: newTrie_def Let_def EmptyExtHash_def Unextend_def HashLength_def)
  ultimately show ?thesis using trie_history_independent by blast
qed

end
