(* ===== verification/RLP.thy ===== *)
theory RLP
  imports Klaytn_Prelude
begin

unbundle bit_operations_syntax

text \<open>
  Recursive length prefix encoding (\<open>rlp/encbuffer.go\<close>, the headers of \<open>rlp/encode.go\<close>, \<open>rlp/raw.go\<close>). The encoder keeps
  string data and list headers apart and joins them at the end; it is shown to produce the plain recursive encoding, and
  the splitting functions read that encoding back. Lengths are natural numbers, below \<open>2 ^ 64\<close> where they are encoded.
\<close>

section \<open>Headers\<close>

text \<open>The \<open>n\<close> low bytes of an integer, most significant first.\<close>

fun be_bytes :: "nat \<Rightarrow> u64 \<Rightarrow> bytes" where
  "be_bytes 0 i = []"
| "be_bytes (Suc n) i = be_bytes n (drop_bit 8 i) @ [ucast i]"

definition putint :: "u64 \<Rightarrow> bytes" where
  "putint i =
     (if i < push_bit 8 1 then be_bytes 1 i
      else if i < push_bit 16 1 then be_bytes 2 i
      else if i < push_bit 24 1 then be_bytes 3 i
      else if i < push_bit 32 1 then be_bytes 4 i
      else if i < push_bit 40 1 then be_bytes 5 i
      else if i < push_bit 48 1 then be_bytes 6 i
      else if i < push_bit 56 1 then be_bytes 7 i
      else be_bytes 8 i)"

function intsize_loop :: "nat \<Rightarrow> u64 \<Rightarrow> nat" where
  "intsize_loop sz i = (let i' = drop_bit 8 i in if i' = 0 then sz else intsize_loop (Suc sz) i')"
  by pat_completeness auto
termination
proof (relation "measure (\<lambda>(sz, i). unat i)")
  fix sz :: nat and i i' :: u64
  assume "i' = drop_bit 8 i" "i' \<noteq> 0"
  then show "((Suc sz, i'), sz, i) \<in> measure (\<lambda>(sz, i). unat i)"
    by (cases "i = 0") (auto simp: drop_bit_eq_div unat_div unat_gt_0 intro!: div_less_dividend)
qed simp

definition intsize :: "u64 \<Rightarrow> nat" where
  "intsize i = intsize_loop 1 i"

definition headsize :: "nat \<Rightarrow> nat" where
  "headsize sz = (if sz < 56 then 1 else 1 + intsize (of_nat sz))"

definition puthead :: "u8 \<Rightarrow> u8 \<Rightarrow> nat \<Rightarrow> bytes" where
  "puthead smalltag largetag sz =
     (if sz < 56 then [smalltag + of_nat sz]
      else let s = putint (of_nat sz) in (largetag + of_nat (length s)) # s)"

section \<open>The encoder buffer\<close>

record encBuffer =
  eb_str :: bytes
  eb_lheads :: "(nat \<times> nat) list"
  eb_lhsize :: nat

definition eb_reset :: encBuffer where
  "eb_reset = \<lparr> eb_str = [], eb_lheads = [], eb_lhsize = 0 \<rparr>"

definition eb_size :: "encBuffer \<Rightarrow> nat" where
  "eb_size buf = length (eb_str buf) + eb_lhsize buf"

definition listhead_encode :: "nat \<Rightarrow> bytes" where
  "listhead_encode sz = puthead 0xC0 0xF7 sz"

fun copyTo :: "nat \<Rightarrow> (nat \<times> nat) list \<Rightarrow> bytes \<Rightarrow> bytes" where
  "copyTo strpos [] str = drop strpos str"
| "copyTo strpos ((offset, sz) # heads) str =
     take (offset - strpos) (drop strpos str) @ listhead_encode sz @ copyTo (strpos + (offset - strpos)) heads str"

definition makeBytes :: "encBuffer \<Rightarrow> bytes" where
  "makeBytes w = copyTo 0 (eb_lheads w) (eb_str w)"

definition eb_Write :: "bytes \<Rightarrow> encBuffer \<Rightarrow> encBuffer" where
  "eb_Write b buf = buf\<lparr> eb_str := eb_str buf @ b \<rparr>"

definition writeUint64 :: "u64 \<Rightarrow> encBuffer \<Rightarrow> encBuffer" where
  "writeUint64 i buf =
     (if i = 0 then eb_Write [0x80] buf
      else if i < 128 then eb_Write [ucast i] buf
      else let s = putint i in eb_Write ((0x80 + of_nat (length s)) # s) buf)"

definition encodeStringHeader :: "nat \<Rightarrow> encBuffer \<Rightarrow> encBuffer" where
  "encodeStringHeader sz buf =
     (if sz < 56 then eb_Write [0x80 + of_nat sz] buf
      else let s = putint (of_nat sz) in eb_Write ((0xB7 + of_nat (length s)) # s) buf)"

definition writeBytes :: "bytes \<Rightarrow> encBuffer \<Rightarrow> encBuffer" where
  "writeBytes b buf =
     (if length b = 1 \<and> hd b \<le> 0x7F then eb_Write [hd b] buf
      else eb_Write b (encodeStringHeader (length b) buf))"

definition eb_list :: "encBuffer \<Rightarrow> nat \<times> encBuffer" where
  "eb_list buf =
     (length (eb_lheads buf), buf\<lparr> eb_lheads := eb_lheads buf @ [(length (eb_str buf), eb_lhsize buf)] \<rparr>)"

definition eb_listEnd :: "nat \<Rightarrow> encBuffer \<Rightarrow> encBuffer" where
  "eb_listEnd index buf =
     (let (offset, sz) = eb_lheads buf ! index;
          sz' = eb_size buf - offset - sz
      in buf\<lparr> eb_lheads := (eb_lheads buf)[index := (offset, sz')],
              eb_lhsize := eb_lhsize buf + (if sz' < 56 then 1 else 1 + intsize (of_nat sz')) \<rparr>)"

section \<open>Splitting\<close>

datatype Kind = Byte | String | List

datatype rlpError = ErrUnexpectedEOF | ErrCanonSize | ErrValueTooLarge | ErrExpectedString | ErrExpectedList | ErrCanonInt
  | errUintOverflow

definition be_value :: "bytes \<Rightarrow> u64" where
  "be_value bs = foldl (\<lambda>s b. push_bit 8 s OR ucast b) 0 bs"

definition readSize :: "bytes \<Rightarrow> nat \<Rightarrow> rlpError + u64" where
  "readSize b slen =
     (if slen > length b then Inl ErrUnexpectedEOF
      else let s = be_value (take slen b) in
           if s < 56 \<or> hd b = 0 then Inl ErrCanonSize else Inr s)"

text \<open>The kind, the sz of the tag and the sz of the content.\<close>

definition readKind :: "bytes \<Rightarrow> rlpError + (Kind \<times> nat \<times> u64)" where
  "readKind buf =
     (if buf = [] then Inl ErrUnexpectedEOF
      else
        let b = hd buf in
        rbind
          (if b < 0x80 then Inr (Byte, 0, 1)
           else if b < 0xB8 then
             if b = 0x81 \<and> length buf > 1 \<and> buf ! 1 < 128 then Inl ErrCanonSize
             else Inr (String, 1, ucast (b - 0x80))
           else if b < 0xC0 then
             rbind (readSize (tl buf) (unat (b - 0xB7))) (\<lambda>s. Inr (String, unat (b - 0xB7) + 1, s))
           else if b < 0xF8 then Inr (List, 1, ucast (b - 0xC0))
           else rbind (readSize (tl buf) (unat (b - 0xF7))) (\<lambda>s. Inr (List, unat (b - 0xF7) + 1, s)))
          (\<lambda>(k, tagsize, contentsize).
             if unat contentsize > length buf - tagsize then Inl ErrValueTooLarge
             else Inr (k, tagsize, contentsize)))"

definition rlp_Split :: "bytes \<Rightarrow> rlpError + (Kind \<times> bytes \<times> bytes)" where
  "rlp_Split b = rbind (readKind b) (\<lambda>(k, ts, cs). Inr (k, take (unat cs) (drop ts b), drop (ts + unat cs) b))"

definition SplitString :: "bytes \<Rightarrow> rlpError + (bytes \<times> bytes)" where
  "SplitString b = rbind (rlp_Split b)
     (\<lambda>(k, content, rest). if k = List then Inl ErrExpectedString else Inr (content, rest))"

definition SplitList :: "bytes \<Rightarrow> rlpError + (bytes \<times> bytes)" where
  "SplitList b = rbind (rlp_Split b)
     (\<lambda>(k, content, rest). if k \<noteq> List then Inl ErrExpectedList else Inr (content, rest))"

definition SplitUint64 :: "bytes \<Rightarrow> rlpError + (u64 \<times> bytes)" where
  "SplitUint64 b = rbind (SplitString b)
     (\<lambda>(content, rest).
        if content = [] then Inr (0, rest)
        else if length content = 1 then
          if hd content = 0 then Inl ErrCanonInt else Inr (ucast (hd content), rest)
        else if length content > 8 then Inl errUintOverflow
        else case readSize content (length content) of Inl _ \<Rightarrow> Inl ErrCanonInt | Inr x \<Rightarrow> Inr (x, rest))"

text \<open>Every value is at least one byte, so the length of the input bounds the number of rounds.\<close>

lemma readKind_progress:
  assumes "readKind buf = Inr (k, ts, cs)"
  shows "0 < ts + unat cs \<and> ts + unat cs \<le> length buf"
proof -
  have buf: "buf \<noteq> []" using assms by (auto simp: readKind_def)
  have rs: "unat x \<le> length (tl buf)" if "readSize (tl buf) (unat x) = Inr s" for x :: u8 and s
    using that by (auto simp: readSize_def split: if_splits)
  have "unat cs \<le> length buf - ts" "ts = 0 \<and> cs = 1 \<or> ts \<noteq> 0 \<and> ts \<le> length buf"
    using assms buf rs by (cases buf; auto simp: readKind_def Let_def rbind_eq_Inr split: if_splits)+
  then show ?thesis using buf by auto
qed

function CountValues_loop :: "nat \<Rightarrow> bytes \<Rightarrow> rlpError + nat" where
  "CountValues_loop i b =
     (if b = [] then Inr i
      else case readKind b of
        Inl e \<Rightarrow> Inl e
      | Inr (_, tagsize, sz) \<Rightarrow> CountValues_loop (Suc i) (drop (tagsize + unat sz) b))"
  by pat_completeness auto
termination
  by (relation "measure (\<lambda>(i, b). length b)") (auto dest: readKind_progress)

definition CountValues :: "bytes \<Rightarrow> rlpError + nat" where
  "CountValues b = CountValues_loop 0 b"

definition AppendUint64 :: "bytes \<Rightarrow> u64 \<Rightarrow> bytes" where
  "AppendUint64 b i =
     (if i = 0 then b @ [0x80]
      else if i < 128 then b @ [ucast i]
      else let s = putint i in b @ (0x80 + of_nat (length s)) # s)"

section \<open>Integers\<close>

declare intsize_loop.simps [simp del] CountValues_loop.simps [simp del]

definition byte_size :: "nat \<Rightarrow> nat" where
  "byte_size n =
     (if n < 2 ^ 8 then 1 else if n < 2 ^ 16 then 2 else if n < 2 ^ 24 then 3 else if n < 2 ^ 32 then 4
      else if n < 2 ^ 40 then 5 else if n < 2 ^ 48 then 6 else if n < 2 ^ 56 then 7 else 8)"

lemma less_push_bit: "k < 64 \<Longrightarrow> (i :: u64) < push_bit k 1 \<longleftrightarrow> unat i < 2 ^ k"
proof -
  assume k: "k < 64"
  have "push_bit k 1 = (of_nat (2 ^ k) :: u64)" by (simp add: push_bit_of_1)
  moreover have "(2 :: nat) ^ k mod 2 ^ 64 = 2 ^ k" using k by (intro mod_less power_strict_increasing) auto
  ultimately have "unat (push_bit k 1 :: u64) = 2 ^ k" by (simp only: unat_of_nat) simp
  then show ?thesis by (simp add: word_less_nat_alt)
qed

lemma putint_eq: "putint i = be_bytes (byte_size (unat i)) i"
  unfolding putint_def byte_size_def by (simp only: less_push_bit if_distrib [of "\<lambda>n. be_bytes n i"])

lemma byte_size_rec: "n < 2 ^ 64 \<Longrightarrow> byte_size n = (if n div 256 = 0 then 1 else Suc (byte_size (n div 256)))"
  unfolding byte_size_def by (simp add: div_less_iff_less_mult div_eq_0_iff)

lemma putint_rec: "putint i = (if drop_bit 8 i = 0 then [ucast i] else putint (drop_bit 8 i) @ [ucast i])"
proof -
  have d: "unat (drop_bit 8 i) = unat i div 256" by (simp add: drop_bit_eq_div unat_div)
  have z: "drop_bit 8 i = 0 \<longleftrightarrow> unat i div 256 = 0" using d by (metis unat_eq_zero)
  show ?thesis
    unfolding putint_eq z d using byte_size_rec [OF unat_u64_lt [of i]] by simp
qed

lemma drop_bit_8_induct [case_names small large]:
  assumes "\<And>i. drop_bit 8 i = 0 \<Longrightarrow> P i" "\<And>i. drop_bit 8 i \<noteq> 0 \<Longrightarrow> P (drop_bit 8 i) \<Longrightarrow> P i"
  shows "P (i :: u64)"
proof (induction i rule: measure_induct_rule [of unat])
  case (less i)
  show ?case
  proof (cases "drop_bit 8 i = 0")
    case False
    then have "i \<noteq> 0" by auto
    then have "unat i \<noteq> 0" by (simp add: unat_eq_zero)
    then have "unat (drop_bit 8 i) < unat i" by (simp add: drop_bit_eq_div unat_div)
    then show ?thesis using less assms(2) False by blast
  qed (rule assms(1))
qed

lemma intsize_putint: "intsize i = length (putint i)"
proof -
  have "intsize_loop n i + 1 = n + length (putint i)" for n
  proof (induction i arbitrary: n rule: drop_bit_8_induct)
    case (small i)
    then show ?case by (subst intsize_loop.simps, subst putint_rec) simp
  next
    case (large i)
    then show ?case by (subst intsize_loop.simps, subst putint_rec) (simp add: Let_def)
  qed
  from this [of 1] show ?thesis by (simp add: intsize_def)
qed

lemma length_putint: "0 < length (putint i) \<and> length (putint i) \<le> 8"
proof -
  have "length (be_bytes n i) = n" for n i by (induction n i rule: be_bytes.induct) auto
  then show ?thesis by (simp add: putint_eq byte_size_def)
qed

lemma be_value_snoc [simp]: "be_value (bs @ [b]) = push_bit 8 (be_value bs) OR ucast b"
  by (simp add: be_value_def)

lemma be_value_putint [simp]: "be_value (putint i) = i"
proof (induction i rule: drop_bit_8_induct)
  case (small i)
  have "\<not> bit i n" if "\<not> n < 8" for n
  proof -
    have "bit (drop_bit 8 i) (n - 8) \<longleftrightarrow> bit i n" using that by (simp add: bit_drop_bit_eq)
    then show ?thesis using small by simp
  qed
  then have "ucast (ucast i :: u8) = i" by (intro bit_word_eqI) (auto simp: bit_simps)
  then show ?case using small by (subst putint_rec) (simp add: be_value_def)
next
  case (large i)
  have "push_bit 8 (drop_bit 8 i) OR ucast (ucast i :: u8) = i"
    by (rule bit_word_eqI) (auto simp: bit_simps)
  then show ?case using large by (subst putint_rec) simp
qed

lemma hd_putint: "i \<noteq> 0 \<Longrightarrow> hd (putint i) \<noteq> 0"
proof (induction i rule: drop_bit_8_induct)
  case (small i)
  have "be_value (putint i) \<noteq> 0" using small(2) by simp
  then show ?case using small by (subst putint_rec) (auto simp: putint_rec [of i] be_value_def)
next
  case (large i)
  then show ?case using length_putint [of "drop_bit 8 i"] by (subst putint_rec) simp
qed

lemma readSize_putint: "i \<ge> 56 \<Longrightarrow> readSize (putint i @ rest) (length (putint i)) = Inr i"
proof -
  assume i: "56 \<le> i"
  then have "i \<noteq> 0" by (auto simp: word_le_nat_alt)
  then show ?thesis using i hd_putint [of i] length_putint [of i] by (auto simp: readSize_def Let_def)
qed

section \<open>The recursive encoding\<close>

datatype rlpItem = RStr bytes | RList "rlpItem list"

fun rlp_encode :: "rlpItem \<Rightarrow> bytes" where
  "rlp_encode (RStr b) = (if length b = 1 \<and> hd b \<le> 0x7F then b else puthead 0x80 0xB7 (length b) @ b)"
| "rlp_encode (RList xs) =
     (let payload = concat (map rlp_encode xs) in puthead 0xC0 0xF7 (length payload) @ payload)"

text \<open>How the writers use the buffer: a string is written at once, a list between \<open>list\<close> and \<open>listEnd\<close>.\<close>

fun write_item :: "rlpItem \<Rightarrow> encBuffer \<Rightarrow> encBuffer" where
  "write_item (RStr b) buf = writeBytes b buf"
| "write_item (RList xs) buf =
     (let (index, buf1) = eb_list buf in eb_listEnd index (fold write_item xs buf1))"

fun item_strs :: "rlpItem \<Rightarrow> bytes" where
  "item_strs (RStr b) = rlp_encode (RStr b)"
| "item_strs (RList xs) = concat (map item_strs xs)"

fun item_heads :: "rlpItem \<Rightarrow> nat" where
  "item_heads (RStr b) = 0"
| "item_heads (RList xs) = headsize (length (concat (map rlp_encode xs))) + sum_list (map item_heads xs)"

lemma length_puthead: "length (puthead a b n) = headsize n"
  by (simp add: puthead_def headsize_def intsize_putint Let_def)

lemma item_length: "length (rlp_encode it) = length (item_strs it) + item_heads it"
proof (induction it)
  case (RList xs)
  have "length (concat (map rlp_encode ys)) = length (concat (map item_strs ys)) + sum_list (map item_heads ys)"
    if "set ys \<subseteq> set xs" for ys
    using that RList by (induction ys) auto
  from this [of xs] show ?case by (simp add: length_puthead Let_def)
qed simp

lemma writeBytes_eq: "writeBytes b buf = eb_Write (rlp_encode (RStr b)) buf"
  by (cases b) (auto simp: writeBytes_def encodeStringHeader_def eb_Write_def puthead_def Let_def)

text \<open>Writing items appends their strings and their headers, and the headers end up where they belong.\<close>

definition heads_from :: "nat \<Rightarrow> (nat \<times> nat) list \<Rightarrow> bool" where
  "heads_from n hs \<longleftrightarrow> (\<forall>h \<in> set hs. n \<le> fst h)"

definition writes_items :: "rlpItem list \<Rightarrow> encBuffer \<Rightarrow> encBuffer \<Rightarrow> bool" where
  "writes_items xs buf buf' \<longleftrightarrow>
     eb_str buf' = eb_str buf @ concat (map item_strs xs) \<and>
     eb_lhsize buf' = eb_lhsize buf + sum_list (map item_heads xs) \<and>
     (\<exists>hs. eb_lheads buf' = eb_lheads buf @ hs \<and> heads_from (length (eb_str buf)) hs \<and>
       (\<forall>rest t. heads_from (length (eb_str buf')) rest \<longrightarrow>
          copyTo (length (eb_str buf)) (hs @ rest) (eb_str buf' @ t) =
          concat (map rlp_encode xs) @ copyTo (length (eb_str buf')) rest (eb_str buf' @ t)))"

lemma copyTo_string:
  assumes "heads_from (length s + length x) rest"
  shows "copyTo (length s) rest (s @ x @ t) = x @ copyTo (length s + length x) rest (s @ x @ t)"
proof (cases rest)
  case (Cons h hs)
  obtain off n where h: "h = (off, n)" by (cases h)
  then have "length s + length x \<le> off" using assms Cons by (simp add: heads_from_def)
  then obtain d where "off = length s + length x + d" using le_iff_add by blast
  then show ?thesis using Cons h by (simp add: add.assoc)
qed simp

lemma writes_items_append:
  assumes "writes_items xs buf buf1" "writes_items ys buf1 buf2"
  shows "writes_items (xs @ ys) buf buf2"
proof -
  obtain hs1 where 1: "eb_lheads buf1 = eb_lheads buf @ hs1" "heads_from (length (eb_str buf)) hs1"
    "\<And>rest t. heads_from (length (eb_str buf1)) rest \<Longrightarrow> copyTo (length (eb_str buf)) (hs1 @ rest) (eb_str buf1 @ t) =
      concat (map rlp_encode xs) @ copyTo (length (eb_str buf1)) rest (eb_str buf1 @ t)"
    using assms(1) by (auto simp: writes_items_def)
  obtain hs2 where 2: "eb_lheads buf2 = eb_lheads buf1 @ hs2" "heads_from (length (eb_str buf1)) hs2"
    "\<And>rest t. heads_from (length (eb_str buf2)) rest \<Longrightarrow> copyTo (length (eb_str buf1)) (hs2 @ rest) (eb_str buf2 @ t) =
      concat (map rlp_encode ys) @ copyTo (length (eb_str buf2)) rest (eb_str buf2 @ t)"
    using assms(2) by (auto simp: writes_items_def)
  have str: "eb_str buf2 = eb_str buf1 @ concat (map item_strs ys)" "length (eb_str buf) \<le> length (eb_str buf1)"
    using assms by (simp_all add: writes_items_def)
  have "copyTo (length (eb_str buf)) ((hs1 @ hs2) @ rest) (eb_str buf2 @ t) =
      concat (map rlp_encode (xs @ ys)) @ copyTo (length (eb_str buf2)) rest (eb_str buf2 @ t)"
    if "heads_from (length (eb_str buf2)) rest" for rest t
  proof -
    have "heads_from (length (eb_str buf1)) (hs2 @ rest)" using 2(2) that str by (auto simp: heads_from_def)
    then show ?thesis
      using 1(3) [of "hs2 @ rest" "concat (map item_strs ys) @ t"] 2(3) [OF that, of t] by (simp add: str)
  qed
  moreover have "heads_from (length (eb_str buf)) (hs1 @ hs2)" using 1(2) 2(2) str(2) by (auto simp: heads_from_def)
  ultimately show ?thesis
    using assms 1(1) 2(1) unfolding writes_items_def by (intro conjI exI [of _ "hs1 @ hs2"]) auto
qed

lemma writes_items_fold:
  assumes "\<And>x buf. x \<in> set xs \<Longrightarrow> writes_items [x] buf (write_item x buf)"
  shows "writes_items xs buf (fold write_item xs buf)"
  using assms
proof (induction xs arbitrary: buf)
  case Nil
  then show ?case by (auto simp: writes_items_def heads_from_def)
next
  case (Cons x xs)
  then have "writes_items xs (write_item x buf) (fold write_item xs (write_item x buf))" by auto
  moreover have "writes_items [x] buf (write_item x buf)" using Cons(2) by simp
  ultimately show ?case using writes_items_append [of "[x]" buf] by simp
qed

lemma write_item_ok: "writes_items [it] buf (write_item it buf)"
proof (induction it arbitrary: buf)
  case (RStr b)
  have "heads_from (length (eb_str buf)) []" by (simp add: heads_from_def)
  then show ?case
    using copyTo_string [of "eb_str buf" "rlp_encode (RStr b)"]
    unfolding writes_items_def write_item.simps writeBytes_eq eb_Write_def by (simp del: rlp_encode.simps)
next
  case (RList xs)
  let ?n = "length (concat (map rlp_encode xs))"
  define buf1 where "buf1 = snd (eb_list buf)"
  have buf1: "eb_list buf = (length (eb_lheads buf), buf1)" "eb_str buf1 = eb_str buf" "eb_lhsize buf1 = eb_lhsize buf"
    "eb_lheads buf1 = eb_lheads buf @ [(length (eb_str buf), eb_lhsize buf)]"
    by (simp_all add: eb_list_def buf1_def)
  define buf2 where "buf2 = fold write_item xs buf1"
  have w: "writes_items xs buf1 buf2" unfolding buf2_def by (rule writes_items_fold) (use RList in auto)
  then obtain hs where hs: "eb_lheads buf2 = eb_lheads buf1 @ hs" "heads_from (length (eb_str buf1)) hs"
    "\<And>rest t. heads_from (length (eb_str buf2)) rest \<Longrightarrow> copyTo (length (eb_str buf1)) (hs @ rest) (eb_str buf2 @ t) =
      concat (map rlp_encode xs) @ copyTo (length (eb_str buf2)) rest (eb_str buf2 @ t)"
    by (auto simp: writes_items_def)
  have len: "?n = length (concat (map item_strs xs)) + sum_list (map item_heads xs)"
    by (induction xs) (auto simp: item_length)
  have sz: "eb_size buf2 - length (eb_str buf) - eb_lhsize buf = ?n"
    using w buf1(2,3) len by (simp add: writes_items_def eb_size_def)
  have e: "write_item (RList xs) buf = buf2\<lparr> eb_lheads := eb_lheads buf @ (length (eb_str buf), ?n) # hs,
      eb_lhsize := eb_lhsize buf2 + headsize ?n \<rparr>"
    using buf1(1,4) hs(1) sz by (simp add: Let_def eb_listEnd_def buf2_def [symmetric] headsize_def)
  have "copyTo (length (eb_str buf)) (((length (eb_str buf), ?n) # hs) @ rest) (eb_str buf2 @ t) =
      rlp_encode (RList xs) @ copyTo (length (eb_str buf2)) rest (eb_str buf2 @ t)"
    if "heads_from (length (eb_str buf2)) rest" for rest t
    using hs(3) [OF that, of t] buf1(2) by (simp add: listhead_encode_def Let_def)
  moreover have "heads_from (length (eb_str buf)) ((length (eb_str buf), ?n) # hs)"
    using hs(2) buf1(2) by (auto simp: heads_from_def)
  ultimately show ?case
    using w buf1(2,3) unfolding e writes_items_def
    by (intro conjI exI [of _ "(length (eb_str buf), ?n) # hs"]) auto
qed

lemma makeBytes_write_item: "makeBytes (write_item it eb_reset) = rlp_encode it"
proof -
  obtain hs where "eb_lheads (write_item it eb_reset) = hs"
    "\<And>rest t. heads_from (length (eb_str (write_item it eb_reset))) rest \<Longrightarrow>
      copyTo 0 (hs @ rest) (eb_str (write_item it eb_reset) @ t) =
      rlp_encode it @ copyTo (length (eb_str (write_item it eb_reset))) rest (eb_str (write_item it eb_reset) @ t)"
    using write_item_ok [of it eb_reset] by (auto simp: writes_items_def eb_reset_def)
  from this(1) this(2) [of "[]" "[]"] show ?thesis by (simp add: makeBytes_def heads_from_def)
qed

section \<open>Reading back\<close>

definition small :: "bytes \<Rightarrow> bool" where
  "small b \<longleftrightarrow> length b < 2 ^ 64"

lemma readKind_puthead:
  assumes "small payload" "tag = 0x80 \<and> large = 0xB7 \<and> k = String \<and> \<not> (length payload = 1 \<and> hd payload \<le> 0x7F) \<or>
      tag = 0xC0 \<and> large = 0xF7 \<and> k = List"
  shows "readKind (puthead tag large (length payload) @ payload @ rest) =
    Inr (k, length (puthead tag large (length payload)), of_nat (length payload))"
proof (cases "length payload < 56")
  case True
  define n where "n = length payload"
  have n: "n < 56" "unat (of_nat n :: u8) = n" "unat (of_nat n :: u64) = n" using True by (simp_all add: n_def unat_of_nat)
  have tag80: "unat (0x80 + of_nat n :: u8) = 128 + n" "unat (0xC0 + of_nat n :: u8) = 192 + n"
    using n by (simp_all add: unat_word_ariths unat_of_nat)
  have untag: "(0x80 + of_nat n :: u8) - 0x80 = of_nat n" "(0xC0 + of_nat n :: u8) - 0xC0 = of_nat n" by simp_all
  have ext: "(ucast (of_nat n :: u8) :: u64) = of_nat n" using n by (simp add: word_unat_eq_iff unsigned_ucast_eq take_bit_eq_mod)
  have one: "\<not> (0x80 + of_nat n = (0x81 :: u8) \<and> length (payload @ rest) > 0 \<and> (payload @ rest) ! 0 < 128)"
    if "\<not> (length payload = 1 \<and> hd payload \<le> 0x7F)"
  proof
    assume a: "0x80 + of_nat n = (0x81 :: u8) \<and> length (payload @ rest) > 0 \<and> (payload @ rest) ! 0 < 128"
    then have "128 + n = 129" using tag80(1) by simp
    then obtain x where "payload = [x]" by (auto simp: n_def length_Suc_conv)
    then show False using that a by (auto simp: word_less_nat_alt word_le_nat_alt)
  qed
  have cmp: "(0x80 + of_nat n :: u8) < 0xB8" "\<not> (0x80 + of_nat n :: u8) < 0x80" "\<not> (0xC0 + of_nat n :: u8) < 0x80"
    "\<not> (0xC0 + of_nat n :: u8) < 0xB8" "\<not> (0xC0 + of_nat n :: u8) < 0xC0" "(0xC0 + of_nat n :: u8) < 0xF8"
    using n(1) tag80 by (simp_all add: word_less_nat_alt)
  have head: "puthead tag large (length payload) = [tag + of_nat n]" using True by (simp add: puthead_def n_def)
  have fits: "\<not> unat (of_nat n :: u64) > length ((tag + of_nat n) # payload @ rest) - 1" using n(3) by (simp add: n_def)
  from assms(2) show ?thesis
  proof (elim disjE conjE)
    assume t: "tag = 0x80" "k = String" "\<not> (length payload = 1 \<and> hd payload \<le> 0x7F)"
    then have "\<not> (tag + of_nat n = 0x81 \<and> length ((tag + of_nat n) # payload @ rest) > 1 \<and> ((tag + of_nat n) # payload @ rest) ! 1 < 128)"
      using one [OF t(3)] by simp
    then show ?thesis unfolding head readKind_def using t cmp untag ext fits by (simp add: n_def [symmetric] del: length_Cons)
  next
    assume t: "tag = 0xC0" "k = List"
    then show ?thesis unfolding head readKind_def using cmp untag ext fits by (simp add: n_def [symmetric] del: length_Cons)
  qed
next
  case False
  define n where "n = length payload"
  define s where "s = putint (of_nat n)"
  have n: "unat (of_nat n :: u64) = n" using assms(1) by (simp add: n_def small_def unat_of_nat)
  have ge: "56 \<le> (of_nat n :: u64)" using False n by (simp add: word_le_nat_alt n_def)
  have len: "0 < length s" "length s \<le> 8" using length_putint by (simp_all add: s_def)
  have u: "unat (0xB7 + of_nat (length s) :: u8) = 183 + length s" "unat (0xF7 + of_nat (length s) :: u8) = 247 + length s"
    "unat ((0xB7 + of_nat (length s) :: u8) - 0xB7) = length s" "unat ((0xF7 + of_nat (length s) :: u8) - 0xF7) = length s"
    using len by (simp_all add: unat_word_ariths unat_of_nat)
  have rs: "readSize (s @ payload @ rest) (length s) = Inr (of_nat n)" using readSize_putint [OF ge] by (simp add: s_def)
  have cmp: "\<not> (0xB7 + of_nat (length s) :: u8) < 0x80" "\<not> (0xB7 + of_nat (length s) :: u8) < 0xB8" "(0xB7 + of_nat (length s) :: u8) < 0xC0"
    "\<not> (0xF7 + of_nat (length s) :: u8) < 0x80" "\<not> (0xF7 + of_nat (length s) :: u8) < 0xB8"
    "\<not> (0xF7 + of_nat (length s) :: u8) < 0xC0" "\<not> (0xF7 + of_nat (length s) :: u8) < 0xF8"
    using len u(1,2) by (simp_all add: word_less_nat_alt)
  have head: "puthead tag large (length payload) = (large + of_nat (length s)) # s"
    using False by (simp add: puthead_def n_def s_def Let_def)
  have fits: "\<not> unat (of_nat n :: u64) > length ((large + of_nat (length s)) # s @ payload @ rest) - (length s + 1)"
    using n by (simp add: n_def)
  from assms(2) show ?thesis
  proof (elim disjE conjE)
    assume t: "large = 0xB7" "k = String"
    then show ?thesis
      unfolding head readKind_def using cmp u rs fits by (simp add: n_def [symmetric] del: length_Cons length_append)
  next
    assume t: "large = 0xF7" "k = List"
    then show ?thesis
      unfolding head readKind_def using cmp u rs fits by (simp add: n_def [symmetric] del: length_Cons length_append)
  qed
qed

lemma split_encode:
  assumes "small (rlp_encode it)"
  shows "rlp_Split (rlp_encode it @ rest) =
    Inr (case it of RStr b \<Rightarrow> if length b = 1 \<and> hd b \<le> 0x7F then (Byte, b, rest) else (String, b, rest)
         | RList xs \<Rightarrow> (List, concat (map rlp_encode xs), rest))"
proof -
  have u: "unat (of_nat (length b) :: u64) = length b" if "small b" for b :: bytes
    using that by (simp add: small_def unat_of_nat)
  show ?thesis
  proof (cases it)
    case (RStr b)
    show ?thesis
    proof (cases "length b = 1 \<and> hd b \<le> 0x7F")
      case True
      then obtain x where "b = [x]" "x < 0x80" by (cases b) (auto simp: word_less_nat_alt word_le_nat_alt)
      then show ?thesis using RStr by (auto simp: rlp_Split_def readKind_def Let_def word_le_nat_alt word_less_nat_alt)
    next
      case False
      have b: "small b" using assms RStr False by (auto simp: small_def)
      from readKind_puthead [OF b, of "0x80" "0xB7" String rest] False RStr show ?thesis
        by (auto simp: rlp_Split_def u [OF b])
    qed
  next
    case (RList xs)
    let ?p = "concat (map rlp_encode xs)"
    have p: "small ?p" using assms RList by (auto simp: small_def Let_def)
    from readKind_puthead [OF p, of "0xC0" "0xF7" List rest] RList show ?thesis
      by (auto simp: rlp_Split_def u [OF p] Let_def)
  qed
qed

lemma SplitString_encode: "small (rlp_encode (RStr b)) \<Longrightarrow> SplitString (rlp_encode (RStr b) @ rest) = Inr (b, rest)"
  unfolding SplitString_def by (subst split_encode) auto

lemma SplitList_encode:
  "small (rlp_encode (RList xs)) \<Longrightarrow> SplitList (rlp_encode (RList xs) @ rest) = Inr (concat (map rlp_encode xs), rest)"
  unfolding SplitList_def by (subst split_encode) auto

lemma small_append: "small (a @ b) \<Longrightarrow> small a \<and> small b"
  by (simp add: small_def)

lemma readKind_encode:
  assumes "small (rlp_encode it)"
  shows "\<exists>k ts cs. readKind (rlp_encode it @ rest) = Inr (k, ts, cs) \<and> drop (ts + unat cs) (rlp_encode it @ rest) = rest"
proof -
  have "\<exists>k c. rlp_Split (rlp_encode it @ rest) = Inr (k, c, rest)"
    using split_encode [OF assms, of rest] by (cases it) auto
  then show ?thesis by (auto simp: rlp_Split_def rbind_eq_Inr)
qed

lemma rlp_encode_nonempty: "rlp_encode it \<noteq> []"
  by (cases it) (auto simp: puthead_def Let_def)

lemma CountValues_encode:
  assumes "small (concat (map rlp_encode xs))"
  shows "CountValues (concat (map rlp_encode xs)) = Inr (length xs)"
proof -
  have "CountValues_loop i (concat (map rlp_encode xs)) = Inr (i + length xs)" for i
    using assms
  proof (induction xs arbitrary: i)
    case (Cons x xs)
    let ?b = "rlp_encode x @ concat (map rlp_encode xs)"
    obtain k ts cs where "readKind ?b = Inr (k, ts, cs)" "drop (ts + unat cs) ?b = concat (map rlp_encode xs)"
      using readKind_encode [of x "concat (map rlp_encode xs)"] Cons(2) by (auto simp: small_def)
    moreover have "CountValues_loop (Suc i) (concat (map rlp_encode xs)) = Inr (Suc i + length xs)"
      using Cons by (simp add: small_def)
    ultimately show ?case
      using rlp_encode_nonempty [of x] by (subst CountValues_loop.simps) (simp del: drop_append)
  qed (simp add: CountValues_loop.simps)
  then show ?thesis by (simp add: CountValues_def)
qed

lemma writeUint64_item: "writeUint64 i buf = writeBytes (if i = 0 then [] else putint i) buf"
proof -
  have lt: "putint i = [ucast i]" if "i < 256"
    using that by (subst putint_rec) (auto simp: drop_bit_eq_div word_less_nat_alt word_unat_eq_iff unat_div)
  consider "i = 0" | "i \<noteq> 0" "i < 128" | "i \<ge> 128" "i < 256" | "i \<ge> 256" by force
  then show ?thesis
  proof cases
    case 1
    then show ?thesis by (simp add: writeUint64_def writeBytes_def encodeStringHeader_def eb_Write_def)
  next
    case 2
    then have "i < 256" "ucast i \<le> (0x7F :: u8)"
      by (auto simp: word_less_nat_alt word_le_nat_alt unsigned_ucast_eq take_bit_eq_mod)
    then show ?thesis using lt 2 by (auto simp: writeUint64_def writeBytes_def)
  next
    case 3
    then have "\<not> ucast i \<le> (0x7F :: u8)" "i \<noteq> 0" "\<not> i < 128"
      by (auto simp: word_less_nat_alt word_le_nat_alt unsigned_ucast_eq take_bit_eq_mod)
    then show ?thesis using lt 3 by (auto simp: writeUint64_def writeBytes_def encodeStringHeader_def eb_Write_def)
  next
    case 4
    then have "drop_bit 8 i \<noteq> 0" "i \<noteq> 0" "\<not> i < 128"
      by (auto simp: word_less_nat_alt word_le_nat_alt drop_bit_eq_div word_unat_eq_iff unat_div div_eq_0_iff)
    moreover from this have "length (putint i) > 1"
      using length_putint [of "drop_bit 8 i"] by (subst putint_rec) simp
    moreover have "length (putint i) < 56" using length_putint [of i] by simp
    ultimately show ?thesis by (simp add: writeUint64_def writeBytes_def encodeStringHeader_def eb_Write_def Let_def)
  qed
qed

lemma SplitUint64_encode: "SplitUint64 (rlp_encode (RStr (if i = 0 then [] else putint i)) @ rest) = Inr (i, rest)"
proof -
  let ?c = "if i = 0 then [] else putint i"
  have "length (rlp_encode (RStr ?c)) \<le> 17"
    using length_putint [of i] by (auto simp: length_puthead headsize_def)
  then have s: "small (rlp_encode (RStr ?c))" by (simp add: small_def)
  have "SplitString (rlp_encode (RStr ?c) @ rest) = Inr (?c, rest)" by (rule SplitString_encode [OF s])
  moreover have "(ucast (hd (putint i)) :: u64) = i" if one: "length (putint i) = 1"
  proof -
    obtain x where "putint i = [x]" using one by (cases "putint i") auto
    then show ?thesis using be_value_putint [of i] by (simp add: be_value_def)
  qed
  moreover have "i \<ge> 56" if "length (putint i) \<noteq> 1"
  proof -
    have "drop_bit 8 i \<noteq> 0" using that by (subst (asm) putint_rec) (auto split: if_splits)
    then show ?thesis by (auto simp: word_le_nat_alt drop_bit_eq_div word_unat_eq_iff unat_div div_eq_0_iff)
  qed
  ultimately show ?thesis
    using hd_putint [of i] length_putint [of i] readSize_putint [of i "[]"]
    by (auto simp: SplitUint64_def simp del: rlp_encode.simps)
qed



end
