(* ===== verification/State_DB.thy ===== *)
theory State_DB
  imports Accounts Trie_Delete RLP
begin

text \<open>
  The state database (\<open>blockchain/state/\<close>): state objects, the journal, the access list, transient storage, and the
  operations of \<open>StateDB\<close> over the secure trie of \<open>storage/statedb/secure_trie.go\<close>.

  A state object is reached through the map \<open>stateObjects\<close> only, so a method that changes an object is a function that
  puts the changed object back into the map; the object a reset entry of the journal keeps is not changed after it
  has been replaced. Every read may load an object, a storage slot, code or trie nodes, and returns the state with
  what it has loaded. A panic is \<open>None\<close>. The node database, Keccak, the account serialiser and the code store are
  fields of \<open>stateEnv\<close>; a snapshot layer is a pair of lookup functions.
\<close>

section \<open>Environment and the secure trie\<close>

record stateEnv =
  se_keccak :: "bytes \<Rightarrow> hash"
  se_nodes :: nodeDB
  se_emptyRoot :: bytes
  se_pruning :: bool
  se_PruningBlockNumber :: u64
  se_ContractCode :: "hash \<Rightarrow> bytes option"
  se_decode :: "bytes \<Rightarrow> Account option"
  se_encode :: "Account \<Rightarrow> bytes"

definition emptyCodeHash :: "stateEnv \<Rightarrow> hash" where
  "emptyCodeHash env = se_keccak env []"

datatype stateError = TrieFailed trieError | CodeFailed hash | StorageTrieFailed trieError | SplitFailed rlpError
  | ErrNotProgramAccount

record SecureTrie =
  st_trie :: Trie
  st_secKeyCache :: "bytes \<rightharpoonup> bytes"

definition hashKey :: "stateEnv \<Rightarrow> bytes \<Rightarrow> bytes" where
  "hashKey env key = hash_bytes (se_keccak env key)"

definition NewSecureStorageTrie :: "stateEnv \<Rightarrow> bytes \<Rightarrow> trieError + SecureTrie" where
  "NewSecureStorageTrie env root =
     rbind (newTrie (se_nodes env) (se_emptyRoot env) root (se_pruning env) (se_PruningBlockNumber env) True)
       (\<lambda>t. Inr \<lparr> st_trie = t, st_secKeyCache = Map.empty \<rparr>)"

definition secure_TryGet :: "stateEnv \<Rightarrow> bytes \<Rightarrow> SecureTrie \<Rightarrow> (trieError + bytes option) \<times> SecureTrie" where
  "secure_TryGet env key st =
     (let (r, t) = TryGet (se_nodes env) (hashKey env key) (st_trie st) in (r, st\<lparr> st_trie := t \<rparr>))"

section \<open>Access list and transient storage\<close>

record accessList =
  al_addresses :: "address \<rightharpoonup> int"
  al_slots :: "hash set list"

definition newAccessList :: accessList where
  "newAccessList = \<lparr> al_addresses = Map.empty, al_slots = [] \<rparr>"

definition al_ContainsAddress :: "address \<Rightarrow> accessList \<Rightarrow> bool" where
  "al_ContainsAddress a al \<longleftrightarrow> al_addresses al a \<noteq> None"

definition al_Contains :: "address \<Rightarrow> hash \<Rightarrow> accessList \<Rightarrow> bool \<times> bool" where
  "al_Contains a slot al =
     (case al_addresses al a of
        None \<Rightarrow> (False, False)
      | Some idx \<Rightarrow> if idx = -1 then (True, False) else (True, slot \<in> al_slots al ! nat idx))"

definition al_AddAddress :: "address \<Rightarrow> accessList \<Rightarrow> bool \<times> accessList" where
  "al_AddAddress a al =
     (case al_addresses al a of
        Some _ \<Rightarrow> (False, al)
      | None \<Rightarrow> (True, al\<lparr> al_addresses := (al_addresses al)(a \<mapsto> -1) \<rparr>))"

definition al_AddSlot :: "address \<Rightarrow> hash \<Rightarrow> accessList \<Rightarrow> (bool \<times> bool) \<times> accessList" where
  "al_AddSlot a slot al =
     (let fresh = al\<lparr> al_addresses := (al_addresses al)(a \<mapsto> int (length (al_slots al))),
                      al_slots := al_slots al @ [{slot}] \<rparr>
      in case al_addresses al a of
           None \<Rightarrow> ((True, True), fresh)
         | Some idx \<Rightarrow>
             if idx = -1 then ((False, True), fresh)
             else if slot \<notin> al_slots al ! nat idx
             then ((False, True), al\<lparr> al_slots := (al_slots al)[nat idx := insert slot (al_slots al ! nat idx)] \<rparr>)
             else ((False, False), al))"

text \<open>\<open>None\<close> is the panic for a missing address and for an index out of range.\<close>

definition al_DeleteSlot :: "address \<Rightarrow> hash \<Rightarrow> accessList \<Rightarrow> accessList option" where
  "al_DeleteSlot a slot al =
     (case al_addresses al a of
        None \<Rightarrow> None
      | Some idx \<Rightarrow>
          if idx < 0 \<or> int (length (al_slots al)) \<le> idx then None
          else let slotmap = al_slots al ! nat idx - {slot} in
            if slotmap = {}
            then Some (al\<lparr> al_slots := take (nat idx) (al_slots al), al_addresses := (al_addresses al)(a \<mapsto> -1) \<rparr>)
            else Some (al\<lparr> al_slots := (al_slots al)[nat idx := slotmap] \<rparr>))"

definition al_DeleteAddress :: "address \<Rightarrow> accessList \<Rightarrow> accessList" where
  "al_DeleteAddress a al = al\<lparr> al_addresses := (al_addresses al)(a := None) \<rparr>"

type_synonym Storage = "hash \<rightharpoonup> hash"
type_synonym transientStorage = "address \<rightharpoonup> Storage"

definition ts_Set :: "address \<Rightarrow> hash \<Rightarrow> hash \<Rightarrow> transientStorage \<Rightarrow> transientStorage" where
  "ts_Set a key v t = t(a \<mapsto> (case t a of None \<Rightarrow> Map.empty | Some m \<Rightarrow> m)(key \<mapsto> v))"

definition ts_Get :: "address \<Rightarrow> hash \<Rightarrow> transientStorage \<Rightarrow> hash" where
  "ts_Get a key t = (case t a of None \<Rightarrow> 0 | Some m \<Rightarrow> or_else (m key) 0)"

section \<open>State objects, journal and state\<close>

record stateObject =
  so_address :: address
  so_addrHash :: hash
  so_account :: Account
  so_dbErr :: "stateError option"
  so_storageTrie :: "SecureTrie option"
  so_code :: "bytes option"
  so_originStorage :: Storage
  so_dirtyStorage :: Storage
  so_dirtyCode :: bool
  so_selfDestructed :: bool
  so_deleted :: bool
  so_created :: bool

datatype journalEntry =
    createObjectChange address
  | resetObjectChange stateObject bool
  | selfDestructChange address bool int
  | balanceChange address int
  | nonceChange address u64
  | storageChange address hash hash
  | codeChange address "bytes option" hash
  | refundChange u64
  | addLogChange hash
  | addPreimageChange hash
  | touchChange address
  | accessListAddAccountChange address
  | accessListAddSlotChange address hash
  | transientStorageChange address hash hash

record journal =
  jr_entries :: "journalEntry list"
  jr_dirties :: "(address \<times> int) list"

record logEntry =
  lg_Address :: address
  lg_Topics :: "hash list"
  lg_Data :: bytes
  lg_BlockNumber :: u64
  lg_TxHash :: hash
  lg_TxIndex :: u64
  lg_BlockHash :: hash
  lg_Index :: u64
  lg_Removed :: bool

record snapshotLayer =
  sn_Account :: "hash \<Rightarrow> unit + Account option"
  sn_Storage :: "hash \<Rightarrow> hash \<Rightarrow> unit + bytes"

record StateDB =
  sd_trie :: SecureTrie
  sd_snap :: "snapshotLayer option"
  sd_snapDestructs :: "hash set"
  sd_stateObjects :: "address \<rightharpoonup> stateObject"
  sd_stateObjectsDirty :: "address set"
  sd_dbErr :: "stateError option"
  sd_refund :: u64
  sd_thash :: hash
  sd_bhash :: hash
  sd_txIndex :: u64
  sd_logs :: "hash \<rightharpoonup> logEntry list"
  sd_logSize :: u64
  sd_preimages :: "hash \<rightharpoonup> bytes"
  sd_accessList :: accessList
  sd_transientStorage :: transientStorage
  sd_journal :: journal
  sd_validRevisions :: "(int \<times> nat) list"
  sd_nextRevisionId :: int

fun dirtied :: "journalEntry \<Rightarrow> address option" where
  "dirtied (createObjectChange a) = Some a"
| "dirtied (selfDestructChange a _ _) = Some a"
| "dirtied (balanceChange a _) = Some a"
| "dirtied (nonceChange a _) = Some a"
| "dirtied (storageChange a _ _) = Some a"
| "dirtied (codeChange a _ _) = Some a"
| "dirtied (touchChange a) = Some a"
| "dirtied _ = None"

text \<open>The count of an address in \<open>dirties\<close>; a missing entry counts as zero.\<close>

definition dirty_count :: "(address \<times> int) list \<Rightarrow> address \<Rightarrow> int" where
  "dirty_count ds a = or_else (map_of ds a) 0"

definition journal_dirty :: "address \<Rightarrow> journal \<Rightarrow> journal" where
  "journal_dirty a j = j\<lparr> jr_dirties := AList.update a (dirty_count (jr_dirties j) a + 1) (jr_dirties j) \<rparr>"

definition journal_undirty :: "address \<Rightarrow> journal \<Rightarrow> journal" where
  "journal_undirty a j =
     (let n = dirty_count (jr_dirties j) a - 1 in
      j\<lparr> jr_dirties := if n = 0 then AList.delete a (jr_dirties j) else AList.update a n (jr_dirties j) \<rparr>)"

definition journal_append :: "journalEntry \<Rightarrow> StateDB \<Rightarrow> StateDB" where
  "journal_append ch s =
     (let j = (sd_journal s)\<lparr> jr_entries := jr_entries (sd_journal s) @ [ch] \<rparr> in
      s\<lparr> sd_journal := (case dirtied ch of None \<Rightarrow> j | Some a \<Rightarrow> journal_dirty a j) \<rparr>)"

section \<open>Loading\<close>

definition setError :: "stateError \<Rightarrow> StateDB \<Rightarrow> StateDB" where
  "setError e s = (if sd_dbErr s = None then s\<lparr> sd_dbErr := Some e \<rparr> else s)"

definition so_setError :: "stateError \<Rightarrow> stateObject \<Rightarrow> stateObject" where
  "so_setError e o1 = (if so_dbErr o1 = None then o1\<lparr> so_dbErr := Some e \<rparr> else o1)"

definition newObject :: "stateEnv \<Rightarrow> address \<Rightarrow> Account \<Rightarrow> stateObject" where
  "newObject env a acc =
     \<lparr> so_address = a, so_addrHash = se_keccak env (addr_bytes a), so_account = acc, so_dbErr = None,
       so_storageTrie = None, so_code = None, so_originStorage = Map.empty, so_dirtyStorage = Map.empty,
       so_dirtyCode = False, so_selfDestructed = False, so_deleted = False, so_created = False \<rparr>"

definition setStateObject :: "stateObject \<Rightarrow> StateDB \<Rightarrow> StateDB" where
  "setStateObject o1 s = s\<lparr> sd_stateObjects := (sd_stateObjects s)(so_address o1 \<mapsto> o1) \<rparr>"

definition snap_lookup :: "stateEnv \<Rightarrow> address \<Rightarrow> StateDB \<Rightarrow> Account option option" where
  "snap_lookup env a s =
     (case sd_snap s of
        None \<Rightarrow> None
      | Some sn \<Rightarrow> (case sn_Account sn (se_keccak env (addr_bytes a)) of Inl _ \<Rightarrow> None | Inr acc \<Rightarrow> Some acc))"

definition getDeletedStateObject :: "stateEnv \<Rightarrow> address \<Rightarrow> StateDB \<Rightarrow> stateObject option \<times> StateDB" where
  "getDeletedStateObject env a s =
     (let found = (\<lambda>acc s1. (let o1 = newObject env a acc in (Some o1, setStateObject o1 s1))) in
      case sd_stateObjects s a of
        Some o1 \<Rightarrow> (Some o1, s)
      | None \<Rightarrow>
          (case snap_lookup env a s of
             Some None \<Rightarrow> (None, s)
           | Some (Some acc) \<Rightarrow> found acc s
           | None \<Rightarrow>
               (let (r, st) = secure_TryGet env (addr_bytes a) (sd_trie s); s1 = s\<lparr> sd_trie := st \<rparr> in
                case r of
                  Inl e \<Rightarrow> (None, setError (TrieFailed e) s1)
                | Inr enc \<Rightarrow>
                    if or_else enc [] = [] then (None, s1)
                    else (case se_decode env (or_else enc []) of None \<Rightarrow> (None, s1) | Some acc \<Rightarrow> found acc s1))))"

definition getStateObject :: "stateEnv \<Rightarrow> address \<Rightarrow> StateDB \<Rightarrow> stateObject option \<times> StateDB" where
  "getStateObject env a s =
     (let (r, s1) = getDeletedStateObject env a s in
      (case r of None \<Rightarrow> None | Some o1 \<Rightarrow> if so_deleted o1 then None else Some o1, s1))"

text \<open>The second opening, of the empty root, uses options that were accepted when the account trie was opened.\<close>

definition openStorageTrie :: "stateEnv \<Rightarrow> bytes \<Rightarrow> trieError + SecureTrie" where
  "openStorageTrie env root = NewSecureStorageTrie env root"

definition empty_storage_trie :: "stateEnv \<Rightarrow> SecureTrie" where
  "empty_storage_trie env =
     \<lparr> st_trie = \<lparr> tr_opts = \<lparr> to_pruning = se_pruning env, to_PruningBlockNumber = se_PruningBlockNumber env \<rparr>,
                   tr_root = NilNode, tr_originalRoot = replicate 39 0, tr_storage = True,
                   tr_pruningMarksCache = Map.empty \<rparr>,
       st_secKeyCache = Map.empty \<rparr>"

definition getStorageTrie :: "stateEnv \<Rightarrow> stateObject \<Rightarrow> SecureTrie \<times> stateObject" where
  "getStorageTrie env o1 =
     (case so_storageTrie o1 of
        Some t \<Rightarrow> (t, o1)
      | None \<Rightarrow>
          (case GetStorageRoot (so_account o1) of
             None \<Rightarrow> (empty_storage_trie env, o1\<lparr> so_storageTrie := Some (empty_storage_trie env) \<rparr>)
           | Some root \<Rightarrow>
               (case openStorageTrie env root of
                  Inr t \<Rightarrow> (t, o1\<lparr> so_storageTrie := Some t \<rparr>)
                | Inl e \<Rightarrow> (empty_storage_trie env,
                    so_setError (StorageTrieFailed e) (o1\<lparr> so_storageTrie := Some (empty_storage_trie env) \<rparr>)))))"

text \<open>The value of an encoded slot; a slot that cannot be split reads as zero and leaves an error.\<close>

definition decode_slot :: "bytes \<Rightarrow> hash \<times> stateError option" where
  "decode_slot enc =
     (if enc = [] then (0, None)
      else (case rlp_Split enc of
              Inl e \<Rightarrow> (0, Some (SplitFailed e))
            | Inr (_, content, _) \<Rightarrow> (BytesToHash content, None)))"

definition cache_slot :: "hash \<Rightarrow> bytes \<Rightarrow> stateObject \<Rightarrow> hash \<times> stateObject" where
  "cache_slot key enc o1 =
     (let (v, err) = decode_slot enc;
          o2 = (case err of None \<Rightarrow> o1 | Some e \<Rightarrow> so_setError e o1)
      in (v, o2\<lparr> so_originStorage := (so_originStorage o2)(key \<mapsto> v) \<rparr>))"

definition load_slot :: "stateEnv \<Rightarrow> hash \<Rightarrow> stateObject \<Rightarrow> hash \<times> stateObject" where
  "load_slot env key o1 =
     (let (t, o2) = getStorageTrie env o1; (r, t') = secure_TryGet env (hash_bytes key) t;
          o3 = o2\<lparr> so_storageTrie := Some t' \<rparr>
      in case r of
           Inl e \<Rightarrow> (0, so_setError (TrieFailed e) o3)
         | Inr enc \<Rightarrow> cache_slot key (or_else enc []) o3)"

definition so_GetCommittedState :: "stateEnv \<Rightarrow> StateDB \<Rightarrow> hash \<Rightarrow> stateObject \<Rightarrow> hash \<times> stateObject" where
  "so_GetCommittedState env s key o1 =
     (case so_originStorage o1 key of
        Some v \<Rightarrow> (v, o1)
      | None \<Rightarrow>
          (case sd_snap s of
             None \<Rightarrow> load_slot env key o1
           | Some sn \<Rightarrow>
               if so_addrHash o1 \<in> sd_snapDestructs s then (0, o1)
               else (case sn_Storage sn (so_addrHash o1) (se_keccak env (hash_bytes key)) of
                       Inl _ \<Rightarrow> load_slot env key o1
                     | Inr enc \<Rightarrow> cache_slot key enc o1)))"

definition so_GetState :: "stateEnv \<Rightarrow> StateDB \<Rightarrow> hash \<Rightarrow> stateObject \<Rightarrow> hash \<times> stateObject" where
  "so_GetState env s key o1 =
     (case so_dirtyStorage o1 key of Some v \<Rightarrow> (v, o1) | None \<Rightarrow> so_GetCommittedState env s key o1)"

definition so_CodeHash :: "stateEnv \<Rightarrow> stateObject \<Rightarrow> hash" where
  "so_CodeHash env o1 = or_else (GetCodeHash_acc (so_account o1)) (emptyCodeHash env)"

definition so_Code :: "stateEnv \<Rightarrow> stateObject \<Rightarrow> bytes option \<times> stateObject" where
  "so_Code env o1 =
     (case so_code o1 of
        Some c \<Rightarrow> (Some c, o1)
      | None \<Rightarrow>
          if so_CodeHash env o1 = emptyCodeHash env then (None, o1)
          else (case se_ContractCode env (so_CodeHash env o1) of
                  Some c \<Rightarrow> (Some c, o1\<lparr> so_code := Some c \<rparr>)
                | None \<Rightarrow> (None, so_setError (CodeFailed (so_CodeHash env o1)) o1)))"

section \<open>Reading\<close>

definition Exist :: "stateEnv \<Rightarrow> address \<Rightarrow> StateDB \<Rightarrow> bool \<times> StateDB" where
  "Exist env a s = (let (r, s1) = getStateObject env a s in (r \<noteq> None, s1))"

definition Empty :: "stateEnv \<Rightarrow> address \<Rightarrow> StateDB \<Rightarrow> bool \<times> StateDB" where
  "Empty env a s =
     (let (r, s1) = getStateObject env a s in
      (case r of None \<Rightarrow> True | Some o1 \<Rightarrow> Empty_acc (emptyCodeHash env) (so_account o1), s1))"

definition GetBalance :: "stateEnv \<Rightarrow> address \<Rightarrow> StateDB \<Rightarrow> int \<times> StateDB" where
  "GetBalance env a s =
     (let (r, s1) = getStateObject env a s in
      (case r of None \<Rightarrow> 0 | Some o1 \<Rightarrow> GetBalance_acc (so_account o1), s1))"

definition GetNonce :: "stateEnv \<Rightarrow> address \<Rightarrow> StateDB \<Rightarrow> u64 \<times> StateDB" where
  "GetNonce env a s =
     (let (r, s1) = getStateObject env a s in
      (case r of None \<Rightarrow> 0 | Some o1 \<Rightarrow> GetNonce_acc (so_account o1), s1))"

definition GetAccount :: "stateEnv \<Rightarrow> address \<Rightarrow> StateDB \<Rightarrow> Account option \<times> StateDB" where
  "GetAccount env a s = (let (r, s1) = getStateObject env a s in (map_option so_account r, s1))"

definition GetCode :: "stateEnv \<Rightarrow> address \<Rightarrow> StateDB \<Rightarrow> bytes option \<times> StateDB" where
  "GetCode env a s =
     (let (r, s1) = getStateObject env a s in
      case r of None \<Rightarrow> (None, s1) | Some o1 \<Rightarrow> (let (c, o2) = so_Code env o1 in (c, setStateObject o2 s1)))"

definition GetCodeHash :: "stateEnv \<Rightarrow> address \<Rightarrow> StateDB \<Rightarrow> hash \<times> StateDB" where
  "GetCodeHash env a s =
     (let (r, s1) = getStateObject env a s in
      (case r of None \<Rightarrow> emptyCodeHash env | Some o1 \<Rightarrow> so_CodeHash env o1, s1))"

definition GetState :: "stateEnv \<Rightarrow> address \<Rightarrow> hash \<Rightarrow> StateDB \<Rightarrow> hash \<times> StateDB" where
  "GetState env a key s =
     (let (r, s1) = getStateObject env a s in
      case r of None \<Rightarrow> (0, s1) | Some o1 \<Rightarrow> (let (v, o2) = so_GetState env s1 key o1 in (v, setStateObject o2 s1)))"

definition GetCommittedState :: "stateEnv \<Rightarrow> address \<Rightarrow> hash \<Rightarrow> StateDB \<Rightarrow> hash \<times> StateDB" where
  "GetCommittedState env a key s =
     (let (r, s1) = getStateObject env a s in
      case r of
        None \<Rightarrow> (0, s1)
      | Some o1 \<Rightarrow> (let (v, o2) = so_GetCommittedState env s1 key o1 in (v, setStateObject o2 s1)))"

definition HasSelfDestructed :: "stateEnv \<Rightarrow> address \<Rightarrow> StateDB \<Rightarrow> bool \<times> StateDB" where
  "HasSelfDestructed env a s =
     (let (r, s1) = getStateObject env a s in (case r of None \<Rightarrow> False | Some o1 \<Rightarrow> so_selfDestructed o1, s1))"

definition GetTransientState :: "address \<Rightarrow> hash \<Rightarrow> StateDB \<Rightarrow> hash" where
  "GetTransientState a key s = ts_Get a key (sd_transientStorage s)"

definition GetLogs :: "hash \<Rightarrow> StateDB \<Rightarrow> logEntry list" where
  "GetLogs h s = or_else (sd_logs s h) []"

section \<open>Creating objects\<close>

definition create_with :: "stateEnv \<Rightarrow> address \<Rightarrow> Account \<Rightarrow> StateDB \<Rightarrow> (stateObject \<times> stateObject option) \<times> StateDB" where
  "create_with env a acc s =
     (let (prev, s1) = getDeletedStateObject env a s;
          destructed = (case prev of Some p \<Rightarrow> sd_snap s1 \<noteq> None \<and> so_addrHash p \<in> sd_snapDestructs s1 | None \<Rightarrow> False);
          s2 = (case prev of
                  Some p \<Rightarrow> if sd_snap s1 \<noteq> None \<and> \<not> destructed
                            then s1\<lparr> sd_snapDestructs := insert (so_addrHash p) (sd_snapDestructs s1) \<rparr> else s1
                | None \<Rightarrow> s1);
          newobj = newObject env a (SetNonce_acc 0 acc);
          s3 = journal_append (case prev of None \<Rightarrow> createObjectChange a | Some p \<Rightarrow> resetObjectChange p destructed) s2;
          newobj2 = newobj\<lparr> so_created := True \<rparr>
      in ((newobj2, case prev of Some p \<Rightarrow> if so_deleted p then None else Some p | None \<Rightarrow> None),
          setStateObject newobj2 s3))"

definition createObject :: "stateEnv \<Rightarrow> address \<Rightarrow> StateDB \<Rightarrow> (stateObject \<times> stateObject option) \<times> StateDB" where
  "createObject env a s = create_with env a (ExternallyOwnedAccount newAccountCommon) s"

definition GetOrNewStateObject :: "stateEnv \<Rightarrow> address \<Rightarrow> StateDB \<Rightarrow> stateObject \<times> StateDB" where
  "GetOrNewStateObject env a s =
     (let (r, s1) = getStateObject env a s in
      case r of Some o1 \<Rightarrow> (o1, s1) | None \<Rightarrow> (let ((o1, _), s2) = createObject env a s1 in (o1, s2)))"

definition GetOrNewSmartContract :: "stateEnv \<Rightarrow> address \<Rightarrow> StateDB \<Rightarrow> stateObject \<times> StateDB" where
  "GetOrNewSmartContract env a s =
     (let (r, s1) = getStateObject env a s in
      case r of
        Some o1 \<Rightarrow> (o1, s1)
      | None \<Rightarrow>
          (let values = no_values\<lparr> av_Nonce := Some 1, av_HumanReadable := Some False, av_AccountKey := Some AccountKeyFail \<rparr>;
               ((o1, _), s2) = create_with env a (newSmartContractAccountWithMap (emptyCodeHash env) values) s1
           in (o1, s2)))"

text \<open>The balance of a replaced account is carried over.\<close>

definition carry_balance :: "(stateObject \<times> stateObject option) \<times> StateDB \<Rightarrow> StateDB" where
  "carry_balance r =
     (let ((new, prev), s) = r in
      case prev of
        None \<Rightarrow> s
      | Some p \<Rightarrow> setStateObject (new\<lparr> so_account := SetBalance_acc (GetBalance_acc (so_account p)) (so_account new) \<rparr>) s)"

definition CreateAccount :: "stateEnv \<Rightarrow> address \<Rightarrow> StateDB \<Rightarrow> StateDB" where
  "CreateAccount env a s = carry_balance (createObject env a s)"

definition CreateEOA :: "stateEnv \<Rightarrow> address \<Rightarrow> bool \<Rightarrow> AccountKey \<Rightarrow> StateDB \<Rightarrow> StateDB" where
  "CreateEOA env a humanReadable key s =
     carry_balance (create_with env a
       (newExternallyOwnedAccountWithMap (no_values\<lparr> av_HumanReadable := Some humanReadable, av_AccountKey := Some key \<rparr>)) s)"

definition CreateSmartContractAccountWithKey ::
  "stateEnv \<Rightarrow> address \<Rightarrow> bool \<Rightarrow> AccountKey \<Rightarrow> u8 \<Rightarrow> Rules \<Rightarrow> StateDB \<Rightarrow> StateDB" where
  "CreateSmartContractAccountWithKey env a humanReadable key format r s =
     carry_balance (create_with env a
       (newSmartContractAccountWithMap (emptyCodeHash env)
          (no_values\<lparr> av_Nonce := Some 1, av_HumanReadable := Some humanReadable, av_AccountKey := Some key,
             av_CodeInfo := Some (NewCodeInfoWithRules format r) \<rparr>)) s)"

section \<open>Changing objects\<close>

text \<open>The address of the precompile that stays dirty after a revert.\<close>

definition ripemd :: address where "ripemd = 3"

definition so_touch :: "stateObject \<Rightarrow> StateDB \<Rightarrow> StateDB" where
  "so_touch o1 s =
     (let s1 = journal_append (touchChange (so_address o1)) s in
      if so_address o1 = ripemd then s1\<lparr> sd_journal := journal_dirty (so_address o1) (sd_journal s1) \<rparr> else s1)"

definition so_setBalance :: "int \<Rightarrow> stateObject \<Rightarrow> stateObject" where
  "so_setBalance b o1 = o1\<lparr> so_account := SetBalance_acc b (so_account o1) \<rparr>"

definition so_SetBalance :: "int \<Rightarrow> stateObject \<Rightarrow> StateDB \<Rightarrow> StateDB" where
  "so_SetBalance b o1 s =
     setStateObject (so_setBalance b o1)
       (journal_append (balanceChange (so_address o1) (GetBalance_acc (so_account o1))) s)"

definition so_AddBalance :: "stateEnv \<Rightarrow> int \<Rightarrow> stateObject \<Rightarrow> StateDB \<Rightarrow> StateDB" where
  "so_AddBalance env amount o1 s =
     (if amount = 0 then if Empty_acc (emptyCodeHash env) (so_account o1) then so_touch o1 s else s
      else so_SetBalance (GetBalance_acc (so_account o1) + amount) o1 s)"

definition so_SubBalance :: "int \<Rightarrow> stateObject \<Rightarrow> StateDB \<Rightarrow> StateDB" where
  "so_SubBalance amount o1 s =
     (if amount = 0 then s else so_SetBalance (GetBalance_acc (so_account o1) - amount) o1 s)"

definition so_setNonce :: "u64 \<Rightarrow> stateObject \<Rightarrow> stateObject" where
  "so_setNonce n o1 = o1\<lparr> so_account := SetNonce_acc n (so_account o1) \<rparr>"

definition so_SetNonce :: "u64 \<Rightarrow> stateObject \<Rightarrow> StateDB \<Rightarrow> StateDB" where
  "so_SetNonce n o1 s =
     setStateObject (so_setNonce n o1)
       (journal_append (nonceChange (so_address o1) (GetNonce_acc (so_account o1))) s)"

definition so_IncNonce :: "stateObject \<Rightarrow> StateDB \<Rightarrow> StateDB" where
  "so_IncNonce o1 s = so_SetNonce (GetNonce_acc (so_account o1) + 1) o1 s"

definition so_setState :: "hash \<Rightarrow> hash \<Rightarrow> stateObject \<Rightarrow> stateObject" where
  "so_setState key v o1 = o1\<lparr> so_dirtyStorage := (so_dirtyStorage o1)(key \<mapsto> v) \<rparr>"

definition so_SetState :: "stateEnv \<Rightarrow> hash \<Rightarrow> hash \<Rightarrow> stateObject \<Rightarrow> StateDB \<Rightarrow> StateDB" where
  "so_SetState env key v o1 s =
     (let (prev, o2) = so_GetState env s key o1 in
      if prev = v then setStateObject o2 s
      else setStateObject (so_setState key v o2) (journal_append (storageChange (so_address o2) key prev) s))"

definition so_setCode :: "hash \<Rightarrow> bytes option \<Rightarrow> stateObject \<Rightarrow> stateError option \<times> stateObject" where
  "so_setCode codeHash code o1 =
     (if \<not> is_program (so_account o1) then (Some ErrNotProgramAccount, o1)
      else (None, o1\<lparr> so_code := code, so_account := SetCodeHash codeHash (so_account o1), so_dirtyCode := True \<rparr>))"

definition so_SetCode :: "stateEnv \<Rightarrow> hash \<Rightarrow> bytes \<Rightarrow> stateObject \<Rightarrow> StateDB \<Rightarrow> stateError option \<times> StateDB" where
  "so_SetCode env codeHash code o1 s =
     (let (prevcode, o2) = so_Code env o1;
          s1 = journal_append (codeChange (so_address o2) prevcode (so_CodeHash env o2)) s;
          (err, o3) = so_setCode codeHash (Some code) o2
      in (err, setStateObject o3 s1))"

definition AddBalance :: "stateEnv \<Rightarrow> address \<Rightarrow> int \<Rightarrow> StateDB \<Rightarrow> StateDB" where
  "AddBalance env a amount s = (let (o1, s1) = GetOrNewStateObject env a s in so_AddBalance env amount o1 s1)"

definition SubBalance :: "stateEnv \<Rightarrow> address \<Rightarrow> int \<Rightarrow> StateDB \<Rightarrow> StateDB" where
  "SubBalance env a amount s = (let (o1, s1) = GetOrNewStateObject env a s in so_SubBalance amount o1 s1)"

definition SetBalance :: "stateEnv \<Rightarrow> address \<Rightarrow> int \<Rightarrow> StateDB \<Rightarrow> StateDB" where
  "SetBalance env a amount s = (let (o1, s1) = GetOrNewStateObject env a s in so_SetBalance amount o1 s1)"

definition IncNonce :: "stateEnv \<Rightarrow> address \<Rightarrow> StateDB \<Rightarrow> StateDB" where
  "IncNonce env a s = (let (o1, s1) = GetOrNewStateObject env a s in so_IncNonce o1 s1)"

definition SetNonce :: "stateEnv \<Rightarrow> address \<Rightarrow> u64 \<Rightarrow> StateDB \<Rightarrow> StateDB" where
  "SetNonce env a n s = (let (o1, s1) = GetOrNewStateObject env a s in so_SetNonce n o1 s1)"

definition SetCode :: "stateEnv \<Rightarrow> address \<Rightarrow> bytes \<Rightarrow> StateDB \<Rightarrow> stateError option \<times> StateDB" where
  "SetCode env a code s =
     (let (o1, s1) = GetOrNewSmartContract env a s in so_SetCode env (se_keccak env code) code o1 s1)"

definition SetState :: "stateEnv \<Rightarrow> address \<Rightarrow> hash \<Rightarrow> hash \<Rightarrow> StateDB \<Rightarrow> StateDB" where
  "SetState env a key v s = (let (o1, s1) = GetOrNewSmartContract env a s in so_SetState env key v o1 s1)"

definition SelfDestruct :: "stateEnv \<Rightarrow> address \<Rightarrow> StateDB \<Rightarrow> StateDB" where
  "SelfDestruct env a s =
     (let (r, s1) = getStateObject env a s in
      case r of
        None \<Rightarrow> s1
      | Some o1 \<Rightarrow>
          setStateObject (so_setBalance 0 (o1\<lparr> so_selfDestructed := True \<rparr>))
            (journal_append (selfDestructChange a (so_selfDestructed o1) (GetBalance_acc (so_account o1))) s1))"

definition SelfDestruct6780 :: "stateEnv \<Rightarrow> address \<Rightarrow> StateDB \<Rightarrow> StateDB" where
  "SelfDestruct6780 env a s =
     (let (r, s1) = getStateObject env a s in
      case r of None \<Rightarrow> s1 | Some o1 \<Rightarrow> if so_created o1 then SelfDestruct env a s1 else s1)"

section \<open>Logs, preimages, refunds, transient storage, access list\<close>

definition AddLog :: "logEntry \<Rightarrow> StateDB \<Rightarrow> StateDB" where
  "AddLog lg s =
     (let s1 = journal_append (addLogChange (sd_thash s)) s;
          lg1 = lg\<lparr> lg_TxHash := sd_thash s, lg_BlockHash := sd_bhash s, lg_TxIndex := sd_txIndex s, lg_Index := sd_logSize s \<rparr>
      in s1\<lparr> sd_logs := (sd_logs s1)(sd_thash s \<mapsto> GetLogs (sd_thash s) s @ [lg1]), sd_logSize := sd_logSize s + 1 \<rparr>)"

definition AddPreimage :: "hash \<Rightarrow> bytes \<Rightarrow> StateDB \<Rightarrow> StateDB" where
  "AddPreimage h p s =
     (if sd_preimages s h = None
      then (journal_append (addPreimageChange h) s)\<lparr> sd_preimages := (sd_preimages s)(h \<mapsto> p) \<rparr> else s)"

definition AddRefund :: "u64 \<Rightarrow> StateDB \<Rightarrow> StateDB" where
  "AddRefund gas s = (journal_append (refundChange (sd_refund s)) s)\<lparr> sd_refund := sd_refund s + gas \<rparr>"

definition SubRefund :: "u64 \<Rightarrow> StateDB \<Rightarrow> StateDB option" where
  "SubRefund gas s =
     (if gas > sd_refund s then None
      else Some ((journal_append (refundChange (sd_refund s)) s)\<lparr> sd_refund := sd_refund s - gas \<rparr>))"

definition setTransientState :: "address \<Rightarrow> hash \<Rightarrow> hash \<Rightarrow> StateDB \<Rightarrow> StateDB" where
  "setTransientState a key v s = s\<lparr> sd_transientStorage := ts_Set a key v (sd_transientStorage s) \<rparr>"

definition SetTransientState :: "address \<Rightarrow> hash \<Rightarrow> hash \<Rightarrow> StateDB \<Rightarrow> StateDB" where
  "SetTransientState a key v s =
     (let prev = GetTransientState a key s in
      if prev = v then s
      else setTransientState a key v (journal_append (transientStorageChange a key prev) s))"

definition AddAddressToAccessList :: "address \<Rightarrow> StateDB \<Rightarrow> StateDB" where
  "AddAddressToAccessList a s =
     (let (added, al) = al_AddAddress a (sd_accessList s); s1 = s\<lparr> sd_accessList := al \<rparr>
      in if added then journal_append (accessListAddAccountChange a) s1 else s1)"

definition AddSlotToAccessList :: "address \<Rightarrow> hash \<Rightarrow> StateDB \<Rightarrow> StateDB" where
  "AddSlotToAccessList a slot s =
     (let ((addrMod, slotMod), al) = al_AddSlot a slot (sd_accessList s);
          s1 = s\<lparr> sd_accessList := al \<rparr>;
          s2 = (if addrMod then journal_append (accessListAddAccountChange a) s1 else s1)
      in if slotMod then journal_append (accessListAddSlotChange a slot) s2 else s2)"

section \<open>Snapshots\<close>

text \<open>\<open>entry.revert\<close>. \<open>None\<close> is a panic: a method of a missing object, or an index out of range.\<close>

definition revert_object :: "stateEnv \<Rightarrow> address \<Rightarrow> (stateObject \<Rightarrow> stateObject) \<Rightarrow> StateDB \<Rightarrow> StateDB option" where
  "revert_object env a f s =
     (let (r, s1) = getStateObject env a s in
      case r of None \<Rightarrow> None | Some o1 \<Rightarrow> Some (setStateObject (f o1) s1))"

fun revert_entry :: "stateEnv \<Rightarrow> journalEntry \<Rightarrow> StateDB \<Rightarrow> StateDB option" where
  "revert_entry env (createObjectChange a) s =
     Some (s\<lparr> sd_stateObjects := (sd_stateObjects s)(a := None),
             sd_stateObjectsDirty := sd_stateObjectsDirty s - {a} \<rparr>)"
| "revert_entry env (resetObjectChange prev prevdestruct) s =
     (let s1 = setStateObject prev s in
      Some (if \<not> prevdestruct \<and> sd_snap s1 \<noteq> None
            then s1\<lparr> sd_snapDestructs := sd_snapDestructs s1 - {so_addrHash prev} \<rparr> else s1))"
| "revert_entry env (selfDestructChange a prev prevbalance) s =
     (let (r, s1) = getStateObject env a s in
      case r of
        None \<Rightarrow> Some s1
      | Some o1 \<Rightarrow> Some (setStateObject (so_setBalance prevbalance (o1\<lparr> so_selfDestructed := prev \<rparr>)) s1))"
| "revert_entry env (balanceChange a prev) s = revert_object env a (so_setBalance prev) s"
| "revert_entry env (nonceChange a prev) s = revert_object env a (so_setNonce prev) s"
| "revert_entry env (storageChange a key prevalue) s = revert_object env a (so_setState key prevalue) s"
| "revert_entry env (codeChange a prevcode prevhash) s =
     revert_object env a (\<lambda>o1. snd (so_setCode prevhash prevcode o1)) s"
| "revert_entry env (refundChange prev) s = Some (s\<lparr> sd_refund := prev \<rparr>)"
| "revert_entry env (addLogChange h) s =
     (let logs = GetLogs h s in
      if logs = [] then None
      else Some (s\<lparr> sd_logs := (if length logs = 1 then (sd_logs s)(h := None) else (sd_logs s)(h \<mapsto> butlast logs)),
                    sd_logSize := sd_logSize s - 1 \<rparr>))"
| "revert_entry env (addPreimageChange h) s = Some (s\<lparr> sd_preimages := (sd_preimages s)(h := None) \<rparr>)"
| "revert_entry env (touchChange a) s = Some s"
| "revert_entry env (accessListAddAccountChange a) s =
     Some (s\<lparr> sd_accessList := al_DeleteAddress a (sd_accessList s) \<rparr>)"
| "revert_entry env (accessListAddSlotChange a slot) s =
     map_option (\<lambda>al. s\<lparr> sd_accessList := al \<rparr>) (al_DeleteSlot a slot (sd_accessList s))"
| "revert_entry env (transientStorageChange a key prevalue) s = Some (setTransientState a key prevalue s)"

text \<open>One turn of the loop of \<open>journal.revert\<close>: undo the entry and drop its dirty mark.\<close>

definition undo_entry :: "stateEnv \<Rightarrow> journalEntry \<Rightarrow> StateDB \<Rightarrow> StateDB option" where
  "undo_entry env ch s =
     map_option (\<lambda>s1. case dirtied ch of
                        None \<Rightarrow> s1
                      | Some a \<Rightarrow> s1\<lparr> sd_journal := journal_undirty a (sd_journal s1) \<rparr>)
       (revert_entry env ch s)"

fun undo_entries :: "stateEnv \<Rightarrow> journalEntry list \<Rightarrow> StateDB \<Rightarrow> StateDB option" where
  "undo_entries env [] s = Some s"
| "undo_entries env (ch # chs) s = Option.bind (undo_entry env ch s) (undo_entries env chs)"

definition journal_revert :: "stateEnv \<Rightarrow> nat \<Rightarrow> StateDB \<Rightarrow> StateDB option" where
  "journal_revert env snapshot s =
     map_option (\<lambda>s1. s1\<lparr> sd_journal := (sd_journal s1)\<lparr> jr_entries := take snapshot (jr_entries (sd_journal s1)) \<rparr> \<rparr>)
       (undo_entries env (rev (drop snapshot (jr_entries (sd_journal s)))) s)"

definition Snapshot :: "StateDB \<Rightarrow> int \<times> StateDB" where
  "Snapshot s =
     (let i = sd_nextRevisionId s in
      (i, s\<lparr> sd_nextRevisionId := i + 1,
             sd_validRevisions := sd_validRevisions s @ [(i, length (jr_entries (sd_journal s)))] \<rparr>))"

text \<open>\<open>sort.Search\<close>: binary search for the least index below \<open>j\<close> at which the condition holds.\<close>

function sort_Search :: "(nat \<Rightarrow> bool) \<Rightarrow> nat \<Rightarrow> nat \<Rightarrow> nat" where
  "sort_Search f i j =
     (if i < j then let h = (i + j) div 2 in if \<not> f h then sort_Search f (h + 1) j else sort_Search f i h else i)"
  by auto
termination by (relation "measure (\<lambda>(_, i, j). j - i)") auto

declare sort_Search.simps [simp del]

definition RevertToSnapshot :: "stateEnv \<Rightarrow> int \<Rightarrow> StateDB \<Rightarrow> StateDB option" where
  "RevertToSnapshot env revid s =
     (let revs = sd_validRevisions s; idx = sort_Search (\<lambda>i. fst (revs ! i) \<ge> revid) 0 (length revs) in
      if idx = length revs \<or> fst (revs ! idx) \<noteq> revid then None
      else map_option (\<lambda>s1. s1\<lparr> sd_validRevisions := take idx (sd_validRevisions s1) \<rparr>)
             (journal_revert env (snd (revs ! idx)) s))"

end
