(* ===== verification/State_View.thy ===== *)
theory State_View
  imports State_DB
begin

text \<open>
  What a state database shows: the \<open>stView\<close> of a state is independent of which objects, slots, code and trie nodes have
  been loaded. Every read leaves the view; undoing a journal entry is a function on views (\<open>vundo\<close>).
\<close>

section \<open>Views\<close>

record objView =
  ov_account :: Account
  ov_code :: "bytes option"
  ov_committed :: "hash \<Rightarrow> hash"
  ov_state :: "hash \<Rightarrow> hash"
  ov_selfDestructed :: bool
  ov_deleted :: bool
  ov_created :: bool

definition strie_read :: "stateEnv \<Rightarrow> SecureTrie \<Rightarrow> bytes \<Rightarrow> bytes" where
  "strie_read env st key = or_else (trie_read (se_nodes env) (st_trie st) (hashKey env key)) []"

definition slot_base :: "stateEnv \<Rightarrow> snapshotLayer option \<Rightarrow> stateObject \<Rightarrow> hash \<Rightarrow> hash" where
  "slot_base env snap o1 key =
     (let from_trie = fst (decode_slot (strie_read env (fst (getStorageTrie env o1)) (hash_bytes key))) in
      case snap of
        None \<Rightarrow> from_trie
      | Some sn \<Rightarrow> (case sn_Storage sn (so_addrHash o1) (se_keccak env (hash_bytes key)) of
                     Inl _ \<Rightarrow> from_trie | Inr enc \<Rightarrow> fst (decode_slot enc)))"

definition committed :: "stateEnv \<Rightarrow> snapshotLayer option \<Rightarrow> hash set \<Rightarrow> stateObject \<Rightarrow> hash \<Rightarrow> hash" where
  "committed env snap destructs o1 key =
     (case so_originStorage o1 key of
        Some v \<Rightarrow> v
      | None \<Rightarrow> if snap \<noteq> None \<and> so_addrHash o1 \<in> destructs then 0 else slot_base env snap o1 key)"

definition code_at :: "stateEnv \<Rightarrow> hash \<Rightarrow> bytes option" where
  "code_at env h = (if h = emptyCodeHash env then None else se_ContractCode env h)"

definition code_of :: "stateEnv \<Rightarrow> stateObject \<Rightarrow> bytes option" where
  "code_of env o1 = (case so_code o1 of Some c \<Rightarrow> Some c | None \<Rightarrow> code_at env (so_CodeHash env o1))"

definition oview :: "stateEnv \<Rightarrow> snapshotLayer option \<Rightarrow> hash set \<Rightarrow> stateObject \<Rightarrow> objView" where
  "oview env snap destructs o1 =
     \<lparr> ov_account = so_account o1, ov_code = code_of env o1, ov_committed = committed env snap destructs o1,
       ov_state = (\<lambda>key. case so_dirtyStorage o1 key of Some v \<Rightarrow> v | None \<Rightarrow> committed env snap destructs o1 key),
       ov_selfDestructed = so_selfDestructed o1, ov_deleted = so_deleted o1, ov_created = so_created o1 \<rparr>"

record stView =
  vw_objs :: "address \<Rightarrow> objView option"
  vw_destructs :: "hash set"
  vw_dirtyObjs :: "address set"
  vw_refund :: u64
  vw_logs :: "hash \<Rightarrow> logEntry list"
  vw_logSize :: u64
  vw_preimages :: "hash \<rightharpoonup> bytes"
  vw_accessList :: accessList
  vw_transient :: "address \<Rightarrow> hash \<Rightarrow> hash"
  vw_dirties :: "address \<Rightarrow> int"

text \<open>The account an address has when no object is in memory.\<close>

definition stored :: "stateEnv \<Rightarrow> StateDB \<Rightarrow> address \<Rightarrow> Account option" where
  "stored env s a =
     (case snap_lookup env a s of
        Some acc \<Rightarrow> acc
      | None \<Rightarrow> (let enc = strie_read env (sd_trie s) (addr_bytes a) in if enc = [] then None else se_decode env enc))"

definition resolved :: "stateEnv \<Rightarrow> StateDB \<Rightarrow> address \<Rightarrow> stateObject option" where
  "resolved env s a =
     (case sd_stateObjects s a of Some o1 \<Rightarrow> Some o1 | None \<Rightarrow> map_option (newObject env a) (stored env s a))"

text \<open>The counts of the dirty accounts, apart from the one the journal keeps dirty on purpose.\<close>

definition dirties_of :: "journal \<Rightarrow> address \<Rightarrow> int" where
  "dirties_of j a = (if a = ripemd then 0 else dirty_count (jr_dirties j) a)"

definition view :: "stateEnv \<Rightarrow> StateDB \<Rightarrow> stView" where
  "view env s =
     \<lparr> vw_objs = (\<lambda>a. map_option (oview env (sd_snap s) (sd_snapDestructs s)) (resolved env s a)),
       vw_destructs = sd_snapDestructs s, vw_dirtyObjs = sd_stateObjectsDirty s, vw_refund = sd_refund s,
       vw_logs = (\<lambda>h. GetLogs h s), vw_logSize = sd_logSize s, vw_preimages = sd_preimages s,
       vw_accessList = sd_accessList s, vw_transient = (\<lambda>a k. GetTransientState a k s),
       vw_dirties = dirties_of (sd_journal s) \<rparr>"

definition live :: "stView \<Rightarrow> address \<Rightarrow> objView option" where
  "live V a = (case vw_objs V a of None \<Rightarrow> None | Some ov \<Rightarrow> if ov_deleted ov then None else Some ov)"

section \<open>Invariant\<close>

definition al_ok :: "accessList \<Rightarrow> bool" where
  "al_ok al \<longleftrightarrow> (\<forall>a i. al_addresses al a = Some i \<longrightarrow>
     i = -1 \<or> 0 \<le> i \<and> i < int (length (al_slots al)) \<and> al_slots al ! nat i \<noteq> {})"

definition obj_ok :: "stateEnv \<Rightarrow> stateObject \<Rightarrow> bool" where
  "obj_ok env o1 \<longleftrightarrow> so_addrHash o1 = se_keccak env (addr_bytes (so_address o1)) \<and>
     (\<forall>t. so_storageTrie o1 = Some t \<longrightarrow> trie_inv (se_nodes env) (st_trie t))"

text \<open>Every trie of the database can be read, and no two addresses have the same Keccak hash.\<close>

definition env_ok :: "stateEnv \<Rightarrow> bool" where
  "env_ok env \<longleftrightarrow>
     (\<forall>root t. openStorageTrie env root = Inr t \<longrightarrow> trie_inv (se_nodes env) (st_trie t)) \<and>
     inj (\<lambda>a. se_keccak env (addr_bytes a))"

definition state_ok :: "stateEnv \<Rightarrow> StateDB \<Rightarrow> bool" where
  "state_ok env s \<longleftrightarrow>
     trie_inv (se_nodes env) (st_trie (sd_trie s)) \<and>
     (\<forall>a o1. sd_stateObjects s a = Some o1 \<longrightarrow> so_address o1 = a \<and> obj_ok env o1) \<and>
     al_ok (sd_accessList s) \<and> sd_stateObjectsDirty s \<subseteq> dom (sd_stateObjects s)"

text \<open>What the operations of a transaction leave alone.\<close>

definition same_base :: "stateEnv \<Rightarrow> StateDB \<Rightarrow> StateDB \<Rightarrow> bool" where
  "same_base env s s' \<longleftrightarrow> sd_snap s' = sd_snap s \<and> stored env s' = stored env s \<and>
     sd_validRevisions s' = sd_validRevisions s \<and> sd_nextRevisionId s' = sd_nextRevisionId s \<and>
     sd_thash s' = sd_thash s \<and> sd_bhash s' = sd_bhash s \<and> sd_txIndex s' = sd_txIndex s"

lemma same_base_refl [simp]: "same_base env s s"
  by (simp add: same_base_def)

lemma same_base_trans: "same_base env s s1 \<Longrightarrow> same_base env s1 s2 \<Longrightarrow> same_base env s s2"
  by (simp add: same_base_def)

text \<open>A read: the view and the journal stay.\<close>

definition quiet :: "stateEnv \<Rightarrow> StateDB \<Rightarrow> StateDB \<Rightarrow> bool" where
  "quiet env s s' \<longleftrightarrow> view env s' = view env s \<and> state_ok env s' \<and> same_base env s s' \<and> sd_journal s' = sd_journal s"

lemma quiet_trans: "quiet env s s1 \<Longrightarrow> quiet env s1 s2 \<Longrightarrow> quiet env s s2"
  by (auto simp: quiet_def intro: same_base_trans)

section \<open>Reading the tries\<close>

lemma trie_read_eq:
  assumes "trie_inv db t" "trie_inv db' t'" "has_value db' t' = has_value db t"
  shows "trie_read db' t' = trie_read db t"
proof
  fix k show "trie_read db' t' k = trie_read db t k"
    using trie_read_iff [OF assms(1), of k] trie_read_iff [OF assms(2), of k] assms(3) by (metis not_Some_eq)
qed

lemma secure_TryGet_ok:
  assumes "trie_inv (se_nodes env) (st_trie st)"
  obtains st' enc where "secure_TryGet env key st = (Inr enc, st')" "or_else enc [] = strie_read env st key"
    "trie_inv (se_nodes env) (st_trie st')" "strie_read env st' = strie_read env st"
proof -
  let ?k = "hashKey env key"
  obtain v t' where t': "TryGet (se_nodes env) ?k (st_trie st) = (Inr v, t')"
    "trie_inv (se_nodes env) t'" "has_value (se_nodes env) t' = has_value (se_nodes env) (st_trie st)"
    using TryGet_ok [OF assms, of ?k] by blast
  have "trie_read (se_nodes env) (st_trie st) ?k = v" using t'(1) by (simp add: trie_read_def)
  moreover have "trie_read (se_nodes env) t' = trie_read (se_nodes env) (st_trie st)"
    by (rule trie_read_eq [OF assms t'(2,3)])
  ultimately show ?thesis
    using t' that [of v "st\<lparr> st_trie := t' \<rparr>"] by (simp add: secure_TryGet_def strie_read_def fun_eq_iff)
qed

lemma empty_storage_trie_inv: "trie_inv db (st_trie (empty_storage_trie env))"
  by (simp add: empty_storage_trie_def trie_inv_def)

text \<open>What loading may change of an object.\<close>

definition loads :: "stateEnv \<Rightarrow> snapshotLayer option \<Rightarrow> hash set \<Rightarrow> stateObject \<Rightarrow> stateObject \<Rightarrow> bool" where
  "loads env snap destructs o1 o2 \<longleftrightarrow>
     oview env snap destructs o2 = oview env snap destructs o1 \<and> so_address o2 = so_address o1 \<and>
     so_addrHash o2 = so_addrHash o1 \<and> obj_ok env o2 \<and> so_dirtyStorage o2 = so_dirtyStorage o1"

lemma so_setError_fields [simp]:
  "so_address (so_setError e o1) = so_address o1" "so_addrHash (so_setError e o1) = so_addrHash o1"
  "so_account (so_setError e o1) = so_account o1" "so_storageTrie (so_setError e o1) = so_storageTrie o1"
  "so_code (so_setError e o1) = so_code o1" "so_originStorage (so_setError e o1) = so_originStorage o1"
  "so_dirtyStorage (so_setError e o1) = so_dirtyStorage o1" "so_selfDestructed (so_setError e o1) = so_selfDestructed o1"
  "so_deleted (so_setError e o1) = so_deleted o1" "so_created (so_setError e o1) = so_created o1"
  "so_dirtyCode (so_setError e o1) = so_dirtyCode o1"
  by (simp_all add: so_setError_def)

lemma fst_getStorageTrie_cong:
  "so_storageTrie o2 = so_storageTrie o1 \<Longrightarrow> GetStorageRoot (so_account o2) = GetStorageRoot (so_account o1) \<Longrightarrow>
   fst (getStorageTrie env o2) = fst (getStorageTrie env o1)"
  by (auto simp: getStorageTrie_def split: option.splits sum.splits)

lemma getStorageTrie_ok:
  assumes "env_ok env" "obj_ok env o1"
  shows "trie_inv (se_nodes env) (st_trie (fst (getStorageTrie env o1)))"
    "\<exists>e. snd (getStorageTrie env o1) = o1\<lparr> so_dbErr := e, so_storageTrie := Some (fst (getStorageTrie env o1)) \<rparr>"
proof -
  show "trie_inv (se_nodes env) (st_trie (fst (getStorageTrie env o1)))"
    using assms
    by (auto simp: getStorageTrie_def env_ok_def obj_ok_def empty_storage_trie_inv split: option.splits sum.splits)
  show "\<exists>e. snd (getStorageTrie env o1) = o1\<lparr> so_dbErr := e, so_storageTrie := Some (fst (getStorageTrie env o1)) \<rparr>"
    by (cases o1) (auto simp: getStorageTrie_def so_setError_def split: option.splits sum.splits)
qed

text \<open>The value of a slot does not depend on whether the trie is open, its nodes are loaded or other slots are cached.\<close>

lemma committed_cached:
  assumes "so_originStorage o2 = (so_originStorage o1)(key \<mapsto> committed env snap destructs o1 key)"
    "so_addrHash o2 = so_addrHash o1"
    "\<And>k. strie_read env (fst (getStorageTrie env o2)) k = strie_read env (fst (getStorageTrie env o1)) k"
  shows "committed env snap destructs o2 = committed env snap destructs o1"
  using assms by (auto simp: committed_def slot_base_def Let_def fun_eq_iff split: option.splits)

lemma committed_cong:
  assumes "so_originStorage o2 = so_originStorage o1" "so_addrHash o2 = so_addrHash o1"
    "\<And>k. strie_read env (fst (getStorageTrie env o2)) k = strie_read env (fst (getStorageTrie env o1)) k"
  shows "committed env snap destructs o2 = committed env snap destructs o1"
  using assms by (auto simp: committed_def slot_base_def Let_def fun_eq_iff split: option.splits)

lemma fst_cache_slot: "fst (cache_slot key enc o1) = fst (decode_slot enc)"
  by (simp add: cache_slot_def Let_def split: prod.splits)

lemma snd_cache_slot:
  "\<exists>e. snd (cache_slot key enc o1) =
     o1\<lparr> so_originStorage := (so_originStorage o1)(key \<mapsto> fst (decode_slot enc)), so_dbErr := e \<rparr>"
  by (cases o1) (auto simp: cache_slot_def Let_def so_setError_def split: prod.splits option.splits)

lemma load_slot_ok:
  assumes "env_ok env" "obj_ok env o1"
  shows "fst (load_slot env key o1) = fst (decode_slot (strie_read env (fst (getStorageTrie env o1)) (hash_bytes key)))"
    "\<exists>t e. snd (load_slot env key o1) =
       o1\<lparr> so_originStorage := (so_originStorage o1)(key \<mapsto> fst (load_slot env key o1)), so_storageTrie := Some t, so_dbErr := e \<rparr> \<and>
       trie_inv (se_nodes env) (st_trie t) \<and> strie_read env t = strie_read env (fst (getStorageTrie env o1))"
proof -
  let ?t = "fst (getStorageTrie env o1)"
  obtain t0 e where g: "getStorageTrie env o1 = (t0, o1\<lparr> so_dbErr := e, so_storageTrie := Some t0 \<rparr>)"
    using getStorageTrie_ok(2) [OF assms] by (metis prod.collapse)
  obtain t' enc where t': "secure_TryGet env (hash_bytes key) ?t = (Inr enc, t')"
    "or_else enc [] = strie_read env ?t (hash_bytes key)" "trie_inv (se_nodes env) (st_trie t')" "strie_read env t' = strie_read env ?t"
    using secure_TryGet_ok [OF getStorageTrie_ok(1) [OF assms], of "hash_bytes key"] by blast
  have l: "load_slot env key o1 = cache_slot key (or_else enc []) (o1\<lparr> so_dbErr := e, so_storageTrie := Some t' \<rparr>)"
    using t'(1) by (simp add: load_slot_def g)
  show "fst (load_slot env key o1) = fst (decode_slot (strie_read env ?t (hash_bytes key)))"
    unfolding l by (simp add: fst_cache_slot t'(2))
  obtain e' where "snd (load_slot env key o1) =
      o1\<lparr> so_originStorage := (so_originStorage o1)(key \<mapsto> fst (load_slot env key o1)), so_storageTrie := Some t', so_dbErr := e' \<rparr>"
    using snd_cache_slot [of key "or_else enc []" "o1\<lparr> so_dbErr := e, so_storageTrie := Some t' \<rparr>"]
    unfolding l by (cases o1) (auto simp: fst_cache_slot)
  then show "\<exists>t e. snd (load_slot env key o1) =
       o1\<lparr> so_originStorage := (so_originStorage o1)(key \<mapsto> fst (load_slot env key o1)), so_storageTrie := Some t, so_dbErr := e \<rparr> \<and>
       trie_inv (se_nodes env) (st_trie t) \<and> strie_read env t = strie_read env (fst (getStorageTrie env o1))"
    using t'(3,4) by blast
qed

lemma loadsI:
  assumes "obj_ok env o1" "so_originStorage o2 = (so_originStorage o1)(key \<mapsto> committed env snap destructs o1 key)"
    "o2 = o1\<lparr> so_originStorage := so_originStorage o2, so_storageTrie := so_storageTrie o2, so_dbErr := so_dbErr o2 \<rparr>"
    "\<And>k. strie_read env (fst (getStorageTrie env o2)) k = strie_read env (fst (getStorageTrie env o1)) k"
    "\<And>t. so_storageTrie o2 = Some t \<Longrightarrow> trie_inv (se_nodes env) (st_trie t)"
  shows "loads env snap destructs o1 o2"
proof -
  have f: "so_address o2 = so_address o1" "so_addrHash o2 = so_addrHash o1" "so_account o2 = so_account o1"
    "so_code o2 = so_code o1" "so_dirtyStorage o2 = so_dirtyStorage o1" "so_selfDestructed o2 = so_selfDestructed o1"
    "so_deleted o2 = so_deleted o1" "so_created o2 = so_created o1"
    by (subst assms(3), simp)+
  have "committed env snap destructs o2 = committed env snap destructs o1"
    by (rule committed_cached [OF assms(2) f(2) assms(4)])
  moreover have "so_CodeHash env o2 = so_CodeHash env o1" by (simp add: so_CodeHash_def f)
  ultimately have "oview env snap destructs o2 = oview env snap destructs o1"
    unfolding oview_def code_of_def f by (simp cong: option.case_cong)
  then show ?thesis using f assms(1,5) by (simp add: loads_def obj_ok_def)
qed

lemma load_slot_loads:
  assumes "env_ok env" "obj_ok env o1" "fst (load_slot env key o1) = committed env snap destructs o1 key"
  shows "loads env snap destructs o1 (snd (load_slot env key o1))"
proof -
  obtain t e where s: "snd (load_slot env key o1) =
      o1\<lparr> so_originStorage := (so_originStorage o1)(key \<mapsto> fst (load_slot env key o1)), so_storageTrie := Some t, so_dbErr := e \<rparr>"
    "trie_inv (se_nodes env) (st_trie t)" "strie_read env t = strie_read env (fst (getStorageTrie env o1))"
    using load_slot_ok(2) [OF assms(1,2)] by blast
  show ?thesis
    by (rule loadsI [OF assms(2), where key = key]) (use s assms(3) in \<open>auto simp: getStorageTrie_def\<close>)
qed

lemma cache_slot_loads:
  assumes "obj_ok env o1" "fst (decode_slot enc) = committed env snap destructs o1 key"
  shows "loads env snap destructs o1 (snd (cache_slot key enc o1))"
proof -
  obtain e where s: "snd (cache_slot key enc o1) =
      o1\<lparr> so_originStorage := (so_originStorage o1)(key \<mapsto> fst (decode_slot enc)), so_dbErr := e \<rparr>"
    using snd_cache_slot by blast
  have g: "fst (getStorageTrie env (snd (cache_slot key enc o1))) = fst (getStorageTrie env o1)"
    by (rule fst_getStorageTrie_cong) (simp_all add: s)
  show ?thesis
    by (rule loadsI [OF assms(1), where key = key]) (use s assms g in \<open>auto simp: obj_ok_def\<close>)
qed

lemma loads_refl: "obj_ok env o1 \<Longrightarrow> loads env snap destructs o1 o1"
  by (simp add: loads_def)

lemma so_GetCommittedState_ok:
  assumes "env_ok env" "obj_ok env o1"
  shows "fst (so_GetCommittedState env s key o1) = committed env (sd_snap s) (sd_snapDestructs s) o1 key"
    "loads env (sd_snap s) (sd_snapDestructs s) o1 (snd (so_GetCommittedState env s key o1))"
proof -
  note ls = load_slot_ok(1) [OF assms, of key]
  show f: "fst (so_GetCommittedState env s key o1) = committed env (sd_snap s) (sd_snapDestructs s) o1 key"
    by (auto simp: so_GetCommittedState_def committed_def slot_base_def Let_def ls fst_cache_slot split: option.splits sum.splits)
  show "loads env (sd_snap s) (sd_snapDestructs s) o1 (snd (so_GetCommittedState env s key o1))"
  proof (cases "snd (so_GetCommittedState env s key o1) = o1")
    case True
    then show ?thesis using loads_refl [OF assms(2)] by simp
  next
    case False
    then consider "so_GetCommittedState env s key o1 = load_slot env key o1"
      | enc where "so_GetCommittedState env s key o1 = cache_slot key enc o1"
      by (auto simp: so_GetCommittedState_def split: option.splits sum.splits if_splits)
    then show ?thesis
      using f load_slot_loads [OF assms] cache_slot_loads [OF assms(2)] by cases (simp_all add: fst_cache_slot)
  qed
qed

lemma so_GetState_ok:
  assumes "env_ok env" "obj_ok env o1"
  shows "fst (so_GetState env s key o1) = ov_state (oview env (sd_snap s) (sd_snapDestructs s) o1) key"
    "loads env (sd_snap s) (sd_snapDestructs s) o1 (snd (so_GetState env s key o1))"
proof -
  show "fst (so_GetState env s key o1) = ov_state (oview env (sd_snap s) (sd_snapDestructs s) o1) key"
    by (simp add: so_GetState_def oview_def so_GetCommittedState_ok(1) [OF assms] split: option.split)
  show "loads env (sd_snap s) (sd_snapDestructs s) o1 (snd (so_GetState env s key o1))"
    by (simp add: so_GetState_def so_GetCommittedState_ok(2) [OF assms] loads_refl [OF assms(2)] split: option.split)
qed

lemma so_Code_ok:
  assumes "obj_ok env o1"
  shows "fst (so_Code env o1) = code_of env o1" "loads env snap destructs o1 (snd (so_Code env o1))"
    "so_account (snd (so_Code env o1)) = so_account o1"
    "so_code (snd (so_Code env o1)) = None \<Longrightarrow> code_at env (so_CodeHash env o1) = None"
proof -
  have g: "fst (getStorageTrie env (o1\<lparr> so_code := c \<rparr>)) = fst (getStorageTrie env o1)"
    "fst (getStorageTrie env (so_setError e o1)) = fst (getStorageTrie env o1)" for c e
    by (rule fst_getStorageTrie_cong; simp)+
  have c: "committed env snap destructs (o1\<lparr> so_code := c \<rparr>) = committed env snap destructs o1"
    "committed env snap destructs (so_setError e o1) = committed env snap destructs o1" for c e
    by (rule committed_cong; simp add: g)+
  show "fst (so_Code env o1) = code_of env o1"
    by (auto simp: so_Code_def code_of_def code_at_def split: option.splits)
  show "so_account (snd (so_Code env o1)) = so_account o1"
    by (auto simp: so_Code_def split: option.splits)
  show "so_code (snd (so_Code env o1)) = None \<Longrightarrow> code_at env (so_CodeHash env o1) = None"
    by (auto simp: so_Code_def code_at_def split: option.splits if_splits)
  show "loads env snap destructs o1 (snd (so_Code env o1))"
    unfolding so_Code_def using assms
    by (simp add: loads_def oview_def code_of_def code_at_def c so_CodeHash_def obj_ok_def split: option.split cong: option.case_cong)
qed

end
