(* ===== verification/State_Revert.thy ===== *)
theory State_Revert
  imports State_View
begin

text \<open>
  Reverting to a snapshot. Undoing a journal entry is a function \<open>vundo\<close> on views; every operation appends entries whose
  undoing gives back the view from before (\<open>logged\<close>), so undoing the journal back to a snapshot restores what can be
  read, whatever was loaded in between.
\<close>

declare option.case_cong [cong]

section \<open>Objects in memory\<close>

lemma state_okD:
  assumes "state_ok env s"
  shows "trie_inv (se_nodes env) (st_trie (sd_trie s))" "al_ok (sd_accessList s)"
    "sd_stateObjectsDirty s \<subseteq> dom (sd_stateObjects s)"
    "sd_stateObjects s a = Some o1 \<Longrightarrow> so_address o1 = a \<and> obj_ok env o1"
  using assms by (auto simp: state_ok_def)

lemma newObject_ok: "obj_ok env (newObject env a acc)" "so_address (newObject env a acc) = a"
  by (simp_all add: newObject_def obj_ok_def)

lemma resolved_ok:
  "state_ok env s \<Longrightarrow> resolved env s a = Some o1 \<Longrightarrow> obj_ok env o1 \<and> so_address o1 = a"
  by (auto simp: resolved_def newObject_ok dest: state_okD(4) split: option.splits)

lemma live_view:
  "live (view env s) a =
     (case resolved env s a of
        None \<Rightarrow> None
      | Some o1 \<Rightarrow> if so_deleted o1 then None else Some (oview env (sd_snap s) (sd_snapDestructs s) o1))"
  by (auto simp: live_def view_def oview_def split: option.splits)

lemma setStateObject_fields [simp]:
  "sd_trie (setStateObject o1 s) = sd_trie s" "sd_snap (setStateObject o1 s) = sd_snap s"
  "sd_snapDestructs (setStateObject o1 s) = sd_snapDestructs s"
  "sd_stateObjects (setStateObject o1 s) = (sd_stateObjects s)(so_address o1 \<mapsto> o1)"
  "sd_stateObjectsDirty (setStateObject o1 s) = sd_stateObjectsDirty s" "sd_refund (setStateObject o1 s) = sd_refund s"
  "sd_thash (setStateObject o1 s) = sd_thash s" "sd_bhash (setStateObject o1 s) = sd_bhash s"
  "sd_txIndex (setStateObject o1 s) = sd_txIndex s"
  "sd_logs (setStateObject o1 s) = sd_logs s" "sd_logSize (setStateObject o1 s) = sd_logSize s"
  "sd_preimages (setStateObject o1 s) = sd_preimages s" "sd_accessList (setStateObject o1 s) = sd_accessList s"
  "sd_transientStorage (setStateObject o1 s) = sd_transientStorage s" "sd_journal (setStateObject o1 s) = sd_journal s"
  "sd_validRevisions (setStateObject o1 s) = sd_validRevisions s"
  "sd_nextRevisionId (setStateObject o1 s) = sd_nextRevisionId s"
  by (simp_all add: setStateObject_def)

text \<open>The stored accounts depend on the trie and the snapshot layer only.\<close>

lemma stored_cong: "sd_snap s' = sd_snap s \<Longrightarrow> strie_read env (sd_trie s') = strie_read env (sd_trie s) \<Longrightarrow> stored env s' = stored env s"
  by (simp add: stored_def snap_lookup_def fun_eq_iff)

lemma same_baseI:
  assumes "sd_snap s' = sd_snap s" "sd_trie s' = sd_trie s" "sd_validRevisions s' = sd_validRevisions s"
    "sd_nextRevisionId s' = sd_nextRevisionId s" "sd_thash s' = sd_thash s" "sd_bhash s' = sd_bhash s" "sd_txIndex s' = sd_txIndex s"
  shows "same_base env s s'"
  using assms stored_cong [of s' s env] by (simp add: same_base_def)

lemma same_base_set [simp]: "same_base env s (setStateObject o1 s)"
  by (rule same_baseI) simp_all

lemma state_ok_set:
  "state_ok env s \<Longrightarrow> obj_ok env o1 \<Longrightarrow> state_ok env (setStateObject o1 s)"
  by (auto simp: state_ok_def)

lemma resolved_set: "resolved env (setStateObject o1 s) = (resolved env s)(so_address o1 \<mapsto> o1)"
  using same_base_set [of env s o1] by (auto simp: resolved_def fun_eq_iff same_base_def split: option.splits)

lemma resolved_cong:
  "sd_stateObjects s' = sd_stateObjects s \<Longrightarrow> stored env s' = stored env s \<Longrightarrow> resolved env s' = resolved env s"
  by (simp add: resolved_def fun_eq_iff)

lemma view_set:
  "view env (setStateObject o1 s) =
     (view env s)\<lparr> vw_objs := (vw_objs (view env s))(so_address o1 \<mapsto> oview env (sd_snap s) (sd_snapDestructs s) o1) \<rparr>"
  by (auto simp: view_def resolved_set GetLogs_def GetTransientState_def)

text \<open>Putting back an object in which something was loaded is a read.\<close>

lemma quiet_set:
  assumes "state_ok env s" "resolved env s a = Some o1" "loads env (sd_snap s) (sd_snapDestructs s) o1 o2"
  shows "quiet env s (setStateObject o2 s)"
proof -
  have a: "so_address o2 = a" "obj_ok env o2" using resolved_ok [OF assms(1,2)] assms(3) by (auto simp: loads_def)
  have "vw_objs (view env s) a = Some (oview env (sd_snap s) (sd_snapDestructs s) o2)"
    using assms(2,3) by (simp add: view_def loads_def)
  then have "view env (setStateObject o2 s) = view env s" unfolding view_set a by (simp add: fun_upd_idem)
  then show ?thesis using a state_ok_set [OF assms(1)] by (simp add: quiet_def)
qed

text \<open>Reading the account trie.\<close>

lemma quiet_trie:
  assumes "state_ok env s" "trie_inv (se_nodes env) (st_trie st)" "strie_read env st = strie_read env (sd_trie s)"
  shows "quiet env s (s\<lparr> sd_trie := st \<rparr>)"
proof -
  have "stored env (s\<lparr> sd_trie := st \<rparr>) = stored env s" by (rule stored_cong) (simp_all add: assms(3))
  moreover have "resolved env (s\<lparr> sd_trie := st \<rparr>) = resolved env s"
    by (rule resolved_cong) (simp_all add: calculation)
  ultimately show ?thesis using assms(1,2)
    by (simp add: quiet_def view_def GetLogs_def GetTransientState_def same_base_def state_ok_def)
qed

lemma quiet_refl: "state_ok env s \<Longrightarrow> quiet env s s"
  by (simp add: quiet_def)

definition found_object :: "stateEnv \<Rightarrow> address \<Rightarrow> StateDB \<Rightarrow> stateObject option \<times> StateDB \<Rightarrow> bool" where
  "found_object env a s r \<longleftrightarrow> fst r = resolved env s a \<and> quiet env s (snd r) \<and> sd_stateObjects (snd r) a = resolved env s a"

lemma found_new:
  assumes "state_ok env s" "quiet env s s1" "sd_stateObjects s a = None" "stored env s a = Some acc"
  shows "found_object env a s (Some (newObject env a acc), setStateObject (newObject env a acc) s1)"
proof -
  let ?o = "newObject env a acc"
  have r: "resolved env s a = Some ?o" using assms(3,4) by (simp add: resolved_def)
  have q: "state_ok env s1" "view env s1 = view env s" "same_base env s s1" using assms(2) by (auto simp: quiet_def)
  have snap: "sd_snap s1 = sd_snap s" "sd_snapDestructs s1 = sd_snapDestructs s"
    using q by (auto simp: same_base_def view_def)
  have "vw_objs (view env s1) a = Some (oview env (sd_snap s1) (sd_snapDestructs s1) ?o)"
    unfolding q(2) snap by (simp add: view_def r)
  then have "view env (setStateObject ?o s1) = view env s1"
    unfolding view_set by (simp add: newObject_ok fun_upd_idem)
  then have "quiet env s1 (setStateObject ?o s1)"
    using q(1) state_ok_set newObject_ok(1) by (simp add: quiet_def)
  then show ?thesis using assms(2) r by (auto simp: found_object_def newObject_ok intro: quiet_trans)
qed

lemma getDeletedStateObject_ok:
  assumes "state_ok env s"
  shows "found_object env a s (getDeletedStateObject env a s)"
proof (cases "sd_stateObjects s a")
  case (Some o1)
  then show ?thesis
    using assms by (simp add: found_object_def getDeletedStateObject_def resolved_def quiet_refl)
next
  case None
  obtain st enc where g: "secure_TryGet env (addr_bytes a) (sd_trie s) = (Inr enc, st)"
    "or_else enc [] = strie_read env (sd_trie s) (addr_bytes a)"
    "trie_inv (se_nodes env) (st_trie st)" "strie_read env st = strie_read env (sd_trie s)"
    using secure_TryGet_ok [OF state_okD(1) [OF assms], of "addr_bytes a"] by metis
  have q: "quiet env s (s\<lparr> sd_trie := st \<rparr>)" by (rule quiet_trie [OF assms g(3,4)])
  have missing: "found_object env a s (None, s1)" if "quiet env s s1" "stored env s a = None" "sd_stateObjects s1 a = None" for s1
    using that None by (simp add: found_object_def resolved_def)
  show ?thesis
  proof (cases "snap_lookup env a s")
    case (Some r)
    then have "stored env s a = r" by (simp add: stored_def)
    then show ?thesis
      using Some None missing [OF quiet_refl [OF assms]] found_new [OF assms quiet_refl [OF assms] None]
      by (cases r) (simp_all add: getDeletedStateObject_def Let_def)
  next
    case snap: None
    let ?enc = "strie_read env (sd_trie s) (addr_bytes a)"
    have st: "stored env s a = (if ?enc = [] then None else se_decode env ?enc)"
      by (simp add: stored_def snap Let_def)
    show ?thesis
    proof (cases "stored env s a")
      case no: None
      have "getDeletedStateObject env a s = (None, s\<lparr> sd_trie := st \<rparr>)"
        using no unfolding st by (auto simp: getDeletedStateObject_def None snap g(1,2) split: if_splits)
      then show ?thesis using missing [OF q no] None by simp
    next
      case (Some acc)
      then have "getDeletedStateObject env a s = (Some (newObject env a acc), setStateObject (newObject env a acc) (s\<lparr> sd_trie := st \<rparr>))"
        unfolding st by (simp add: getDeletedStateObject_def None snap g(1,2) Let_def split: if_splits)
      then show ?thesis using found_new [OF assms q None Some] by simp
    qed
  qed
qed

text \<open>The object that \<open>getStateObject\<close> returns, in terms of the view.\<close>

lemma getStateObject_ok:
  assumes "state_ok env s"
  obtains r s1 where "getStateObject env a s = (r, s1)" "quiet env s s1" "sd_stateObjects s1 a = resolved env s a"
    "r = (case resolved env s a of None \<Rightarrow> None | Some o1 \<Rightarrow> if so_deleted o1 then None else Some o1)"
proof -
  obtain r s1 where d: "getDeletedStateObject env a s = (r, s1)" by fastforce
  then show ?thesis
    using that [of _ s1] getDeletedStateObject_ok [OF assms, of a] by (simp add: getStateObject_def found_object_def)
qed

section \<open>Undoing on views\<close>

definition vobj :: "address \<Rightarrow> (objView \<Rightarrow> objView) \<Rightarrow> stView \<Rightarrow> stView option" where
  "vobj a f V =
     (case live V a of None \<Rightarrow> None | Some ov \<Rightarrow> Some (V\<lparr> vw_objs := (vw_objs V)(a \<mapsto> f ov) \<rparr>))"

definition vset_code :: "stateEnv \<Rightarrow> bytes option \<Rightarrow> hash \<Rightarrow> objView \<Rightarrow> objView" where
  "vset_code env code h ov =
     (if is_program (ov_account ov)
      then ov\<lparr> ov_account := SetCodeHash h (ov_account ov), ov_code := (case code of Some c \<Rightarrow> Some c | None \<Rightarrow> code_at env h) \<rparr>
      else ov)"

fun vrevert :: "stateEnv \<Rightarrow> snapshotLayer option \<Rightarrow> journalEntry \<Rightarrow> stView \<Rightarrow> stView option" where
  "vrevert env snap (createObjectChange a) V =
     Some (V\<lparr> vw_objs := (vw_objs V)(a := None), vw_dirtyObjs := vw_dirtyObjs V - {a} \<rparr>)"
| "vrevert env snap (resetObjectChange prev d) V =
     (let ds = (if \<not> d \<and> snap \<noteq> None then vw_destructs V - {so_addrHash prev} else vw_destructs V) in
      Some (V\<lparr> vw_objs := (vw_objs V)(so_address prev \<mapsto> oview env snap ds prev), vw_destructs := ds \<rparr>))"
| "vrevert env snap (selfDestructChange a prev b) V =
     (case live V a of
        None \<Rightarrow> Some V
      | Some ov \<Rightarrow> Some (V\<lparr> vw_objs := (vw_objs V)(a \<mapsto> ov\<lparr> ov_account := SetBalance_acc b (ov_account ov), ov_selfDestructed := prev \<rparr>) \<rparr>))"
| "vrevert env snap (balanceChange a b) V = vobj a (\<lambda>ov. ov\<lparr> ov_account := SetBalance_acc b (ov_account ov) \<rparr>) V"
| "vrevert env snap (nonceChange a n) V = vobj a (\<lambda>ov. ov\<lparr> ov_account := SetNonce_acc n (ov_account ov) \<rparr>) V"
| "vrevert env snap (storageChange a key v) V = vobj a (\<lambda>ov. ov\<lparr> ov_state := (ov_state ov)(key := v) \<rparr>) V"
| "vrevert env snap (codeChange a code h) V = vobj a (vset_code env code h) V"
| "vrevert env snap (refundChange n) V = Some (V\<lparr> vw_refund := n \<rparr>)"
| "vrevert env snap (addLogChange h) V =
     (if vw_logs V h = [] then None
      else Some (V\<lparr> vw_logs := (vw_logs V)(h := butlast (vw_logs V h)), vw_logSize := vw_logSize V - 1 \<rparr>))"
| "vrevert env snap (addPreimageChange h) V = Some (V\<lparr> vw_preimages := (vw_preimages V)(h := None) \<rparr>)"
| "vrevert env snap (touchChange a) V = Some V"
| "vrevert env snap (accessListAddAccountChange a) V =
     Some (V\<lparr> vw_accessList := al_DeleteAddress a (vw_accessList V) \<rparr>)"
| "vrevert env snap (accessListAddSlotChange a slot) V =
     (case al_DeleteSlot a slot (vw_accessList V) of
        None \<Rightarrow> None | Some al \<Rightarrow> if al_ok al then Some (V\<lparr> vw_accessList := al \<rparr>) else None)"
| "vrevert env snap (transientStorageChange a key v) V =
     Some (V\<lparr> vw_transient := (vw_transient V)(a := (vw_transient V a)(key := v)) \<rparr>)"

definition vundirty :: "journalEntry \<Rightarrow> stView \<Rightarrow> stView" where
  "vundirty ch V =
     (case dirtied ch of
        None \<Rightarrow> V
      | Some a \<Rightarrow> V\<lparr> vw_dirties := (vw_dirties V)(a := if a = ripemd then 0 else vw_dirties V a - 1) \<rparr>)"

fun vundos :: "stateEnv \<Rightarrow> snapshotLayer option \<Rightarrow> journalEntry list \<Rightarrow> stView \<Rightarrow> stView option" where
  "vundos env snap [] V = Some V"
| "vundos env snap (ch # chs) V =
     Option.bind (map_option (vundirty ch) (vrevert env snap ch V)) (vundos env snap chs)"

lemma vundos_append: "vundos env snap (xs @ ys) V = Option.bind (vundos env snap xs V) (vundos env snap ys)"
  by (induction xs arbitrary: V) (auto simp: bind_split)

section \<open>Views of updated states\<close>

lemma stored_upd [simp]:
  "stored env (s\<lparr> sd_refund := x1 \<rparr>) = stored env s" "stored env (s\<lparr> sd_logs := x2 \<rparr>) = stored env s"
  "stored env (s\<lparr> sd_logSize := x3 \<rparr>) = stored env s" "stored env (s\<lparr> sd_preimages := x4 \<rparr>) = stored env s"
  "stored env (s\<lparr> sd_accessList := x5 \<rparr>) = stored env s" "stored env (s\<lparr> sd_transientStorage := x6 \<rparr>) = stored env s"
  "stored env (s\<lparr> sd_journal := x7 \<rparr>) = stored env s" "stored env (s\<lparr> sd_snapDestructs := x8 \<rparr>) = stored env s"
  "stored env (s\<lparr> sd_stateObjects := x9 \<rparr>) = stored env s" "stored env (s\<lparr> sd_stateObjectsDirty := x10 \<rparr>) = stored env s"
  "stored env (s\<lparr> sd_validRevisions := x11 \<rparr>) = stored env s" "stored env (s\<lparr> sd_nextRevisionId := x12 \<rparr>) = stored env s"
  "stored env (setStateObject o1 s) = stored env s"
  by (rule stored_cong; simp)+

lemma resolved_upd [simp]:
  "resolved env (s\<lparr> sd_refund := x1 \<rparr>) = resolved env s" "resolved env (s\<lparr> sd_logs := x2 \<rparr>) = resolved env s"
  "resolved env (s\<lparr> sd_logSize := x3 \<rparr>) = resolved env s" "resolved env (s\<lparr> sd_preimages := x4 \<rparr>) = resolved env s"
  "resolved env (s\<lparr> sd_accessList := x5 \<rparr>) = resolved env s" "resolved env (s\<lparr> sd_transientStorage := x6 \<rparr>) = resolved env s"
  "resolved env (s\<lparr> sd_journal := x7 \<rparr>) = resolved env s" "resolved env (s\<lparr> sd_snapDestructs := x8 \<rparr>) = resolved env s"
  "resolved env (s\<lparr> sd_stateObjectsDirty := x10 \<rparr>) = resolved env s"
  "resolved env (s\<lparr> sd_validRevisions := x11 \<rparr>) = resolved env s" "resolved env (s\<lparr> sd_nextRevisionId := x12 \<rparr>) = resolved env s"
  by (rule resolved_cong; simp)+

lemma view_upd [simp]:
  "view env (s\<lparr> sd_refund := x1 \<rparr>) = (view env s)\<lparr> vw_refund := x1 \<rparr>"
  "view env (s\<lparr> sd_logs := x2 \<rparr>) = (view env s)\<lparr> vw_logs := (\<lambda>h. or_else (x2 h) []) \<rparr>"
  "view env (s\<lparr> sd_logSize := x3 \<rparr>) = (view env s)\<lparr> vw_logSize := x3 \<rparr>"
  "view env (s\<lparr> sd_preimages := x4 \<rparr>) = (view env s)\<lparr> vw_preimages := x4 \<rparr>"
  "view env (s\<lparr> sd_accessList := x5 \<rparr>) = (view env s)\<lparr> vw_accessList := x5 \<rparr>"
  "view env (s\<lparr> sd_transientStorage := x6 \<rparr>) = (view env s)\<lparr> vw_transient := (\<lambda>a k. ts_Get a k x6) \<rparr>"
  "view env (s\<lparr> sd_journal := x7 \<rparr>) = (view env s)\<lparr> vw_dirties := dirties_of x7 \<rparr>"
  "view env (s\<lparr> sd_stateObjectsDirty := x8 \<rparr>) = (view env s)\<lparr> vw_dirtyObjs := x8 \<rparr>"
  "view env (s\<lparr> sd_validRevisions := x9 \<rparr>) = view env s"
  "view env (s\<lparr> sd_nextRevisionId := x10 \<rparr>) = view env s"
  by (simp_all add: view_def GetLogs_def GetTransientState_def)

lemma view_fields [simp]:
  "vw_destructs (view env s) = sd_snapDestructs s" "vw_dirtyObjs (view env s) = sd_stateObjectsDirty s"
  "vw_refund (view env s) = sd_refund s" "vw_logs (view env s) h = GetLogs h s" "vw_logSize (view env s) = sd_logSize s"
  "vw_preimages (view env s) = sd_preimages s" "vw_accessList (view env s) = sd_accessList s"
  "vw_transient (view env s) a k = GetTransientState a k s" "vw_dirties (view env s) = dirties_of (sd_journal s)"
  "vw_objs (view env s) a = map_option (oview env (sd_snap s) (sd_snapDestructs s)) (resolved env s a)"
  by (simp_all add: view_def)

lemma state_ok_upd [simp]:
  "state_ok env (s\<lparr> sd_refund := x1 \<rparr>) = state_ok env s" "state_ok env (s\<lparr> sd_logs := x2 \<rparr>) = state_ok env s"
  "state_ok env (s\<lparr> sd_logSize := x3 \<rparr>) = state_ok env s" "state_ok env (s\<lparr> sd_preimages := x4 \<rparr>) = state_ok env s"
  "state_ok env (s\<lparr> sd_transientStorage := x6 \<rparr>) = state_ok env s" "state_ok env (s\<lparr> sd_journal := x7 \<rparr>) = state_ok env s"
  "state_ok env (s\<lparr> sd_snapDestructs := x8 \<rparr>) = state_ok env s"
  "state_ok env (s\<lparr> sd_validRevisions := x9 \<rparr>) = state_ok env s" "state_ok env (s\<lparr> sd_nextRevisionId := x10 \<rparr>) = state_ok env s"
  by (simp_all add: state_ok_def)

lemma dirty_count_updates:
  "dirty_count (jr_dirties (journal_dirty a j)) b = (if b = a then dirty_count (jr_dirties j) a + 1 else dirty_count (jr_dirties j) b)"
  "dirty_count (jr_dirties (journal_undirty a j)) b = (if b = a then dirty_count (jr_dirties j) a - 1 else dirty_count (jr_dirties j) b)"
  by (auto simp: journal_dirty_def journal_undirty_def dirty_count_def or_else_def Let_def update_conv' delete_conv'
      split: option.splits)

lemma dirties_of_updates [simp]:
  "dirties_of (journal_dirty a j) = (dirties_of j)(a := if a = ripemd then 0 else dirties_of j a + 1)"
  "dirties_of (journal_undirty a j) = (dirties_of j)(a := if a = ripemd then 0 else dirties_of j a - 1)"
  "dirties_of (j\<lparr> jr_entries := es \<rparr>) = dirties_of j"
  by (auto simp: dirties_of_def fun_eq_iff dirty_count_updates)

lemma journal_entries_updates [simp]:
  "jr_entries (journal_dirty a j) = jr_entries j" "jr_entries (journal_undirty a j) = jr_entries j"
  by (simp_all add: journal_dirty_def journal_undirty_def Let_def)

text \<open>The views of changed objects.\<close>

lemma oview_updates:
  "oview env snap ds (so_setBalance b o1) =
     (oview env snap ds o1)\<lparr> ov_account := SetBalance_acc b (ov_account (oview env snap ds o1)) \<rparr>"
  "oview env snap ds (so_setNonce n o1) =
     (oview env snap ds o1)\<lparr> ov_account := SetNonce_acc n (ov_account (oview env snap ds o1)) \<rparr>"
  "oview env snap ds (so_setState key v o1) =
     (oview env snap ds o1)\<lparr> ov_state := (ov_state (oview env snap ds o1))(key := v) \<rparr>"
  "oview env snap ds (o1\<lparr> so_selfDestructed := d \<rparr>) = (oview env snap ds o1)\<lparr> ov_selfDestructed := d \<rparr>"
  "oview env snap ds (snd (so_setCode h code o1)) = vset_code env code h (oview env snap ds o1)"
proof -
  have g: "fst (getStorageTrie env (so_setBalance b o1)) = fst (getStorageTrie env o1)"
    "fst (getStorageTrie env (so_setNonce n o1)) = fst (getStorageTrie env o1)"
    "fst (getStorageTrie env (so_setState key v o1)) = fst (getStorageTrie env o1)"
    "fst (getStorageTrie env (o1\<lparr> so_selfDestructed := d \<rparr>)) = fst (getStorageTrie env o1)"
    "fst (getStorageTrie env (snd (so_setCode h code o1))) = fst (getStorageTrie env o1)"
    by (rule fst_getStorageTrie_cong; simp add: so_setBalance_def so_setNonce_def so_setState_def so_setCode_def)+
  have c: "committed env snap ds (so_setBalance b o1) = committed env snap ds o1"
    "committed env snap ds (so_setNonce n o1) = committed env snap ds o1"
    "committed env snap ds (so_setState key v o1) = committed env snap ds o1"
    "committed env snap ds (o1\<lparr> so_selfDestructed := d \<rparr>) = committed env snap ds o1"
    "committed env snap ds (snd (so_setCode h code o1)) = committed env snap ds o1"
    by (rule committed_cong; (simp add: g)?; (simp add: so_setBalance_def so_setNonce_def so_setState_def so_setCode_def)?)+
  show "oview env snap ds (so_setBalance b o1) =
     (oview env snap ds o1)\<lparr> ov_account := SetBalance_acc b (ov_account (oview env snap ds o1)) \<rparr>"
    "oview env snap ds (so_setNonce n o1) =
     (oview env snap ds o1)\<lparr> ov_account := SetNonce_acc n (ov_account (oview env snap ds o1)) \<rparr>"
    "oview env snap ds (o1\<lparr> so_selfDestructed := d \<rparr>) = (oview env snap ds o1)\<lparr> ov_selfDestructed := d \<rparr>"
    unfolding oview_def c code_of_def so_CodeHash_def by (simp_all add: so_setBalance_def so_setNonce_def)
  show "oview env snap ds (so_setState key v o1) =
     (oview env snap ds o1)\<lparr> ov_state := (ov_state (oview env snap ds o1))(key := v) \<rparr>"
    unfolding oview_def c code_of_def so_CodeHash_def by (auto simp: so_setState_def fun_eq_iff)
  show "oview env snap ds (snd (so_setCode h code o1)) = vset_code env code h (oview env snap ds o1)"
    unfolding oview_def c vset_code_def code_of_def so_CodeHash_def
    by (cases "so_account o1") (auto simp: so_setCode_def or_else_def split: option.splits)
qed

lemma updates_ok [simp]:
  "obj_ok env (so_setBalance b o1) = obj_ok env o1" "obj_ok env (so_setNonce n o1) = obj_ok env o1"
  "obj_ok env (so_setState k v o1) = obj_ok env o1" "obj_ok env (o1\<lparr> so_selfDestructed := d \<rparr>) = obj_ok env o1"
  "obj_ok env (snd (so_setCode h c o1)) = obj_ok env o1"
  "so_address (so_setBalance b o1) = so_address o1" "so_address (so_setNonce n o1) = so_address o1"
  "so_address (so_setState k v o1) = so_address o1" "so_address (snd (so_setCode h c o1)) = so_address o1"
  "so_deleted (so_setBalance b o1) = so_deleted o1" "so_deleted (so_setNonce n o1) = so_deleted o1"
  "so_deleted (so_setState k v o1) = so_deleted o1" "so_deleted (snd (so_setCode h c o1)) = so_deleted o1"
  by (simp_all add: obj_ok_def so_setBalance_def so_setNonce_def so_setState_def so_setCode_def)

text \<open>A destruct mark matters to the account of its hash only.\<close>

lemma oview_destructs:
  assumes "\<And>h. h = so_addrHash o1 \<Longrightarrow> h \<in> ds' \<longleftrightarrow> h \<in> ds"
  shows "oview env snap ds' o1 = oview env snap ds o1"
proof -
  have "committed env snap ds' o1 = committed env snap ds o1"
    using assms by (simp add: committed_def fun_eq_iff)
  then show ?thesis by (simp add: oview_def)
qed

lemma other_hash:
  assumes "env_ok env" "state_ok env s" "resolved env s b = Some o1" "obj_ok env p" "b \<noteq> so_address p"
  shows "so_addrHash o1 \<noteq> so_addrHash p"
  using assms resolved_ok [OF assms(2,3)] by (auto simp: env_ok_def obj_ok_def dest: injD)

section \<open>Undoing implements undoing on views\<close>

definition entry_ok :: "stateEnv \<Rightarrow> (address \<Rightarrow> Account option) \<Rightarrow> journalEntry \<Rightarrow> bool" where
  "entry_ok env st ch \<longleftrightarrow>
     (case ch of createObjectChange a \<Rightarrow> st a = None | resetObjectChange p _ \<Rightarrow> obj_ok env p | _ \<Rightarrow> True)"

text \<open>\<open>s'\<close> is \<open>s\<close> with the view \<open>V\<close>.\<close>

definition becomes :: "stateEnv \<Rightarrow> StateDB \<Rightarrow> StateDB \<Rightarrow> stView \<Rightarrow> bool" where
  "becomes env s s' V \<longleftrightarrow> view env s' = V \<and> state_ok env s' \<and> same_base env s s' \<and> sd_journal s' = sd_journal s"

lemma becomes_simple:
  assumes "state_ok env s" "view env s' = V" "state_ok env s \<Longrightarrow> state_ok env s'" "sd_snap s' = sd_snap s" "sd_trie s' = sd_trie s"
    "sd_validRevisions s' = sd_validRevisions s" "sd_nextRevisionId s' = sd_nextRevisionId s" "sd_thash s' = sd_thash s"
    "sd_bhash s' = sd_bhash s" "sd_txIndex s' = sd_txIndex s" "sd_journal s' = sd_journal s"
  shows "becomes env s s' V"
  using assms by (simp add: becomes_def same_baseI)

lemma revert_live:
  assumes "state_ok env s" "live (view env s) a = Some ov" "\<And>o1. obj_ok env (f o1) = obj_ok env o1"
    "\<And>o1. so_address (f o1) = so_address o1"
    "\<And>o1. oview env (sd_snap s) (sd_snapDestructs s) (f o1) = F (oview env (sd_snap s) (sd_snapDestructs s) o1)"
  obtains o1 s1 where "getStateObject env a s = (Some o1, s1)"
    "becomes env s (setStateObject (f o1) s1) ((view env s)\<lparr> vw_objs := (vw_objs (view env s))(a \<mapsto> F ov) \<rparr>)"
proof -
  obtain r s1 where g: "getStateObject env a s = (r, s1)" "quiet env s s1"
    "r = (case resolved env s a of None \<Rightarrow> None | Some o1 \<Rightarrow> if so_deleted o1 then None else Some o1)"
    using getStateObject_ok [OF assms(1), of a] by metis
  obtain o1 where o1: "resolved env s a = Some o1" "\<not> so_deleted o1" "ov = oview env (sd_snap s) (sd_snapDestructs s) o1"
    using assms(2) unfolding live_view by (auto split: option.splits if_splits)
  have q: "state_ok env s1" "view env s1 = view env s" "same_base env s s1" "sd_journal s1 = sd_journal s"
    using g(2) by (auto simp: quiet_def)
  have snap: "sd_snap s1 = sd_snap s" "sd_snapDestructs s1 = sd_snapDestructs s"
    using q(2,3) view_fields(1) by (auto simp: same_base_def) (metis view_fields(1))+
  have a: "so_address (f o1) = a" "obj_ok env (f o1)" using resolved_ok [OF assms(1) o1(1)] assms(3,4) by auto
  have "view env (setStateObject (f o1) s1) = (view env s)\<lparr> vw_objs := (vw_objs (view env s))(a \<mapsto> F ov) \<rparr>"
    unfolding view_set q(2) snap a(1) assms(5) o1(3) by simp
  then have "becomes env s (setStateObject (f o1) s1) ((view env s)\<lparr> vw_objs := (vw_objs (view env s))(a \<mapsto> F ov) \<rparr>)"
    using q a(2) same_base_trans [OF q(3) same_base_set] by (simp add: becomes_def state_ok_set)
  then show ?thesis using that g(1,3) o1(1,2) by simp
qed

lemma revert_object_ok:
  assumes "state_ok env s" "vobj a F (view env s) = Some V" "\<And>o1. obj_ok env (f o1) = obj_ok env o1"
    "\<And>o1. so_address (f o1) = so_address o1"
    "\<And>o1. oview env (sd_snap s) (sd_snapDestructs s) (f o1) = F (oview env (sd_snap s) (sd_snapDestructs s) o1)"
  shows "\<exists>s'. revert_object env a f s = Some s' \<and> becomes env s s' V"
proof -
  obtain ov where ov: "live (view env s) a = Some ov" "V = (view env s)\<lparr> vw_objs := (vw_objs (view env s))(a \<mapsto> F ov) \<rparr>"
    using assms(2) by (auto simp: vobj_def split: option.splits)
  show ?thesis
    by (rule revert_live [OF assms(1) ov(1) assms(3-5)]) (simp_all add: revert_object_def ov(2))
qed

lemma revert_create_ok:
  assumes "state_ok env s" "stored env s a = None"
  shows "becomes env s (s\<lparr> sd_stateObjects := (sd_stateObjects s)(a := None), sd_stateObjectsDirty := sd_stateObjectsDirty s - {a} \<rparr>)
    ((view env s)\<lparr> vw_objs := (vw_objs (view env s))(a := None), vw_dirtyObjs := vw_dirtyObjs (view env s) - {a} \<rparr>)"
proof (rule becomes_simple [OF assms(1)])
  let ?s = "s\<lparr> sd_stateObjects := (sd_stateObjects s)(a := None), sd_stateObjectsDirty := sd_stateObjectsDirty s - {a} \<rparr>"
  have "resolved env ?s = (resolved env s)(a := None)" using assms(2) by (auto simp: resolved_def fun_eq_iff)
  then show "view env ?s = (view env s)\<lparr> vw_objs := (vw_objs (view env s))(a := None), vw_dirtyObjs := vw_dirtyObjs (view env s) - {a} \<rparr>"
    by (auto simp: view_def GetLogs_def GetTransientState_def fun_eq_iff)
  show "state_ok env s \<Longrightarrow> state_ok env ?s" by (auto simp: state_ok_def)
qed simp_all

text \<open>Changing the destruct mark of the account whose object is replaced.\<close>

lemma view_set_destructs:
  assumes "env_ok env" "state_ok env s" "obj_ok env p" "\<And>h. h \<noteq> so_addrHash p \<Longrightarrow> h \<in> ds \<longleftrightarrow> h \<in> sd_snapDestructs s"
  shows "view env ((setStateObject p s)\<lparr> sd_snapDestructs := ds \<rparr>) =
    (view env s)\<lparr> vw_objs := (vw_objs (view env s))(so_address p \<mapsto> oview env (sd_snap s) ds p), vw_destructs := ds \<rparr>"
proof -
  have "map_option (oview env (sd_snap s) ds) (resolved env s b) = map_option (oview env (sd_snap s) (sd_snapDestructs s)) (resolved env s b)"
    if b: "b \<noteq> so_address p" for b
  proof (cases "resolved env s b")
    case (Some o1)
    have "so_addrHash o1 \<noteq> so_addrHash p" by (rule other_hash [OF assms(1,2) Some assms(3) b])
    then have "oview env (sd_snap s) ds o1 = oview env (sd_snap s) (sd_snapDestructs s) o1"
      using oview_destructs [of o1 ds "sd_snapDestructs s"] assms(4) by simp
    then show ?thesis using Some by simp
  qed simp
  then show ?thesis
    by (auto simp: view_def resolved_set GetLogs_def GetTransientState_def fun_eq_iff)
qed

lemma revert_reset_ok:
  assumes "env_ok env" "state_ok env s" "obj_ok env p" "vrevert env (sd_snap s) (resetObjectChange p d) (view env s) = Some V"
  shows "\<exists>s'. revert_entry env (resetObjectChange p d) s = Some s' \<and> becomes env s s' V"
proof -
  let ?ds = "if \<not> d \<and> sd_snap s \<noteq> None then sd_snapDestructs s - {so_addrHash p} else sd_snapDestructs s"
  have e: "revert_entry env (resetObjectChange p d) s = Some ((setStateObject p s)\<lparr> sd_snapDestructs := ?ds \<rparr>)"
    by (auto simp: setStateObject_def)
  have V: "V = (view env s)\<lparr> vw_objs := (vw_objs (view env s))(so_address p \<mapsto> oview env (sd_snap s) ?ds p), vw_destructs := ?ds \<rparr>"
    using assms(4) by (auto simp: Let_def)
  have "view env ((setStateObject p s)\<lparr> sd_snapDestructs := ?ds \<rparr>) = V"
    unfolding V by (rule view_set_destructs [OF assms(1-3)]) auto
  then show ?thesis unfolding e using assms(2,3) by (auto intro!: becomes_simple simp: state_ok_set)
qed

lemma revert_log_ok:
  assumes "state_ok env s" "vrevert env snap (addLogChange h) (view env s) = Some V"
  shows "\<exists>s'. revert_entry env (addLogChange h) s = Some s' \<and> becomes env s s' V"
proof -
  let ?logs = "GetLogs h s"
  have ne: "?logs \<noteq> []" and V: "V = (view env s)\<lparr> vw_logs := (vw_logs (view env s))(h := butlast ?logs), vw_logSize := sd_logSize s - 1 \<rparr>"
    using assms(2) by (auto split: if_splits)
  let ?new = "if length ?logs = 1 then (sd_logs s)(h := None) else (sd_logs s)(h \<mapsto> butlast ?logs)"
  have one: "butlast ?logs = []" if "length ?logs = 1" using that by (cases ?logs) auto
  have "(\<lambda>k. or_else (?new k) []) = (vw_logs (view env s))(h := butlast ?logs)"
    using one by (auto simp: fun_eq_iff GetLogs_def or_else_def)
  then have "view env (s\<lparr> sd_logs := ?new, sd_logSize := sd_logSize s - 1 \<rparr>) = V" by (simp add: V)
  then show ?thesis using ne assms(1) by (auto intro!: becomes_simple)
qed

lemma al_ok_DeleteAddress: "al_ok al \<Longrightarrow> al_ok (al_DeleteAddress a al)"
  by (auto simp: al_ok_def al_DeleteAddress_def split: if_splits)

lemma ts_Get_Set: "ts_Get a k (ts_Set a' k' v t) = (if a = a' \<and> k = k' then v else ts_Get a k t)"
  by (auto simp: ts_Get_def ts_Set_def or_else_def split: option.splits)

lemma revert_entry_ok:
  assumes env: "env_ok env" and s: "state_ok env s" "entry_ok env (stored env s) ch"
    and V: "vrevert env (sd_snap s) ch (view env s) = Some V"
  shows "\<exists>s'. revert_entry env ch s = Some s' \<and> becomes env s s' V"
proof (cases ch)
  case (createObjectChange a)
  then show ?thesis using revert_create_ok [OF s(1), of a] s(2) V by (auto simp: entry_ok_def)
next
  case (resetObjectChange p d)
  then have "obj_ok env p" using s(2) by (simp add: entry_ok_def)
  then show ?thesis using revert_reset_ok [OF env s(1) _ V [unfolded resetObjectChange]] resetObjectChange by metis
next
  case (selfDestructChange a prev b)
  let ?F = "\<lambda>ov. ov\<lparr> ov_account := SetBalance_acc b (ov_account ov), ov_selfDestructed := prev \<rparr>"
  show ?thesis
  proof (cases "live (view env s) a")
    case None
    obtain r s1 where g: "getStateObject env a s = (r, s1)" "quiet env s s1"
      "r = (case resolved env s a of None \<Rightarrow> None | Some o1 \<Rightarrow> if so_deleted o1 then None else Some o1)"
      using getStateObject_ok [OF s(1), of a] by metis
    then have "r = None" using None unfolding live_view by (auto split: option.splits if_splits)
    then show ?thesis using g(1,2) V None by (simp add: selfDestructChange becomes_def quiet_def)
  next
    case (Some ov)
    show ?thesis
      by (rule revert_live [OF s(1) Some, where F = ?F and f = "\<lambda>o1. so_setBalance b (o1\<lparr> so_selfDestructed := prev \<rparr>)"])
        (use V Some in \<open>simp_all add: selfDestructChange oview_updates\<close>)
  qed
next
  case (balanceChange a b)
  show ?thesis
    unfolding balanceChange revert_entry.simps
    by (rule revert_object_ok [OF s(1) V [unfolded balanceChange vrevert.simps]]) (simp_all add: oview_updates)
next
  case (nonceChange a n)
  show ?thesis
    unfolding nonceChange revert_entry.simps
    by (rule revert_object_ok [OF s(1) V [unfolded nonceChange vrevert.simps]]) (simp_all add: oview_updates)
next
  case (storageChange a k v)
  show ?thesis
    unfolding storageChange revert_entry.simps
    by (rule revert_object_ok [OF s(1) V [unfolded storageChange vrevert.simps]]) (simp_all add: oview_updates)
next
  case (codeChange a c h)
  show ?thesis
    unfolding codeChange revert_entry.simps
    by (rule revert_object_ok [OF s(1) V [unfolded codeChange vrevert.simps]]) (simp_all add: oview_updates)
next
  case (addLogChange h)
  then show ?thesis using revert_log_ok [OF s(1) V [unfolded addLogChange]] by simp
next
  case (accessListAddSlotChange a slot)
  then show ?thesis using V s(1)
    by (auto intro!: becomes_simple simp: state_ok_def split: option.splits if_splits)
next
  case (transientStorageChange a k v)
  then show ?thesis using V s(1)
    by (auto intro!: becomes_simple simp: setTransientState_def ts_Get_Set GetTransientState_def fun_eq_iff)
qed (use V s(1) in \<open>auto intro!: becomes_simple simp: state_ok_def al_ok_DeleteAddress\<close>)

text \<open>Undoing a list of entries, last change first; only the dirty counts of the journal change.\<close>

lemma undo_entry_ok:
  assumes "env_ok env" "state_ok env s" "entry_ok env (stored env s) ch" "vrevert env (sd_snap s) ch (view env s) = Some V"
  shows "\<exists>s'. undo_entry env ch s = Some s' \<and> view env s' = vundirty ch V \<and> state_ok env s' \<and> same_base env s s' \<and>
    jr_entries (sd_journal s') = jr_entries (sd_journal s)"
proof -
  obtain s1 where s1: "revert_entry env ch s = Some s1" "view env s1 = V" "state_ok env s1" "same_base env s s1" "sd_journal s1 = sd_journal s"
    using revert_entry_ok [OF assms] by (auto simp: becomes_def)
  show ?thesis
  proof (cases "dirtied ch")
    case None
    then show ?thesis using s1 by (simp add: undo_entry_def vundirty_def)
  next
    case (Some a)
    let ?s = "s1\<lparr> sd_journal := journal_undirty a (sd_journal s1) \<rparr>"
    have "same_base env s1 ?s" by (rule same_baseI) simp_all
    moreover have "view env ?s = vundirty ch V" using s1(2) by (auto simp: vundirty_def Some)
    ultimately show ?thesis using s1 Some by (auto simp: undo_entry_def intro: same_base_trans)
  qed
qed

lemma undo_entries_ok:
  assumes "env_ok env" "state_ok env s" "\<And>ch. ch \<in> set chs \<Longrightarrow> entry_ok env (stored env s) ch"
    "vundos env (sd_snap s) chs (view env s) = Some V"
  shows "\<exists>s'. undo_entries env chs s = Some s' \<and> view env s' = V \<and> state_ok env s' \<and> same_base env s s' \<and>
    jr_entries (sd_journal s') = jr_entries (sd_journal s)"
  using assms(2-)
proof (induction chs arbitrary: s)
  case Nil
  then show ?case by simp
next
  case (Cons ch chs)
  obtain V1 where V1: "vrevert env (sd_snap s) ch (view env s) = Some V1" "vundos env (sd_snap s) chs (vundirty ch V1) = Some V"
    using Cons.prems(3) by (auto simp: bind_eq_Some_conv)
  obtain s1 where s1: "undo_entry env ch s = Some s1" "view env s1 = vundirty ch V1" "state_ok env s1" "same_base env s s1"
    "jr_entries (sd_journal s1) = jr_entries (sd_journal s)"
    using undo_entry_ok [OF assms(1) Cons.prems(1) _ V1(1)] Cons.prems(2) by auto
  have "\<exists>s'. undo_entries env chs s1 = Some s' \<and> view env s' = V \<and> state_ok env s' \<and> same_base env s1 s' \<and>
    jr_entries (sd_journal s') = jr_entries (sd_journal s1)"
    using Cons.prems(2) V1(2) s1(4) by (intro Cons.IH s1(3)) (simp_all add: same_base_def s1(2))
  then show ?case using s1(1,4,5) by (auto intro: same_base_trans)
qed

end
