(* ===== verification/State_Snapshots.thy ===== *)
theory State_Snapshots
  imports State_Revert
begin

text \<open>
  Every operation of the state database logs what it changes, and \<open>RevertToSnapshot\<close> gives back the state from before.
\<close>

section \<open>Logged changes\<close>

definition logged :: "stateEnv \<Rightarrow> StateDB \<Rightarrow> StateDB \<Rightarrow> journalEntry list \<Rightarrow> bool" where
  "logged env s s' added \<longleftrightarrow>
     state_ok env s' \<and> same_base env s s' \<and> jr_entries (sd_journal s') = jr_entries (sd_journal s) @ added \<and>
     (\<forall>ch \<in> set added. entry_ok env (stored env s) ch) \<and>
     vundos env (sd_snap s) (rev added) (view env s') = Some (view env s)"

lemma logged_trans:
  assumes "logged env s s1 xs" "logged env s1 s2 ys"
  shows "logged env s s2 (xs @ ys)"
  using assms by (auto simp: logged_def same_base_def vundos_append)

lemma logged_quiet: "quiet env s s' \<Longrightarrow> logged env s s' []"
  by (simp add: logged_def quiet_def)

lemma logged_quiet_trans: "quiet env s s1 \<Longrightarrow> logged env s1 s2 xs \<Longrightarrow> logged env s s2 xs"
  using logged_trans [OF logged_quiet] by fastforce

lemma logged_ok: "logged env s s' xs \<Longrightarrow> state_ok env s'"
  by (simp add: logged_def)

lemma journal_append_fields [simp]:
  "sd_trie (journal_append ch s) = sd_trie s" "sd_snap (journal_append ch s) = sd_snap s"
  "sd_snapDestructs (journal_append ch s) = sd_snapDestructs s" "sd_stateObjects (journal_append ch s) = sd_stateObjects s"
  "sd_stateObjectsDirty (journal_append ch s) = sd_stateObjectsDirty s" "sd_refund (journal_append ch s) = sd_refund s"
  "sd_thash (journal_append ch s) = sd_thash s" "sd_bhash (journal_append ch s) = sd_bhash s"
  "sd_txIndex (journal_append ch s) = sd_txIndex s" "sd_logs (journal_append ch s) = sd_logs s"
  "sd_logSize (journal_append ch s) = sd_logSize s" "sd_preimages (journal_append ch s) = sd_preimages s"
  "sd_accessList (journal_append ch s) = sd_accessList s" "sd_transientStorage (journal_append ch s) = sd_transientStorage s"
  "sd_validRevisions (journal_append ch s) = sd_validRevisions s" "sd_nextRevisionId (journal_append ch s) = sd_nextRevisionId s"
  "jr_entries (sd_journal (journal_append ch s)) = jr_entries (sd_journal s) @ [ch]"
  "state_ok env (journal_append ch s) = state_ok env s"
  "stored env (journal_append ch s) = stored env s" "resolved env (journal_append ch s) = resolved env s"
  by (simp_all add: journal_append_def Let_def split: option.splits)

definition vdirty :: "journalEntry \<Rightarrow> stView \<Rightarrow> stView" where
  "vdirty ch V =
     (case dirtied ch of
        None \<Rightarrow> V
      | Some a \<Rightarrow> V\<lparr> vw_dirties := (vw_dirties V)(a := if a = ripemd then 0 else vw_dirties V a + 1) \<rparr>)"

lemma view_append: "view env (journal_append ch s) = vdirty ch (view env s)"
  by (auto simp: journal_append_def vdirty_def Let_def view_def GetLogs_def GetTransientState_def split: option.splits)

text \<open>An operation that appends one entry and changes what undoing the entry changes back.\<close>

lemma dirties_ripemd: "vw_dirties (view env s) ripemd = 0"
  by (simp add: dirties_of_def)

lemma vundirty_vdirty: "vw_dirties V ripemd = 0 \<Longrightarrow> vundirty ch (vdirty ch V) = V"
  by (auto simp: vundirty_def vdirty_def fun_upd_idem split: option.splits)

lemma vundirty_vdirty_upd [simp]:
  "vw_objs (vdirty ch V) = vw_objs V" "vw_destructs (vdirty ch V) = vw_destructs V" "vw_dirtyObjs (vdirty ch V) = vw_dirtyObjs V"
  "vw_refund (vdirty ch V) = vw_refund V" "vw_logs (vdirty ch V) = vw_logs V" "vw_logSize (vdirty ch V) = vw_logSize V"
  "vw_preimages (vdirty ch V) = vw_preimages V" "vw_accessList (vdirty ch V) = vw_accessList V"
  "vw_transient (vdirty ch V) = vw_transient V" "live (vdirty ch V) a = live V a"
  by (auto simp: vdirty_def live_def split: option.splits)

lemma loggedI:
  assumes "state_ok env s'" "same_base env s s'" "jr_entries (sd_journal s') = jr_entries (sd_journal s) @ [ch]"
    "entry_ok env (stored env s) ch" "vrevert env (sd_snap s) ch (view env s') = Some (vdirty ch (view env s))"
  shows "logged env s s' [ch]"
  using assms vundirty_vdirty [OF dirties_ripemd, of ch env s] by (simp add: logged_def)

lemma logged_object:
  assumes "state_ok env s" "sd_stateObjects s a = Some o1" "obj_ok env o2" "so_address o2 = a" "\<not> so_deleted o2"
    "\<And>V ov. live V a = Some ov \<Longrightarrow> vrevert env (sd_snap s) ch V = Some (V\<lparr> vw_objs := (vw_objs V)(a \<mapsto> F ov) \<rparr>)"
    "F (oview env (sd_snap s) (sd_snapDestructs s) o2) = oview env (sd_snap s) (sd_snapDestructs s) o1"
    "entry_ok env (stored env s) ch"
  shows "logged env s (setStateObject o2 (journal_append ch s)) [ch]"
proof (rule loggedI)
  let ?s = "setStateObject o2 (journal_append ch s)"
  let ?ov = "\<lambda>o1. oview env (sd_snap s) (sd_snapDestructs s) o1"
  show "state_ok env ?s" using assms(1,3) by (simp add: state_ok_set)
  show "same_base env s ?s" by (rule same_baseI) simp_all
  show "jr_entries (sd_journal ?s) = jr_entries (sd_journal s) @ [ch]" by simp
  have v: "view env ?s = (vdirty ch (view env s))\<lparr> vw_objs := (vw_objs (view env s))(a \<mapsto> ?ov o2) \<rparr>"
    unfolding view_set view_append using assms(4) by simp
  have "live (view env ?s) a = Some (?ov o2)" using assms(5) unfolding v by (simp add: live_def oview_def)
  then have "vrevert env (sd_snap s) ch (view env ?s) = Some ((view env ?s)\<lparr> vw_objs := (vw_objs (view env ?s))(a \<mapsto> ?ov o1) \<rparr>)"
    using assms(6,7) by simp
  moreover have "vw_objs (view env s) a = Some (?ov o1)" using assms(2) by (simp add: resolved_def)
  then have "(view env ?s)\<lparr> vw_objs := (vw_objs (view env ?s))(a \<mapsto> ?ov o1) \<rparr> = vdirty ch (view env s)"
    unfolding v by (simp add: fun_upd_idem)
  ultimately show "vrevert env (sd_snap s) ch (view env ?s) = Some (vdirty ch (view env s))" by simp
qed (rule assms(8))

lemma vobj_live: "live V a = Some ov \<Longrightarrow> vobj a F V = Some (V\<lparr> vw_objs := (vw_objs V)(a \<mapsto> F ov) \<rparr>)"
  by (simp add: vobj_def)

section \<open>Changes of objects\<close>

text \<open>The object a setter works on: in memory and not deleted.\<close>

definition live_object :: "stateEnv \<Rightarrow> address \<Rightarrow> stateObject \<Rightarrow> StateDB \<Rightarrow> bool" where
  "live_object env a o1 s \<longleftrightarrow> state_ok env s \<and> sd_stateObjects s a = Some o1 \<and> \<not> so_deleted o1"

lemma live_objectD:
  "live_object env a o1 s \<Longrightarrow> state_ok env s \<and> sd_stateObjects s a = Some o1 \<and> \<not> so_deleted o1 \<and> so_address o1 = a \<and> obj_ok env o1"
  by (auto simp: live_object_def dest: state_okD(4))

lemma SetBalance_logged:
  assumes "live_object env a o1 s"
  shows "\<exists>xs. logged env s (so_SetBalance b o1 s) xs"
proof -
  have "logged env s (so_SetBalance b o1 s) [balanceChange a (GetBalance_acc (so_account o1))]"
    unfolding so_SetBalance_def using live_objectD [OF assms]
    by (auto intro!: logged_object [where F = "\<lambda>ov. ov\<lparr> ov_account := SetBalance_acc (GetBalance_acc (so_account o1)) (ov_account ov) \<rparr>"]
        simp: vobj_live oview_updates entry_ok_def) (simp add: oview_def)
  then show ?thesis by blast
qed

lemma SetNonce_logged:
  assumes "live_object env a o1 s"
  shows "\<exists>xs. logged env s (so_SetNonce n o1 s) xs"
proof -
  have "logged env s (so_SetNonce n o1 s) [nonceChange a (GetNonce_acc (so_account o1))]"
    unfolding so_SetNonce_def using live_objectD [OF assms]
    by (auto intro!: logged_object [where F = "\<lambda>ov. ov\<lparr> ov_account := SetNonce_acc (GetNonce_acc (so_account o1)) (ov_account ov) \<rparr>"]
        simp: vobj_live oview_updates entry_ok_def) (simp add: oview_def)
  then show ?thesis by blast
qed

lemma quiet_loaded:
  assumes "live_object env a o1 s" "loads env (sd_snap s) (sd_snapDestructs s) o1 o2"
  shows "quiet env s (setStateObject o2 s)" "live_object env a o2 (setStateObject o2 s)"
proof -
  have o1: "state_ok env s" "resolved env s a = Some o1" using live_objectD [OF assms(1)] by (auto simp: resolved_def)
  show q: "quiet env s (setStateObject o2 s)" by (rule quiet_set [OF o1 assms(2)])
  have "so_deleted o2 = so_deleted o1" using assms(2) by (simp add: loads_def oview_def)
  then show "live_object env a o2 (setStateObject o2 s)"
    using live_objectD [OF assms(1)] assms(2) q by (auto simp: live_object_def quiet_def loads_def)
qed

lemma set_twice: "so_address o2 = so_address o1 \<Longrightarrow> setStateObject o2 (journal_append ch (setStateObject o1 s)) = setStateObject o2 (journal_append ch s)"
  by (cases s) (auto simp: setStateObject_def journal_append_def Let_def split: option.splits)

lemma SetState_logged:
  assumes "env_ok env" "live_object env a o1 s"
  shows "\<exists>xs. logged env s (so_SetState env key v o1 s) xs"
proof -
  obtain prev o2 where g: "so_GetState env s key o1 = (prev, o2)" by fastforce
  have l: "loads env (sd_snap s) (sd_snapDestructs s) o1 o2"
    and prev: "prev = ov_state (oview env (sd_snap s) (sd_snapDestructs s) o2) key"
    using so_GetState_ok [OF assms(1), of o1 s key] live_objectD [OF assms(2)] g by (auto simp: loads_def)
  note q = quiet_loaded [OF assms(2) l]
  show ?thesis
  proof (cases "prev = v")
    case True
    then show ?thesis using logged_quiet [OF q(1)] by (auto simp: so_SetState_def g)
  next
    case False
    let ?s = "setStateObject o2 s"
    have "logged env ?s (setStateObject (so_setState key v o2) (journal_append (storageChange a key prev) ?s)) [storageChange a key prev]"
      using live_objectD [OF q(2)] prev
      by (auto intro!: logged_object [where F = "\<lambda>ov. ov\<lparr> ov_state := (ov_state ov)(key := prev) \<rparr>"]
          simp: vobj_live oview_updates entry_ok_def)
    then show ?thesis
      using logged_quiet_trans [OF q(1)] False live_objectD [OF q(2)] by (auto simp: so_SetState_def g set_twice)
  qed
qed

lemma SetCode_logged:
  assumes "live_object env a o1 s"
  shows "\<exists>xs. logged env s (snd (so_SetCode env h code o1 s)) xs"
proof -
  obtain prev o2 where g: "so_Code env o1 = (prev, o2)" by fastforce
  note ok = live_objectD [OF assms]
  have l: "loads env (sd_snap s) (sd_snapDestructs s) o1 o2" and prev: "prev = code_of env o2"
    using so_Code_ok(1) [of env o1] so_Code_ok(2) [of env o1 "sd_snap s" "sd_snapDestructs s"] ok g
    by (auto simp: loads_def oview_def)
  note q = quiet_loaded [OF assms l]
  let ?s = "setStateObject o2 s"
  let ?ch = "codeChange a prev (so_CodeHash env o2)"
  have F: "vset_code env prev (so_CodeHash env o2) (oview env snap ds (snd (so_setCode h (Some code) o2))) = oview env snap ds o2" for snap ds
  proof (cases "is_program (so_account o2)")
    case True
    then obtain k where k: "GetCodeHash_acc (so_account o2) = Some k" using is_program_code by blast
    have "code_at env k = None" if "prev = None"
      using that k unfolding prev code_of_def so_CodeHash_def by (auto simp: or_else_def split: option.splits)
    then show ?thesis using True k prev unfolding oview_updates
      by (auto simp: vset_code_def oview_def so_CodeHash_def or_else_def SetCodeHash_same split: option.splits)
  next
    case False
    then show ?thesis unfolding oview_updates by (simp add: vset_code_def oview_def)
  qed
  have "logged env ?s (setStateObject (snd (so_setCode h (Some code) o2)) (journal_append ?ch ?s)) [?ch]"
    using live_objectD [OF q(2)] F
    by (auto intro!: logged_object [where F = "vset_code env prev (so_CodeHash env o2)"] simp: vobj_live entry_ok_def)
  moreover have "snd (so_SetCode env h code o1 s) = setStateObject (snd (so_setCode h (Some code) o2)) (journal_append ?ch ?s)"
    using live_objectD [OF q(2)] by (simp add: so_SetCode_def g set_twice split: prod.splits)
  ultimately show ?thesis using logged_quiet_trans [OF q(1)] by metis
qed

section \<open>Creation of objects\<close>

text \<open>The entries that concern an account, and changes that concern one account only.\<close>

definition concerns :: "address \<Rightarrow> journalEntry \<Rightarrow> bool" where
  "concerns a ch \<longleftrightarrow> dirtied ch = Some a \<or> (\<exists>p d. ch = resetObjectChange p d \<and> so_address p = a)"

definition only :: "address \<Rightarrow> journalEntry list \<Rightarrow> bool" where
  "only a chs \<longleftrightarrow> (\<forall>ch \<in> set chs. \<forall>b. concerns b ch \<longrightarrow> b = a)"

lemma only_append [simp]: "only a [] = True" "only a (xs @ ys) = (only a xs \<and> only a ys)"
  by (auto simp: only_def)

lemma set_destructs:
  "setStateObject o2 (journal_append ch (s\<lparr> sd_snapDestructs := ds \<rparr>)) = (setStateObject o2 (journal_append ch s))\<lparr> sd_snapDestructs := ds \<rparr>"
  by (cases s) (auto simp: setStateObject_def journal_append_def Let_def split: option.splits)

lemma create_fresh_logged:
  assumes "state_ok env s" "resolved env s a = None" "sd_stateObjects s a = None" "obj_ok env o2" "so_address o2 = a"
  shows "logged env s (setStateObject o2 (journal_append (createObjectChange a) s)) [createObjectChange a]"
proof (rule loggedI)
  let ?s = "setStateObject o2 (journal_append (createObjectChange a) s)"
  show "state_ok env ?s" using assms(1,4) by (simp add: state_ok_set)
  show "same_base env s ?s" by (rule same_baseI) simp_all
  show "jr_entries (sd_journal ?s) = jr_entries (sd_journal s) @ [createObjectChange a]" by simp
  have "stored env s a = None" using assms(2,3) by (simp add: resolved_def)
  then show "entry_ok env (stored env s) (createObjectChange a)" by (simp add: entry_ok_def)
  have clean: "sd_stateObjectsDirty s - {a} = sd_stateObjectsDirty s"
    using state_okD(3) [OF assms(1)] assms(3) by auto
  have "vw_objs (view env s) a = None" using assms(2) by simp
  then show "vrevert env (sd_snap s) (createObjectChange a) (view env ?s) = Some (vdirty (createObjectChange a) (view env s))"
    unfolding view_set view_append using assms(5) clean by (simp add: fun_upd_idem vdirty_def)
qed

lemma vrevert_reset:
  assumes "(if \<not> d \<and> snap \<noteq> None then vw_destructs V - {so_addrHash p} else vw_destructs V) = D"
  shows "vrevert env snap (resetObjectChange p d) V =
    Some (V\<lparr> vw_objs := (vw_objs V)(so_address p \<mapsto> oview env snap D p), vw_destructs := D \<rparr>)"
  using assms by (simp only: vrevert.simps Let_def)

lemma create_reset_logged:
  assumes env: "env_ok env" and s: "state_ok env s" and p: "resolved env s a = Some p" and o2: "obj_ok env o2" "so_address o2 = a"
    and d: "d \<longleftrightarrow> sd_snap s \<noteq> None \<and> so_addrHash p \<in> sd_snapDestructs s"
    and ds: "ds = (if sd_snap s \<noteq> None then insert (so_addrHash p) (sd_snapDestructs s) else sd_snapDestructs s)"
  shows "logged env s (setStateObject o2 (journal_append (resetObjectChange p d) (s\<lparr> sd_snapDestructs := ds \<rparr>))) [resetObjectChange p d]"
proof (rule loggedI)
  let ?ch = "resetObjectChange p d"
  let ?s1 = "journal_append ?ch s"
  have e: "setStateObject o2 (journal_append ?ch (s\<lparr> sd_snapDestructs := ds \<rparr>)) = (setStateObject o2 ?s1)\<lparr> sd_snapDestructs := ds \<rparr>" (is "?s = _")
    by (rule set_destructs)
  have pa: "so_address p = a" "obj_ok env p" using resolved_ok [OF s p] by auto
  have h: "so_addrHash o2 = so_addrHash p" using pa o2 by (simp add: obj_ok_def)
  show "state_ok env ?s" using s o2(1) by (simp add: e state_ok_set)
  show "same_base env s ?s" by (rule same_baseI) (simp_all add: e)
  show "jr_entries (sd_journal ?s) = jr_entries (sd_journal s) @ [?ch]" by (simp add: e)
  show "entry_ok env (stored env s) ?ch" using pa by (simp add: entry_ok_def)
  have v1: "view env ?s1 = view env s" by (simp add: view_append vdirty_def)
  have v: "view env ?s = (view env s)\<lparr> vw_objs := (vw_objs (view env s))(a \<mapsto> oview env (sd_snap s) ds o2), vw_destructs := ds \<rparr>"
    unfolding e using view_set_destructs [OF env _ o2(1), of ?s1 ds] s h ds unfolding v1 o2(2) by auto
  have "vw_destructs (view env ?s) = ds" by (simp add: v)
  then have restored: "(if \<not> d \<and> sd_snap s \<noteq> None then vw_destructs (view env ?s) - {so_addrHash p} else vw_destructs (view env ?s)) =
      sd_snapDestructs s"
    using d ds by auto
  have "vrevert env (sd_snap s) ?ch (view env ?s) =
      Some ((view env ?s)\<lparr> vw_objs := (vw_objs (view env ?s))(a \<mapsto> oview env (sd_snap s) (sd_snapDestructs s) p), vw_destructs := sd_snapDestructs s \<rparr>)"
    using vrevert_reset [OF restored] by (simp only: pa(1))
  moreover have "vw_objs (view env s) a = Some (oview env (sd_snap s) (sd_snapDestructs s) p)" using p by simp
  ultimately show "vrevert env (sd_snap s) ?ch (view env ?s) = Some (vdirty ?ch (view env s))"
    by (simp add: v fun_upd_idem vdirty_def del: view_fields(10) vrevert.simps)
qed

text \<open>Creating an object, with any account, and replacing it before it is used.\<close>

lemma create_with_logged:
  assumes "env_ok env" "state_ok env s"
  obtains new prev s2 where "create_with env a acc s = ((new, prev), setStateObject new s2)" "so_address new = a" "obj_ok env new"
    "\<not> so_deleted new" "\<And>o2. obj_ok env o2 \<Longrightarrow> so_address o2 = a \<Longrightarrow> \<exists>xs. logged env s (setStateObject o2 s2) xs \<and> only a xs"
    "so_account new = SetNonce_acc 0 acc"
proof -
  let ?new = "(newObject env a (SetNonce_acc 0 acc))\<lparr> so_created := True \<rparr>"
  obtain r s1 where g: "getDeletedStateObject env a s = (r, s1)" by fastforce
  then have r: "r = resolved env s a" "quiet env s s1" "sd_stateObjects s1 a = resolved env s a"
    using getDeletedStateObject_ok [OF assms(2), of a] by (auto simp: found_object_def)
  have q: "state_ok env s1" using r(2) by (simp add: quiet_def)
  have new: "so_address ?new = a" "obj_ok env ?new" "\<not> so_deleted ?new" "so_account ?new = SetNonce_acc 0 acc"
    by (simp_all add: newObject_def obj_ok_def)
  show ?thesis
  proof (cases r)
    case None
    have "resolved env s1 a = None"
      using r(2) None r(1) view_fields(10) [of env s a] view_fields(10) [of env s1 a] by (simp add: quiet_def)
    then have "logged env s (setStateObject o2 (journal_append (createObjectChange a) s1)) [createObjectChange a]"
      if "obj_ok env o2" "so_address o2 = a" for o2
      using logged_quiet_trans [OF r(2) create_fresh_logged [OF q]] r(1,3) None that by simp
    moreover have "only a [createObjectChange a]" by (simp add: only_def concerns_def)
    moreover have "create_with env a acc s = ((?new, None), setStateObject ?new (journal_append (createObjectChange a) s1))"
      by (simp add: create_with_def g None Let_def)
    ultimately show ?thesis using that new by blast
  next
    case (Some p)
    let ?d = "sd_snap s1 \<noteq> None \<and> so_addrHash p \<in> sd_snapDestructs s1"
    let ?ds = "if sd_snap s1 \<noteq> None then insert (so_addrHash p) (sd_snapDestructs s1) else sd_snapDestructs s1"
    let ?s2 = "journal_append (resetObjectChange p ?d) (s1\<lparr> sd_snapDestructs := ?ds \<rparr>)"
    have "sd_stateObjects s1 a = Some p" using r(1,3) Some by simp
    then have "resolved env s1 a = Some p" by (simp add: resolved_def)
    then have "logged env s (setStateObject o2 ?s2) [resetObjectChange p ?d]" if "obj_ok env o2" "so_address o2 = a" for o2
      using logged_quiet_trans [OF r(2) create_reset_logged [OF assms(1) q]] that by simp
    moreover have "create_with env a acc s = ((?new, if so_deleted p then None else Some p), setStateObject ?new ?s2)"
    proof -
      have "(if sd_snap s1 \<noteq> None \<and> \<not> ?d then s1\<lparr> sd_snapDestructs := insert (so_addrHash p) (sd_snapDestructs s1) \<rparr> else s1) =
          s1\<lparr> sd_snapDestructs := ?ds \<rparr>" by (auto simp: insert_absorb)
      then show ?thesis by (simp add: create_with_def g Some Let_def)
    qed
    moreover have "only a [resetObjectChange p ?d]"
      using resolved_ok [OF assms(2)] r(1) Some by (simp add: only_def concerns_def)
    ultimately show ?thesis using that new by blast
  qed
qed

lemma create_logged:
  assumes "env_ok env" "state_ok env s"
  shows "\<exists>xs. logged env s (carry_balance (create_with env a acc s)) xs"
    and "\<exists>new prev s'. create_with env a acc s = ((new, prev), s') \<and> live_object env a new s' \<and> so_account new = SetNonce_acc 0 acc \<and>
      (\<exists>xs. logged env s s' xs \<and> only a xs)"
proof -
  obtain new prev s2 where c: "create_with env a acc s = ((new, prev), setStateObject new s2)" "so_address new = a" "obj_ok env new"
    "\<not> so_deleted new" "\<And>o2. obj_ok env o2 \<Longrightarrow> so_address o2 = a \<Longrightarrow> \<exists>xs. logged env s (setStateObject o2 s2) xs \<and> only a xs"
    "so_account new = SetNonce_acc 0 acc"
    using create_with_logged [OF assms, of a acc] by metis
  show "\<exists>xs. logged env s (carry_balance (create_with env a acc s)) xs"
  proof (cases prev)
    case None
    then show ?thesis using c(1) c(5) [OF c(3,2)] by (auto simp: carry_balance_def)
  next
    case (Some p)
    let ?o = "new\<lparr> so_account := SetBalance_acc (GetBalance_acc (so_account p)) (so_account new) \<rparr>"
    have "setStateObject ?o (setStateObject new s2) = setStateObject ?o s2" by (simp add: setStateObject_def)
    moreover have "obj_ok env ?o" "so_address ?o = a" using c(2,3) by (simp_all add: obj_ok_def)
    ultimately show ?thesis using c(1) c(5) [of ?o] Some by (auto simp: carry_balance_def)
  qed
  obtain xs where l: "logged env s (setStateObject new s2) xs" "only a xs" using c(2,3,5) by blast
  then have "live_object env a new (setStateObject new s2)" using c(2,4) logged_ok [OF l(1)] by (simp add: live_object_def)
  then show "\<exists>new prev s'. create_with env a acc s = ((new, prev), s') \<and> live_object env a new s' \<and> so_account new = SetNonce_acc 0 acc \<and>
      (\<exists>xs. logged env s s' xs \<and> only a xs)"
    using c(1,6) l by blast
qed

text \<open>The object that is there, or a new one, with the balance the account has.\<close>

definition balance_or :: "int \<Rightarrow> objView option \<Rightarrow> int" where
  "balance_or d r = (case r of None \<Rightarrow> d | Some ov \<Rightarrow> GetBalance_acc (ov_account ov))"

lemma get_or_create:
  assumes "env_ok env" "state_ok env s"
    and f: "f s = (let (r, s1) = getStateObject env a s in
      case r of Some o1 \<Rightarrow> (o1, s1) | None \<Rightarrow> (let ((o1, _), s2) = create_with env a acc s1 in (o1, s2)))"
  obtains o1 s1 xs where "f s = (o1, s1)" "live_object env a o1 s1" "logged env s s1 xs" "only a xs"
    "GetBalance_acc (so_account o1) = balance_or (GetBalance_acc acc) (live (view env s) a)"
proof -
  obtain r s1 where g: "getStateObject env a s = (r, s1)" "quiet env s s1" "sd_stateObjects s1 a = resolved env s a"
    "r = (case resolved env s a of None \<Rightarrow> None | Some o1 \<Rightarrow> if so_deleted o1 then None else Some o1)"
    using getStateObject_ok [OF assms(2), of a] by metis
  have ok: "state_ok env s1" using g(2) by (simp add: quiet_def)
  show ?thesis
  proof (cases r)
    case None
    obtain new prev s2 xs where "create_with env a acc s1 = ((new, prev), s2)" "live_object env a new s2" "logged env s1 s2 xs"
      "only a xs" "so_account new = SetNonce_acc 0 acc"
      using create_logged(2) [OF assms(1) ok, of a acc] by blast
    moreover have "live (view env s) a = None" using None g(4) unfolding live_view by (auto split: option.splits if_splits)
    ultimately show ?thesis using that [of new s2 xs] f g(1) None logged_quiet_trans [OF g(2)] by (simp add: balance_or_def)
  next
    case (Some o1)
    then have "live_object env a o1 s1" using g(3,4) ok by (auto simp: live_object_def split: option.splits if_splits)
    moreover have "live (view env s) a = Some (oview env (sd_snap s) (sd_snapDestructs s) o1)"
      using Some g(4) unfolding live_view by (auto split: option.splits if_splits)
    ultimately show ?thesis using that [of o1 s1 "[]"] f g(1) Some logged_quiet [OF g(2)] by (simp add: balance_or_def oview_def)
  qed
qed

section \<open>Operations\<close>

text \<open>The operations of a transaction on the state, reads included.\<close>

datatype stateOp =
    OpAddBalance address int | OpSubBalance address int | OpSetBalance address int
  | OpIncNonce address | OpSetNonce address u64 | OpSetCode address bytes | OpSetState address hash hash
  | OpSelfDestruct address | OpSelfDestruct6780 address
  | OpCreateAccount address | OpCreateEOA address bool AccountKey
  | OpCreateSmartContractAccount address bool AccountKey u8 Rules
  | OpAddLog logEntry | OpAddPreimage hash bytes | OpAddRefund u64 | OpSubRefund u64
  | OpSetTransientState address hash hash | OpAddAddress address | OpAddSlot address hash
  | OpGetBalance address | OpGetCode address | OpGetState address hash | OpGetCommittedState address hash
  | OpSnapshot | OpRevertToSnapshot int

fun apply_op :: "stateEnv \<Rightarrow> stateOp \<Rightarrow> StateDB \<Rightarrow> StateDB option" where
  "apply_op env (OpAddBalance a n) s = Some (AddBalance env a n s)"
| "apply_op env (OpSubBalance a n) s = Some (SubBalance env a n s)"
| "apply_op env (OpSetBalance a n) s = Some (SetBalance env a n s)"
| "apply_op env (OpIncNonce a) s = Some (IncNonce env a s)"
| "apply_op env (OpSetNonce a n) s = Some (SetNonce env a n s)"
| "apply_op env (OpSetCode a c) s = Some (snd (SetCode env a c s))"
| "apply_op env (OpSetState a k v) s = Some (SetState env a k v s)"
| "apply_op env (OpSelfDestruct a) s = Some (SelfDestruct env a s)"
| "apply_op env (OpSelfDestruct6780 a) s = Some (SelfDestruct6780 env a s)"
| "apply_op env (OpCreateAccount a) s = Some (CreateAccount env a s)"
| "apply_op env (OpCreateEOA a h k) s = Some (CreateEOA env a h k s)"
| "apply_op env (OpCreateSmartContractAccount a h k f r) s = Some (CreateSmartContractAccountWithKey env a h k f r s)"
| "apply_op env (OpAddLog l) s = Some (AddLog l s)"
| "apply_op env (OpAddPreimage h p) s = Some (AddPreimage h p s)"
| "apply_op env (OpAddRefund g) s = Some (AddRefund g s)"
| "apply_op env (OpSubRefund g) s = SubRefund g s"
| "apply_op env (OpSetTransientState a k v) s = Some (SetTransientState a k v s)"
| "apply_op env (OpAddAddress a) s = Some (AddAddressToAccessList a s)"
| "apply_op env (OpAddSlot a k) s = Some (AddSlotToAccessList a k s)"
| "apply_op env (OpGetBalance a) s = Some (snd (GetBalance env a s))"
| "apply_op env (OpGetCode a) s = Some (snd (GetCode env a s))"
| "apply_op env (OpGetState a k) s = Some (snd (GetState env a k s))"
| "apply_op env (OpGetCommittedState a k) s = Some (snd (GetCommittedState env a k s))"
| "apply_op env OpSnapshot s = Some (snd (Snapshot s))"
| "apply_op env (OpRevertToSnapshot i) s = RevertToSnapshot env i s"

lemma get_or_new_state:
  assumes "env_ok env" "state_ok env s"
  obtains o1 s1 xs where "GetOrNewStateObject env a s = (o1, s1)" "live_object env a o1 s1" "logged env s s1 xs" "only a xs"
    "GetBalance_acc (so_account o1) = balance_or 0 (live (view env s) a)"
proof (rule get_or_create [OF assms, where f = "GetOrNewStateObject env a" and a = a and acc = "ExternallyOwnedAccount newAccountCommon"])
  show "GetOrNewStateObject env a s = (let (r, s1) = getStateObject env a s in
      case r of Some o1 \<Rightarrow> (o1, s1)
        | None \<Rightarrow> (let ((o1, _), s2) = create_with env a (ExternallyOwnedAccount newAccountCommon) s1 in (o1, s2)))"
    by (simp add: GetOrNewStateObject_def createObject_def)
next
  fix o1 s1 xs
  assume "GetOrNewStateObject env a s = (o1, s1)" "live_object env a o1 s1" "logged env s s1 xs" "only a xs"
    "GetBalance_acc (so_account o1) = balance_or (GetBalance_acc (ExternallyOwnedAccount newAccountCommon)) (live (view env s) a)"
  then show thesis using that by (simp add: newAccountCommon_def)
qed

lemma get_or_new_contract:
  assumes "env_ok env" "state_ok env s"
  obtains o1 s1 xs where "GetOrNewSmartContract env a s = (o1, s1)" "live_object env a o1 s1" "logged env s s1 xs"
  by (rule get_or_create [OF assms, where f = "GetOrNewSmartContract env a" and a = a]) (simp_all add: GetOrNewSmartContract_def Let_def)

definition some_logged :: "stateEnv \<Rightarrow> StateDB \<Rightarrow> StateDB \<Rightarrow> bool" where
  "some_logged env s s' \<longleftrightarrow> (\<exists>xs. logged env s s' xs)"

lemma some_logged_trans: "logged env s s1 xs \<Longrightarrow> some_logged env s1 s2 \<Longrightarrow> some_logged env s s2"
  by (auto simp: some_logged_def intro: logged_trans)

lemma some_logged_quiet: "quiet env s s1 \<Longrightarrow> some_logged env s s1"
  by (auto simp: some_logged_def intro: logged_quiet)

lemma dirties_touch:
  "dirties_of (sd_journal (journal_append (touchChange a) s)) =
     (dirties_of (sd_journal s))(a := if a = ripemd then 0 else dirties_of (sd_journal s) a + 1)"
  by (simp add: journal_append_def Let_def)

lemma touch_logged:
  assumes "state_ok env s"
  shows "some_logged env s (so_touch o1 s)"
proof -
  have "logged env s (so_touch o1 s) [touchChange (so_address o1)]"
  proof (rule loggedI)
    show "vrevert env (sd_snap s) (touchChange (so_address o1)) (view env (so_touch o1 s)) = Some (vdirty (touchChange (so_address o1)) (view env s))"
      by (auto simp: so_touch_def Let_def view_append vdirty_def dirties_touch)
    show "same_base env s (so_touch o1 s)" by (rule same_baseI) (simp_all add: so_touch_def Let_def)
  qed (use assms in \<open>simp_all add: so_touch_def Let_def entry_ok_def\<close>)
  then show ?thesis by (auto simp: some_logged_def)
qed

lemma balance_ops_logged:
  assumes "env_ok env" "state_ok env s"
  shows "some_logged env s (AddBalance env a n s)" "some_logged env s (SubBalance env a n s)" "some_logged env s (SetBalance env a n s)"
proof -
  obtain o1 s1 xs where g: "GetOrNewStateObject env a s = (o1, s1)" "live_object env a o1 s1" "logged env s s1 xs"
    by (rule get_or_new_state [OF assms])
  have ok: "state_ok env s1" using g(3) by (simp add: logged_ok)
  have same: "some_logged env s1 s1" by (rule some_logged_quiet [OF quiet_refl [OF ok]])
  have set: "some_logged env s1 (so_SetBalance b o1 s1)" for b using SetBalance_logged [OF g(2)] by (simp add: some_logged_def)
  show "some_logged env s (AddBalance env a n s)"
    using some_logged_trans [OF g(3)] set touch_logged [OF ok] same by (auto simp: AddBalance_def g(1) so_AddBalance_def)
  show "some_logged env s (SubBalance env a n s)"
    using some_logged_trans [OF g(3)] set same by (auto simp: SubBalance_def g(1) so_SubBalance_def)
  show "some_logged env s (SetBalance env a n s)"
    using some_logged_trans [OF g(3) set] by (simp add: SetBalance_def g(1))
qed

lemma nonce_ops_logged:
  assumes "env_ok env" "state_ok env s"
  shows "some_logged env s (IncNonce env a s)" "some_logged env s (SetNonce env a n s)"
proof -
  obtain o1 s1 xs where g: "GetOrNewStateObject env a s = (o1, s1)" "live_object env a o1 s1" "logged env s s1 xs"
    by (rule get_or_new_state [OF assms])
  have "some_logged env s1 (so_SetNonce m o1 s1)" for m using SetNonce_logged [OF g(2)] by (simp add: some_logged_def)
  then show "some_logged env s (IncNonce env a s)" "some_logged env s (SetNonce env a n s)"
    using some_logged_trans [OF g(3)] by (simp_all add: IncNonce_def SetNonce_def g(1) so_IncNonce_def)
qed

lemma contract_ops_logged:
  assumes "env_ok env" "state_ok env s"
  shows "some_logged env s (snd (SetCode env a c s))" "some_logged env s (SetState env a k v s)"
proof -
  obtain o1 s1 xs where g: "GetOrNewSmartContract env a s = (o1, s1)" "live_object env a o1 s1" "logged env s s1 xs"
    using get_or_new_contract [OF assms] by metis
  show "some_logged env s (snd (SetCode env a c s))" "some_logged env s (SetState env a k v s)"
    using some_logged_trans [OF g(3)] SetCode_logged [OF g(2)] SetState_logged [OF assms(1) g(2)]
    by (simp_all add: SetCode_def SetState_def g(1) some_logged_def)
qed

lemma SelfDestruct_logged:
  assumes "state_ok env s"
  shows "some_logged env s (SelfDestruct env a s)"
proof -
  obtain r s1 where g: "getStateObject env a s = (r, s1)" "quiet env s s1" "sd_stateObjects s1 a = resolved env s a"
    "r = (case resolved env s a of None \<Rightarrow> None | Some o1 \<Rightarrow> if so_deleted o1 then None else Some o1)"
    using getStateObject_ok [OF assms, of a] by metis
  show ?thesis
  proof (cases r)
    case None
    then show ?thesis using some_logged_quiet [OF g(2)] g(1) by (simp add: SelfDestruct_def)
  next
    case (Some o1)
    then have l: "live_object env a o1 s1" using g(2-4) by (auto simp: live_object_def quiet_def split: option.splits if_splits)
    let ?ch = "selfDestructChange a (so_selfDestructed o1) (GetBalance_acc (so_account o1))"
    let ?F = "\<lambda>ov. ov\<lparr> ov_account := SetBalance_acc (GetBalance_acc (so_account o1)) (ov_account ov), ov_selfDestructed := so_selfDestructed o1 \<rparr>"
    have "logged env s1 (setStateObject (so_setBalance 0 (o1\<lparr> so_selfDestructed := True \<rparr>)) (journal_append ?ch s1)) [?ch]"
    proof (rule logged_object [where F = ?F])
      show "?F (oview env (sd_snap s1) (sd_snapDestructs s1) (so_setBalance 0 (o1\<lparr> so_selfDestructed := True \<rparr>))) =
          oview env (sd_snap s1) (sd_snapDestructs s1) o1"
        unfolding oview_updates by (simp add: oview_def)
      show "vrevert env (sd_snap s1) ?ch V = Some (V\<lparr> vw_objs := (vw_objs V)(a \<mapsto> ?F ov) \<rparr>)" if "live V a = Some ov" for V ov
        unfolding vrevert.simps that by simp
    qed (use live_objectD [OF l] in \<open>simp_all add: entry_ok_def\<close>)
    then show ?thesis
      using logged_quiet_trans [OF g(2)] g(1) Some by (auto simp: SelfDestruct_def some_logged_def)
  qed
qed

lemma SelfDestruct6780_logged:
  assumes "state_ok env s"
  shows "some_logged env s (SelfDestruct6780 env a s)"
proof -
  obtain r s1 where g: "getStateObject env a s = (r, s1)" "quiet env s s1" using getStateObject_ok [OF assms, of a] by metis
  have "some_logged env s1 (SelfDestruct env a s1)" using SelfDestruct_logged g(2) by (simp add: quiet_def)
  then have "some_logged env s (SelfDestruct env a s1)" by (rule some_logged_trans [OF logged_quiet [OF g(2)]])
  then show ?thesis using some_logged_quiet [OF g(2)] by (simp add: SelfDestruct6780_def g(1) split: option.splits)
qed

lemma reads_quiet:
  assumes "env_ok env" "state_ok env s"
  shows "quiet env s (snd (GetBalance env a s))" "quiet env s (snd (GetCode env a s))"
    "quiet env s (snd (GetState env a k s))" "quiet env s (snd (GetCommittedState env a k s))"
proof -
  obtain r s1 where g: "getStateObject env a s = (r, s1)" "quiet env s s1" "sd_stateObjects s1 a = resolved env s a"
    "r = (case resolved env s a of None \<Rightarrow> None | Some o1 \<Rightarrow> if so_deleted o1 then None else Some o1)"
    using getStateObject_ok [OF assms(2), of a] by metis
  show "quiet env s (snd (GetBalance env a s))" using g(2) by (simp add: GetBalance_def g(1))
  have l: "live_object env a o1 s1" if "r = Some o1" for o1
    using that g(2-4) by (auto simp: live_object_def quiet_def split: option.splits if_splits)
  have q: "quiet env s (setStateObject o2 s1)" if "r = Some o1" "loads env (sd_snap s1) (sd_snapDestructs s1) o1 o2" for o1 o2
    using quiet_trans [OF g(2) quiet_loaded(1) [OF l]] that by blast
  have ok: "obj_ok env o1" if "r = Some o1" for o1 using live_objectD [OF l [OF that]] by simp
  show "quiet env s (snd (GetCode env a s))"
    using g(2) q so_Code_ok(2) ok by (auto simp: GetCode_def g(1) split: option.splits prod.splits) (metis snd_conv)
  show "quiet env s (snd (GetState env a k s))"
    using g(2) q so_GetState_ok(2) [OF assms(1)] ok by (auto simp: GetState_def g(1) split: option.splits prod.splits) (metis snd_conv)
  show "quiet env s (snd (GetCommittedState env a k s))"
    using g(2) q so_GetCommittedState_ok(2) [OF assms(1)] ok
    by (auto simp: GetCommittedState_def g(1) split: option.splits prod.splits) (metis snd_conv)
qed

section \<open>Logs, refunds, transient storage, access list\<close>

lemma logged_simple:
  assumes "state_ok env s" "state_ok env s \<Longrightarrow> state_ok env s'" "entry_ok env (stored env s) ch"
    "sd_snap s' = sd_snap s" "sd_trie s' = sd_trie s" "sd_validRevisions s' = sd_validRevisions s"
    "sd_nextRevisionId s' = sd_nextRevisionId s" "sd_thash s' = sd_thash s" "sd_bhash s' = sd_bhash s" "sd_txIndex s' = sd_txIndex s"
    "jr_entries (sd_journal s') = jr_entries (sd_journal s) @ [ch]"
    "vrevert env (sd_snap s) ch (view env s') = Some (vdirty ch (view env s))"
  shows "some_logged env s s'"
proof -
  have "logged env s s' [ch]" by (rule loggedI [OF _ same_baseI]) (use assms in simp_all)
  then show ?thesis by (auto simp: some_logged_def)
qed

lemma fun_upd2_idem: "f a k = v \<Longrightarrow> f(a := (f a)(k := v)) = f"
  by auto

lemma simple_ops_logged:
  assumes "state_ok env s"
  shows "some_logged env s (AddLog lg s)" "some_logged env s (AddPreimage h p s)" "some_logged env s (AddRefund g s)"
    "SubRefund g s = Some s' \<Longrightarrow> some_logged env s s'" "some_logged env s (SetTransientState a k v s)"
proof -
  have same: "some_logged env s s" by (rule some_logged_quiet [OF quiet_refl [OF assms]])
  show "some_logged env s (AddLog lg s)"
  proof (rule logged_simple [OF assms, where ch = "addLogChange (sd_thash s)"])
    let ?t = "sd_thash s" and ?V = "view env s"
    obtain lg1 where lg1: "AddLog lg s = (journal_append (addLogChange ?t) s)\<lparr> sd_logs := (sd_logs s)(?t \<mapsto> GetLogs ?t s @ [lg1]), sd_logSize := sd_logSize s + 1 \<rparr>"
      by (simp add: AddLog_def Let_def)
    have "(\<lambda>h. or_else (((sd_logs s)(?t \<mapsto> GetLogs ?t s @ [lg1])) h) []) = (vw_logs ?V)(?t := GetLogs ?t s @ [lg1])"
      by (auto simp: fun_eq_iff GetLogs_def or_else_def)
    then have v: "view env (AddLog lg s) = ?V\<lparr> vw_logs := (vw_logs ?V)(?t := GetLogs ?t s @ [lg1]), vw_logSize := sd_logSize s + 1 \<rparr>"
      unfolding lg1 by (simp add: view_append vdirty_def)
    show "vrevert env (sd_snap s) (addLogChange ?t) (view env (AddLog lg s)) = Some (vdirty (addLogChange ?t) ?V)"
      unfolding v by (simp add: vdirty_def fun_upd_idem)
  qed (simp_all add: AddLog_def Let_def entry_ok_def)
  show "some_logged env s (AddPreimage h p s)"
  proof (cases "sd_preimages s h")
    case None
    then show ?thesis
      by (intro logged_simple [OF assms, where ch = "addPreimageChange h"])
        (simp_all add: AddPreimage_def view_append vdirty_def entry_ok_def fun_upd_idem)
  qed (simp add: AddPreimage_def same)
  show "some_logged env s (AddRefund g s)"
    by (rule logged_simple [OF assms, where ch = "refundChange (sd_refund s)"])
      (simp_all add: AddRefund_def view_append vdirty_def entry_ok_def)
  show "some_logged env s s'" if "SubRefund g s = Some s'"
    by (rule logged_simple [OF assms, where ch = "refundChange (sd_refund s)"])
      (use that in \<open>auto simp: SubRefund_def view_append vdirty_def entry_ok_def split: if_splits\<close>)
  let ?prev = "GetTransientState a k s"
  let ?ch = "transientStorageChange a k ?prev"
  have "some_logged env s (setTransientState a k v (journal_append ?ch s))"
  proof (rule logged_simple [OF assms, where ch = ?ch])
    let ?V = "view env s"
    have "(\<lambda>b j. ts_Get b j (ts_Set a k v (sd_transientStorage s))) = (vw_transient ?V)(a := (vw_transient ?V a)(k := v))"
      by (auto simp: fun_eq_iff ts_Get_Set GetTransientState_def)
    then have v: "view env (setTransientState a k v (journal_append ?ch s)) = ?V\<lparr> vw_transient := (vw_transient ?V)(a := (vw_transient ?V a)(k := v)) \<rparr>"
      by (simp add: setTransientState_def view_append vdirty_def)
    have "(vw_transient ?V)(a := (vw_transient ?V a)(k := ?prev)) = vw_transient ?V" by (rule fun_upd2_idem) simp
    then show "vrevert env (sd_snap s) ?ch (view env (setTransientState a k v (journal_append ?ch s))) = Some (vdirty ?ch ?V)"
      unfolding v by (simp add: vdirty_def)
  qed (simp_all add: setTransientState_def entry_ok_def)
  then show "some_logged env s (SetTransientState a k v s)" using same by (simp add: SetTransientState_def Let_def)
qed

lemma al_ok_AddAddress: "al_ok al \<Longrightarrow> al_ok (al\<lparr> al_addresses := (al_addresses al)(a \<mapsto> -1) \<rparr>)"
  by (auto simp: al_ok_def)

lemma AddAddress_logged:
  assumes "state_ok env s"
  shows "some_logged env s (AddAddressToAccessList a s)"
proof (cases "al_addresses (sd_accessList s) a")
  case None
  then show ?thesis
    using state_okD(2) [OF assms]
    by (intro logged_simple [OF assms, where ch = "accessListAddAccountChange a"])
      (simp_all add: AddAddressToAccessList_def al_AddAddress_def Let_def view_append vdirty_def entry_ok_def al_DeleteAddress_def
        fun_upd_idem state_ok_def al_ok_AddAddress)
next
  case (Some i)
  then show ?thesis
    using some_logged_quiet [OF quiet_refl [OF assms]] by (simp add: AddAddressToAccessList_def al_AddAddress_def Let_def)
qed

lemma al_AddSlot_cases:
  assumes "al_ok al" "al_AddSlot a slot al = ((addrMod, slotMod), al')"
  obtains (none) "\<not> addrMod" "\<not> slotMod" "al' = al"
  | (slot) "\<not> addrMod" "slotMod" "al_DeleteSlot a slot al' = Some al" "al_ok al'"
  | (both) "addrMod" "slotMod" "al_addresses al a = None" "al_ok al'"
      "al_DeleteSlot a slot al' = Some (al\<lparr> al_addresses := (al_addresses al)(a \<mapsto> -1) \<rparr>)"
proof -
  let ?n = "length (al_slots al)"
  let ?fresh = "al\<lparr> al_addresses := (al_addresses al)(a \<mapsto> int ?n), al_slots := al_slots al @ [{slot}] \<rparr>"
  have fresh: "al_ok ?fresh" using assms(1) by (fastforce simp: al_ok_def nth_append split: if_splits)
  have del: "al_DeleteSlot a slot ?fresh = Some (al\<lparr> al_addresses := (al_addresses al)(a \<mapsto> -1) \<rparr>)"
    by (simp add: al_DeleteSlot_def Let_def)
  show ?thesis
  proof (cases "al_addresses al a")
    case None
    then show ?thesis using assms(2) both fresh del by (simp add: al_AddSlot_def Let_def)
  next
    case (Some i)
    show ?thesis
    proof (cases "i = -1")
      case True
      then have "al\<lparr> al_addresses := (al_addresses al)(a \<mapsto> -1) \<rparr> = al" using Some by (simp add: fun_upd_idem)
      then show ?thesis using assms(2) Some True slot fresh del by (simp add: al_AddSlot_def Let_def)
    next
      case False
      then have i: "0 \<le> i" "i < int ?n" "al_slots al ! nat i \<noteq> {}" using assms(1) Some by (auto simp: al_ok_def)
      show ?thesis
      proof (cases "slot \<in> al_slots al ! nat i")
        case True
        then show ?thesis using assms(2) Some False none by (simp add: al_AddSlot_def Let_def)
      next
        case new: False
        let ?al = "al\<lparr> al_slots := (al_slots al)[nat i := insert slot (al_slots al ! nat i)] \<rparr>"
        have "al_ok ?al" using assms(1) i by (auto simp: al_ok_def nth_list_update)
        moreover have "al_DeleteSlot a slot ?al = Some al"
          using Some i new by (simp add: al_DeleteSlot_def Let_def)
        ultimately show ?thesis using assms(2) Some False new slot by (simp add: al_AddSlot_def Let_def)
      qed
    qed
  qed
qed

lemma AddSlot_logged:
  assumes "state_ok env s"
  shows "some_logged env s (AddSlotToAccessList a k s)"
proof -
  obtain ad sl al where r: "al_AddSlot a k (sd_accessList s) = ((ad, sl), al)" by (metis prod.exhaust)
  note ok = state_okD(2) [OF assms]
  show ?thesis
    using ok r
  proof (cases rule: al_AddSlot_cases)
    case none
    then show ?thesis
      using some_logged_quiet [OF quiet_refl [OF assms]] by (simp add: AddSlotToAccessList_def r Let_def)
  next
    case slot
    then show ?thesis
      using ok by (intro logged_simple [OF assms, where ch = "accessListAddSlotChange a k"])
        (simp_all add: AddSlotToAccessList_def r Let_def view_append vdirty_def entry_ok_def state_ok_def)
  next
    case both
    let ?al1 = "(sd_accessList s)\<lparr> al_addresses := (al_addresses (sd_accessList s))(a \<mapsto> -1) \<rparr>"
    let ?s = "AddSlotToAccessList a k s"
    have "logged env s ?s [accessListAddAccountChange a, accessListAddSlotChange a k]"
      unfolding logged_def
    proof (intro conjI)
      show "same_base env s ?s" by (rule same_baseI) (simp_all add: AddSlotToAccessList_def r both Let_def)
      show "vundos env (sd_snap s) (rev [accessListAddAccountChange a, accessListAddSlotChange a k]) (view env ?s) = Some (view env s)"
        using both al_ok_AddAddress [OF ok]
        by (simp add: AddSlotToAccessList_def r Let_def view_append vdirty_def vundirty_def al_DeleteAddress_def fun_upd_idem)
    qed (use assms both in \<open>simp_all add: AddSlotToAccessList_def r Let_def state_ok_def entry_ok_def\<close>)
    then show ?thesis by (auto simp: some_logged_def)
  qed
qed

text \<open>Every operation but the two on snapshots.\<close>

lemma op_logged:
  assumes "env_ok env" "state_ok env s" "op \<noteq> OpSnapshot" "\<And>i. op \<noteq> OpRevertToSnapshot i" "apply_op env op s = Some s'"
  shows "some_logged env s s'"
proof -
  note facts = balance_ops_logged [OF assms(1,2)] nonce_ops_logged [OF assms(1,2)] contract_ops_logged [OF assms(1,2)]
    SelfDestruct_logged [OF assms(2)] SelfDestruct6780_logged [OF assms(2)] simple_ops_logged [OF assms(2)]
    AddAddress_logged [OF assms(2)] AddSlot_logged [OF assms(2)] reads_quiet [OF assms(1,2), THEN some_logged_quiet]
    create_logged(1) [OF assms(1,2), folded some_logged_def]
  show ?thesis
    using assms(3-5)
    by (cases op) (auto simp: CreateAccount_def createObject_def CreateEOA_def CreateSmartContractAccountWithKey_def intro: facts)
qed

section \<open>Snapshots\<close>

lemma sort_Search_eq:
  assumes "i \<le> k" "k \<le> j" "\<And>m. i \<le> m \<Longrightarrow> m < k \<Longrightarrow> \<not> f m" "\<And>m. k \<le> m \<Longrightarrow> m < j \<Longrightarrow> f m"
  shows "sort_Search f i j = k"
  using assms
proof (induction f i j rule: sort_Search.induct)
  case (1 f i j)
  show ?case
  proof (cases "i < j")
    case True
    let ?h = "(i + j) div 2"
    have h: "i \<le> ?h" "?h < j" using True by simp_all
    show ?thesis
    proof (cases "f ?h")
      case f: True
      then have "k \<le> ?h" using "1.prems"(3) h(1) by (meson not_less)
      then show ?thesis using "1.IH"(2) [OF True HOL.refl] f True "1.prems" h by (simp add: sort_Search.simps [of f i j])
    next
      case f: False
      then have "?h < k" using "1.prems"(4) h(2) by (meson not_less)
      then show ?thesis using "1.IH"(1) [OF True HOL.refl] f True "1.prems" by (simp add: sort_Search.simps [of f i j])
    qed
  qed (use "1.prems" in \<open>simp add: sort_Search.simps [of f i j]\<close>)
qed

lemma sort_Search_bound: "i \<le> j \<Longrightarrow> sort_Search f i j \<le> j"
proof (induction f i j rule: sort_Search.induct)
  case (1 f i j)
  show ?case
  proof (cases "i < j")
    case True
    let ?h = "(i + j) div 2"
    have h: "i \<le> ?h" "?h < j" using True by simp_all
    show ?thesis
      using "1.IH"(1) [OF True HOL.refl] "1.IH"(2) [OF True HOL.refl] h
      by (cases "f ?h") (simp_all add: sort_Search.simps [of f i j])
  qed (use "1.prems" sort_Search.simps [of f i j] in simp)
qed

text \<open>The stack of revisions: increasing identifiers and positions in the journal.\<close>

definition revs_ok :: "StateDB \<Rightarrow> bool" where
  "revs_ok s \<longleftrightarrow>
     sorted_wrt (<) (map fst (sd_validRevisions s)) \<and> sorted (map snd (sd_validRevisions s)) \<and>
     (\<forall>(i, n) \<in> set (sd_validRevisions s). i < sd_nextRevisionId s \<and> n \<le> length (jr_entries (sd_journal s)))"

text \<open>What a run since \<open>s0\<close> keeps: undoing the entries added since then gives back what \<open>s0\<close> shows.\<close>

definition since :: "stateEnv \<Rightarrow> StateDB \<Rightarrow> StateDB \<Rightarrow> bool" where
  "since env s0 s \<longleftrightarrow>
     state_ok env s \<and> sd_snap s = sd_snap s0 \<and> stored env s = stored env s0 \<and> revs_ok s \<and>
     (\<exists>new. jr_entries (sd_journal s) = jr_entries (sd_journal s0) @ new \<and>
       (\<forall>ch \<in> set new. entry_ok env (stored env s0) ch) \<and>
       vundos env (sd_snap s0) (rev new) (view env s) = Some (view env s0)) \<and>
     (\<exists>later. sd_validRevisions s = sd_validRevisions s0 @ later \<and>
       (\<forall>(i, n) \<in> set later. length (jr_entries (sd_journal s0)) \<le> n))"

lemma since_refl: "state_ok env s \<Longrightarrow> revs_ok s \<Longrightarrow> since env s s"
  by (auto simp: since_def)

lemma since_logged:
  assumes "since env s0 s" "logged env s s' xs"
  shows "since env s0 s'"
proof -
  obtain new where new: "jr_entries (sd_journal s) = jr_entries (sd_journal s0) @ new"
    "\<forall>ch \<in> set new. entry_ok env (stored env s0) ch" "vundos env (sd_snap s0) (rev new) (view env s) = Some (view env s0)"
    using assms(1) by (auto simp: since_def)
  have b: "sd_snap s = sd_snap s0" "stored env s = stored env s0" "same_base env s s'"
    using assms by (auto simp: since_def logged_def)
  have "vundos env (sd_snap s0) (rev (new @ xs)) (view env s') = Some (view env s0)"
    using assms(2) new(3) b by (simp add: logged_def vundos_append)
  moreover have "\<forall>ch \<in> set (new @ xs). entry_ok env (stored env s0) ch" "jr_entries (sd_journal s') = jr_entries (sd_journal s0) @ new @ xs"
    using assms(2) new b by (auto simp: logged_def)
  moreover have "revs_ok s'" using assms by (fastforce simp: since_def logged_def revs_ok_def same_base_def)
  ultimately show ?thesis
    using assms b unfolding since_def logged_def same_base_def by auto
qed

lemma since_snapshot:
  assumes "since env s0 s"
  shows "since env s0 (snd (Snapshot s))"
proof -
  have "revs_ok (snd (Snapshot s))"
    using assms by (fastforce simp: since_def revs_ok_def Snapshot_def Let_def sorted_wrt_append)
  moreover have "length (jr_entries (sd_journal s0)) \<le> length (jr_entries (sd_journal s))"
    using assms by (auto simp: since_def)
  ultimately show ?thesis
    using assms by (auto simp: since_def Snapshot_def Let_def)
qed

lemma revert_index:
  assumes "revs_ok s" "k < length (sd_validRevisions s)" "sd_validRevisions s ! k = (i, n)"
  shows "RevertToSnapshot env i s =
    map_option (\<lambda>s1. s1\<lparr> sd_validRevisions := take k (sd_validRevisions s1) \<rparr>) (journal_revert env n s)"
proof -
  let ?revs = "sd_validRevisions s"
  have sorted: "sorted_wrt (<) (map fst ?revs)" using assms(1) by (simp add: revs_ok_def)
  have i: "map fst ?revs ! k = i" using assms(2,3) by simp
  have "sort_Search (\<lambda>j. i \<le> fst (?revs ! j)) 0 (length ?revs) = k"
  proof (rule sort_Search_eq)
    show "\<not> i \<le> fst (?revs ! m)" if "m < k" for m
      using sorted_wrt_nth_less [OF sorted, of m k] that assms(2) i by simp
    show "i \<le> fst (?revs ! m)" if "k \<le> m" "m < length ?revs" for m
      using sorted_wrt_nth_less [OF sorted, of k m] that i assms(3) by (cases "m = k") auto
  qed (use assms(2) in simp_all)
  then show ?thesis using assms(2,3) by (simp add: RevertToSnapshot_def Let_def)
qed

lemma since_revert:
  assumes env: "env_ok env" and s: "since env s0 s"
    and k: "k < length (sd_validRevisions s)" "sd_validRevisions s ! k = (i, n)" "length (jr_entries (sd_journal s0)) \<le> n"
  obtains s2 where "RevertToSnapshot env i s = Some s2" "state_ok env s2" "same_base env (s\<lparr> sd_validRevisions := take k (sd_validRevisions s) \<rparr>) s2"
    "jr_entries (sd_journal s2) = take n (jr_entries (sd_journal s))"
    "vundos env (sd_snap s0) (rev (drop (length (jr_entries (sd_journal s0))) (take n (jr_entries (sd_journal s))))) (view env s2) = Some (view env s0)"
proof -
  obtain new where new: "jr_entries (sd_journal s) = jr_entries (sd_journal s0) @ new"
    "\<forall>ch \<in> set new. entry_ok env (stored env s0) ch" "vundos env (sd_snap s0) (rev new) (view env s) = Some (view env s0)"
    using s by (auto simp: since_def)
  have b: "state_ok env s" "revs_ok s" "sd_snap s = sd_snap s0" "stored env s = stored env s0" using s by (auto simp: since_def)
  let ?l = "length (jr_entries (sd_journal s0))"
  have n: "drop n (jr_entries (sd_journal s)) = drop (n - ?l) new" "drop ?l (take n (jr_entries (sd_journal s))) = take (n - ?l) new"
    using new(1) k(3) by simp_all
  have "rev new = rev (drop (n - ?l) new) @ rev (take (n - ?l) new)" by (metis append_take_drop_id rev_append)
  then obtain V where V: "vundos env (sd_snap s) (rev (drop (n - ?l) new)) (view env s) = Some V"
    "vundos env (sd_snap s0) (rev (take (n - ?l) new)) V = Some (view env s0)"
    using new(3) b(3) by (auto simp: vundos_append bind_eq_Some_conv)
  have ok: "\<And>ch. ch \<in> set (rev (drop (n - ?l) new)) \<Longrightarrow> entry_ok env (stored env s) ch"
    using new(2) b(4) by (auto dest: in_set_dropD)
  obtain s1 where s1: "undo_entries env (rev (drop (n - ?l) new)) s = Some s1" "view env s1 = V" "state_ok env s1" "same_base env s s1"
    "jr_entries (sd_journal s1) = jr_entries (sd_journal s)"
    using undo_entries_ok [OF env b(1) ok V(1)] by auto
  let ?s1 = "s1\<lparr> sd_journal := (sd_journal s1)\<lparr> jr_entries := take n (jr_entries (sd_journal s1)) \<rparr> \<rparr>"
  let ?s2 = "?s1\<lparr> sd_validRevisions := take k (sd_validRevisions ?s1) \<rparr>"
  have "RevertToSnapshot env i s = Some ?s2"
    by (simp add: revert_index [OF b(2) k(1,2)] journal_revert_def n(1) s1(1))
  moreover have "view env ?s2 = V" using s1(2) by (auto simp: view_def GetLogs_def GetTransientState_def)
  moreover have "same_base env (s\<lparr> sd_validRevisions := take k (sd_validRevisions s) \<rparr>) ?s2"
    using s1(4) by (simp add: same_base_def)
  ultimately show ?thesis using that [of ?s2] s1(3,5) V(2) n(2) by simp
qed

text \<open>The revisions that are valid below a new snapshot stay valid.\<close>

lemma sorted_takes: "sorted_wrt R xs \<Longrightarrow> sorted_wrt R (take k xs)"
  by (metis append_take_drop_id sorted_wrt_append)

lemma since_revert_op:
  assumes env: "env_ok env" and s: "since env s0 s" and i: "\<forall>(j, n) \<in> set (sd_validRevisions s0). j < i"
    and r: "RevertToSnapshot env i s = Some s'"
  shows "since env s0 s'"
proof -
  obtain later where later: "sd_validRevisions s = sd_validRevisions s0 @ later"
    "\<forall>(i, n) \<in> set later. length (jr_entries (sd_journal s0)) \<le> n" using s by (auto simp: since_def)
  obtain new where new: "jr_entries (sd_journal s) = jr_entries (sd_journal s0) @ new" "\<forall>ch \<in> set new. entry_ok env (stored env s0) ch"
    using s by (auto simp: since_def)
  have b: "revs_ok s" using s by (simp add: since_def)
  let ?k = "sort_Search (\<lambda>m. fst (sd_validRevisions s ! m) \<ge> i) 0 (length (sd_validRevisions s))"
  obtain n where k0: "?k \<noteq> length (sd_validRevisions s)" "sd_validRevisions s ! ?k = (i, n)"
    using r by (auto simp: RevertToSnapshot_def Let_def split: if_splits) (metis prod.collapse)
  have k: "?k < length (sd_validRevisions s)"
    using k0(1) sort_Search_bound [of 0 "length (sd_validRevisions s)"] by (meson le_neq_implies_less zero_le)
  have ge: "length (sd_validRevisions s0) \<le> ?k"
  proof (rule ccontr)
    assume "\<not> length (sd_validRevisions s0) \<le> ?k"
    then have "(i, n) \<in> set (sd_validRevisions s0)" using k0(2) later(1) by (metis not_le nth_append nth_mem)
    then show False using i by auto
  qed
  define m where "m = ?k - length (sd_validRevisions s0)"
  have "later ! m = (i, n)" "m < length later" using ge k k0(2) later(1) by (simp_all add: m_def nth_append less_diff_conv2)
  then have "(i, n) \<in> set later" using nth_mem by metis
  then have n: "length (jr_entries (sd_journal s0)) \<le> n" using later(2) by auto
  obtain s2 where s2: "RevertToSnapshot env i s = Some s2" "state_ok env s2"
    "same_base env (s\<lparr> sd_validRevisions := take ?k (sd_validRevisions s) \<rparr>) s2" "jr_entries (sd_journal s2) = take n (jr_entries (sd_journal s))"
    "vundos env (sd_snap s0) (rev (drop (length (jr_entries (sd_journal s0))) (take n (jr_entries (sd_journal s))))) (view env s2) = Some (view env s0)"
    using since_revert [OF env s k k0(2) n] by metis
  have e: "s2 = s'" using r s2(1) by simp
  have revs: "sd_validRevisions s2 = take ?k (sd_validRevisions s)" "sd_nextRevisionId s2 = sd_nextRevisionId s" "sd_snap s2 = sd_snap s0" "stored env s2 = stored env s0"
    using s2(3) s by (auto simp: same_base_def since_def)
  have below: "m \<le> n" if jm: "(j, m) \<in> set (take ?k (sd_validRevisions s))" for j m
  proof -
    obtain l where l: "l < ?k" "sd_validRevisions s ! l = (j, m)" using jm by (auto simp: in_set_conv_nth)
    have "map snd (sd_validRevisions s) ! l \<le> map snd (sd_validRevisions s) ! ?k"
      by (rule sorted_nth_mono) (use b l(1) k in \<open>auto simp: revs_ok_def\<close>)
    then show ?thesis using l k k0(2) by simp
  qed
  have nlen: "n \<le> length (jr_entries (sd_journal s))"
    using b k0(2) k by (auto simp: revs_ok_def) (metis (mono_tags, lifting) case_prodD nth_mem)
  have "revs_ok s2"
    unfolding revs_ok_def revs take_map [symmetric] using b below nlen
    by (auto simp: revs_ok_def s2(4) sorted_takes sorted_wrt_take dest: in_set_takeD)
  moreover have "jr_entries (sd_journal s2) = jr_entries (sd_journal s0) @ take (n - length (jr_entries (sd_journal s0))) new"
    using s2(4) new(1) n by simp
  moreover have "\<forall>ch \<in> set (take (n - length (jr_entries (sd_journal s0))) new). entry_ok env (stored env s0) ch"
    using new(2) by (auto dest: in_set_takeD)
  moreover have "sd_validRevisions s2 = sd_validRevisions s0 @ take (?k - length (sd_validRevisions s0)) later"
    using revs(1) later(1) ge by simp
  ultimately show ?thesis
    using s2(2,5) later(2) new(1) n revs(3,4) unfolding since_def e [symmetric] by (auto dest!: in_set_takeD)
qed

end
