(* ===== verification/State_Rollback.thy ===== *)
theory State_Rollback
  imports State_Snapshots
begin

text \<open>
  The property of the journal: whatever a transaction does to the state after a snapshot, nested snapshots included,
  reverting to the snapshot succeeds and every read returns what it returned when the snapshot was taken.
\<close>

fun run_ops :: "stateEnv \<Rightarrow> stateOp list \<Rightarrow> StateDB \<Rightarrow> StateDB option" where
  "run_ops env [] s = Some s"
| "run_ops env (op # ops) s = Option.bind (apply_op env op s) (run_ops env ops)"

lemma run_since:
  assumes "env_ok env" "since env s0 s" "run_ops env ops s = Some s'"
    "\<And>i. OpRevertToSnapshot i \<in> set ops \<Longrightarrow> \<forall>(j, n) \<in> set (sd_validRevisions s0). j < i"
  shows "since env s0 s'"
  using assms(2-)
proof (induction ops arbitrary: s)
  case Nil
  then show ?case by simp
next
  case (Cons op ops)
  obtain s1 where s1: "apply_op env op s = Some s1" "run_ops env ops s1 = Some s'"
    using Cons.prems(2) by (auto simp: bind_eq_Some_conv)
  have "since env s0 s1"
  proof (cases op)
    case (OpRevertToSnapshot i)
    then show ?thesis
      using since_revert_op [OF assms(1) Cons.prems(1) _, of i s1] Cons.prems(3) [of i] s1(1) by simp
  next
    case OpSnapshot
    then show ?thesis using since_snapshot [OF Cons.prems(1)] s1(1) by simp
  qed (use op_logged [OF assms(1) _ _ _ s1(1)] Cons.prems(1) since_logged [OF Cons.prems(1)] in
      \<open>auto simp: some_logged_def since_def simp del: apply_op.simps\<close>)
  then show ?case using Cons.IH s1(2) Cons.prems(3) by simp
qed

section \<open>Reads\<close>

lemma read_object:
  assumes "state_ok env s"
  obtains r s1 where "getStateObject env a s = (r, s1)" "state_ok env s1"
    "map_option (oview env (sd_snap s) (sd_snapDestructs s)) r = live (view env s) a"
    "sd_snap s1 = sd_snap s" "sd_snapDestructs s1 = sd_snapDestructs s" "\<And>o1. r = Some o1 \<Longrightarrow> obj_ok env o1"
proof -
  obtain r s1 where g: "getStateObject env a s = (r, s1)" "quiet env s s1"
    "r = (case resolved env s a of None \<Rightarrow> None | Some o1 \<Rightarrow> if so_deleted o1 then None else Some o1)"
    using getStateObject_ok [OF assms, of a] by metis
  have "map_option (oview env (sd_snap s) (sd_snapDestructs s)) r = live (view env s) a"
    unfolding g(3) live_view by (simp split: option.splits)
  moreover have "sd_snap s1 = sd_snap s" "sd_snapDestructs s1 = sd_snapDestructs s" "state_ok env s1"
    using g(2) view_fields(1) [of env s1] view_fields(1) [of env s] by (auto simp: quiet_def same_base_def)
  moreover have "obj_ok env o1" if "r = Some o1" for o1
    using resolved_ok [OF assms, of a] that unfolding g(3) by (auto split: option.splits if_splits)
  ultimately show ?thesis using that g(1) by blast
qed

lemma reads_of_view:
  assumes "env_ok env" "state_ok env s"
  shows "fst (Exist env a s) = (live (view env s) a \<noteq> None)"
    "fst (GetAccount env a s) = map_option ov_account (live (view env s) a)"
    "fst (GetCode env a s) = Option.bind (live (view env s) a) ov_code"
    "fst (GetState env a k s) = (case live (view env s) a of None \<Rightarrow> 0 | Some ov \<Rightarrow> ov_state ov k)"
    "fst (GetCommittedState env a k s) = (case live (view env s) a of None \<Rightarrow> 0 | Some ov \<Rightarrow> ov_committed ov k)"
    "fst (HasSelfDestructed env a s) = (case live (view env s) a of None \<Rightarrow> False | Some ov \<Rightarrow> ov_selfDestructed ov)"
proof -
  obtain r s1 where g: "getStateObject env a s = (r, s1)" "state_ok env s1"
    "map_option (oview env (sd_snap s) (sd_snapDestructs s)) r = live (view env s) a"
    "sd_snap s1 = sd_snap s" "sd_snapDestructs s1 = sd_snapDestructs s" "\<And>o1. r = Some o1 \<Longrightarrow> obj_ok env o1"
    using read_object [OF assms(2), of a] by metis
  note e = g(3) [symmetric]
  show "fst (Exist env a s) = (live (view env s) a \<noteq> None)" unfolding e by (simp add: Exist_def g(1))
  show "fst (GetAccount env a s) = map_option ov_account (live (view env s) a)"
    unfolding e by (cases r) (simp_all add: GetAccount_def g(1) oview_def)
  show "fst (HasSelfDestructed env a s) = (case live (view env s) a of None \<Rightarrow> False | Some ov \<Rightarrow> ov_selfDestructed ov)"
    unfolding e by (cases r) (simp_all add: HasSelfDestructed_def g(1) oview_def)
  show "fst (GetCode env a s) = Option.bind (live (view env s) a) ov_code"
    unfolding e using so_Code_ok(1) g(6) by (cases r) (simp_all add: GetCode_def g(1) oview_def case_prod_beta)
  show "fst (GetState env a k s) = (case live (view env s) a of None \<Rightarrow> 0 | Some ov \<Rightarrow> ov_state ov k)"
    unfolding e using so_GetState_ok(1) [OF assms(1) g(6), of _ s1 k]
    by (cases r) (simp_all add: GetState_def g(1,4,5) case_prod_beta)
  show "fst (GetCommittedState env a k s) = (case live (view env s) a of None \<Rightarrow> 0 | Some ov \<Rightarrow> ov_committed ov k)"
    unfolding e using so_GetCommittedState_ok(1) [OF assms(1) g(6), of _ s1 k]
    by (cases r) (simp_all add: GetCommittedState_def g(1,4,5) oview_def case_prod_beta)
qed

text \<open>The reads that follow from the account.\<close>

lemma account_reads:
  "fst (GetBalance env a s) = (case fst (GetAccount env a s) of None \<Rightarrow> 0 | Some acc \<Rightarrow> GetBalance_acc acc)"
  "fst (GetNonce env a s) = (case fst (GetAccount env a s) of None \<Rightarrow> 0 | Some acc \<Rightarrow> GetNonce_acc acc)"
  "fst (Empty env a s) = (case fst (GetAccount env a s) of None \<Rightarrow> True | Some acc \<Rightarrow> Empty_acc (emptyCodeHash env) acc)"
  "fst (GetCodeHash env a s) =
     (case fst (GetAccount env a s) of None \<Rightarrow> emptyCodeHash env | Some acc \<Rightarrow> or_else (GetCodeHash_acc acc) (emptyCodeHash env))"
  by (auto simp: GetBalance_def GetNonce_def Empty_def GetCodeHash_def GetAccount_def so_CodeHash_def split: prod.splits option.splits)

definition same_reads :: "stateEnv \<Rightarrow> StateDB \<Rightarrow> StateDB \<Rightarrow> bool" where
  "same_reads env s t \<longleftrightarrow>
     (\<forall>a. fst (Exist env a s) = fst (Exist env a t) \<and> fst (Empty env a s) = fst (Empty env a t) \<and>
          fst (GetAccount env a s) = fst (GetAccount env a t) \<and> fst (GetBalance env a s) = fst (GetBalance env a t) \<and>
          fst (GetNonce env a s) = fst (GetNonce env a t) \<and> fst (GetCode env a s) = fst (GetCode env a t) \<and>
          fst (GetCodeHash env a s) = fst (GetCodeHash env a t) \<and>
          fst (HasSelfDestructed env a s) = fst (HasSelfDestructed env a t) \<and>
          (\<forall>k. fst (GetState env a k s) = fst (GetState env a k t) \<and>
               fst (GetCommittedState env a k s) = fst (GetCommittedState env a k t) \<and>
               GetTransientState a k s = GetTransientState a k t)) \<and>
     (\<forall>h. GetLogs h s = GetLogs h t) \<and> sd_logSize s = sd_logSize t \<and> sd_refund s = sd_refund t \<and>
     sd_preimages s = sd_preimages t \<and> sd_accessList s = sd_accessList t \<and>
     (\<forall>a. a \<noteq> ripemd \<longrightarrow> dirty_count (jr_dirties (sd_journal s)) a = dirty_count (jr_dirties (sd_journal t)) a)"

lemma same_view_reads:
  assumes "env_ok env" "state_ok env s" "state_ok env t" "view env s = view env t"
  shows "same_reads env s t"
proof -
  have d: "dirty_count (jr_dirties (sd_journal s)) a = dirty_count (jr_dirties (sd_journal t)) a" if "a \<noteq> ripemd" for a
    using that arg_cong [OF assms(4), of "\<lambda>V. vw_dirties V a"] by (simp add: dirties_of_def)
  have f: "GetTransientState a k s = GetTransientState a k t" "GetLogs h s = GetLogs h t" "sd_logSize s = sd_logSize t"
    "sd_refund s = sd_refund t" "sd_preimages s = sd_preimages t" "sd_accessList s = sd_accessList t" for a k h
    using arg_cong [OF assms(4), of "\<lambda>V. vw_transient V a k"] arg_cong [OF assms(4), of "\<lambda>V. vw_logs V h"]
      arg_cong [OF assms(4), of vw_logSize] arg_cong [OF assms(4), of vw_refund] arg_cong [OF assms(4), of vw_preimages]
      arg_cong [OF assms(4), of vw_accessList] by simp_all
  show ?thesis
    unfolding same_reads_def account_reads reads_of_view [OF assms(1,2)] reads_of_view [OF assms(1,3)] assms(4)
    using d f by simp
qed

section \<open>The property\<close>

text \<open>C7: After a snapshot, let any sequence of balance, nonce, code, storage, account creation, self-destruct, log, preimage,
  refund, transient storage and access list operations, of reads, of further snapshots and of reverts to those, run
  without a panic. Then reverting to the snapshot succeeds, the journal and the stack of revisions are those from before
  it, and every read, committed storage included, returns what it returned then, with the same dirty counts.\<close>

theorem revert_to_snapshot_restores:
  assumes "env_ok env" "state_ok env s" "revs_ok s" "Snapshot s = (revid, s0)" "run_ops env ops s0 = Some s1"
    and "\<And>i. OpRevertToSnapshot i \<in> set ops \<Longrightarrow> revid < i"
  shows "\<exists>s2. RevertToSnapshot env revid s1 = Some s2 \<and> same_reads env s2 s \<and>
    jr_entries (sd_journal s2) = jr_entries (sd_journal s) \<and> sd_validRevisions s2 = sd_validRevisions s \<and> state_ok env s2"
proof -
  let ?n = "length (jr_entries (sd_journal s))" and ?k = "length (sd_validRevisions s)"
  have s0: "s0 = s\<lparr> sd_nextRevisionId := revid + 1, sd_validRevisions := sd_validRevisions s @ [(revid, ?n)] \<rparr>" "revid = sd_nextRevisionId s"
    using assms(4) by (auto simp: Snapshot_def Let_def)
  have "since env s s" by (rule since_refl [OF assms(2,3)])
  then have "since env s s0" using since_snapshot [of env s s] assms(4) by simp
  then have ok0: "since env s0 s0" by (intro since_refl) (simp_all add: since_def)
  have "\<forall>(j, n) \<in> set (sd_validRevisions s0). j < i" if "revid < i" for i
    using that assms(3) by (auto simp: s0 revs_ok_def)
  then have s1: "since env s0 s1" using run_since [OF assms(1) ok0 assms(5)] assms(6) by blast
  have k: "?k < length (sd_validRevisions s1)" "sd_validRevisions s1 ! ?k = (revid, ?n)"
    using s1 by (auto simp: since_def s0 nth_append)
  have n0: "length (jr_entries (sd_journal s0)) = ?n" by (simp add: s0)
  then have le: "length (jr_entries (sd_journal s0)) \<le> ?n" by simp
  obtain s2 where s2: "RevertToSnapshot env revid s1 = Some s2" "state_ok env s2"
    "same_base env (s1\<lparr> sd_validRevisions := take ?k (sd_validRevisions s1) \<rparr>) s2" "jr_entries (sd_journal s2) = take ?n (jr_entries (sd_journal s1))"
    "vundos env (sd_snap s0) (rev (drop (length (jr_entries (sd_journal s0))) (take ?n (jr_entries (sd_journal s1))))) (view env s2) = Some (view env s0)"
    using since_revert [OF assms(1) s1 k le] by metis
  have "view env s2 = view env s0" using s2(5) by (simp add: n0)
  then have "view env s2 = view env s" by (simp add: s0)
  then have "same_reads env s2 s" by (rule same_view_reads [OF assms(1) s2(2) assms(2)])
  moreover have "jr_entries (sd_journal s2) = jr_entries (sd_journal s)" using s1 s2(4) by (auto simp: since_def s0)
  moreover have "sd_validRevisions s2 = sd_validRevisions s" using s1 s2(3) by (auto simp: since_def same_base_def s0)
  ultimately show ?thesis using s2(1,2) by blast
qed

section \<open>The journal names every change\<close>

lemma vrevert_frame:
  assumes "vrevert env snap ch V = Some V'"
  shows "\<not> concerns a ch \<Longrightarrow> vw_objs V' a = vw_objs V a" "vw_dirties V' = vw_dirties V"
  using assms
  by (cases ch; auto simp: concerns_def vobj_def Let_def split: option.splits if_splits)+

lemma vundos_frame:
  assumes "vundos env snap chs V = Some V'"
  shows "(\<And>ch. ch \<in> set chs \<Longrightarrow> \<not> concerns a ch) \<Longrightarrow> vw_objs V' a = vw_objs V a"
    "a \<noteq> ripemd \<Longrightarrow> vw_dirties V a = vw_dirties V' a + int (length (filter (\<lambda>ch. dirtied ch = Some a) chs))"
proof -
  have "((\<forall>ch \<in> set chs. \<not> concerns a ch) \<longrightarrow> vw_objs V' a = vw_objs V a) \<and>
    (a \<noteq> ripemd \<longrightarrow> vw_dirties V a = vw_dirties V' a + int (length (filter (\<lambda>ch. dirtied ch = Some a) chs)))"
    using assms
  proof (induction chs arbitrary: V)
    case (Cons ch chs)
    obtain V1 where V1: "vrevert env snap ch V = Some V1" "vundos env snap chs (vundirty ch V1) = Some V'"
      using Cons.prems by (auto simp: bind_eq_Some_conv)
    have "vw_objs (vundirty ch V1) = vw_objs V1" by (simp add: vundirty_def split: option.split)
    moreover have "vw_dirties (vundirty ch V1) a = vw_dirties V a - (if dirtied ch = Some a then 1 else 0)" if "a \<noteq> ripemd"
      using that vrevert_frame(2) [OF V1(1)] by (simp add: vundirty_def split: option.split)
    ultimately show ?case using Cons.IH [OF V1(2)] vrevert_frame(1) [OF V1(1), of a] by auto
  qed simp
  then show "(\<And>ch. ch \<in> set chs \<Longrightarrow> \<not> concerns a ch) \<Longrightarrow> vw_objs V' a = vw_objs V a"
    "a \<noteq> ripemd \<Longrightarrow> vw_dirties V a = vw_dirties V' a + int (length (filter (\<lambda>ch. dirtied ch = Some a) chs))" by auto
qed

text \<open>C15: From a state with an empty journal, as it is at the start of a transaction, every sequence of operations, reverts to any
  valid revision included, leaves a well-formed state: objects under their own address and hash, an access list whose indices
  are in range, an increasing stack of revisions into the journal. The count of a dirty account is the number of journal
  entries that dirty it, and an account that no entry concerns reads as it did at the start.\<close>

theorem state_well_formed:
  assumes "env_ok env" "state_ok env s" "sd_journal s = \<lparr> jr_entries = [], jr_dirties = [] \<rparr>" "sd_validRevisions s = []"
    and "run_ops env ops s = Some s'"
  shows "state_ok env s' \<and> revs_ok s' \<and>
    (a \<noteq> ripemd \<longrightarrow> dirty_count (jr_dirties (sd_journal s')) a =
       int (length (filter (\<lambda>ch. dirtied ch = Some a) (jr_entries (sd_journal s'))))) \<and>
    ((\<forall>ch \<in> set (jr_entries (sd_journal s')). \<not> concerns a ch) \<longrightarrow>
       fst (GetAccount env a s') = fst (GetAccount env a s) \<and> fst (GetCode env a s') = fst (GetCode env a s) \<and>
       fst (GetState env a k s') = fst (GetState env a k s) \<and> fst (HasSelfDestructed env a s') = fst (HasSelfDestructed env a s))"
proof -
  have "revs_ok s" using assms(3,4) by (simp add: revs_ok_def)
  then have s': "since env s s'"
    using run_since [OF assms(1) since_refl [OF assms(2)] assms(5)] assms(4) by simp
  then obtain V where ok: "state_ok env s'" "revs_ok s'"
    and u: "vundos env (sd_snap s) (rev (jr_entries (sd_journal s'))) (view env s') = Some (view env s)"
    using assms(3) by (auto simp: since_def)
  have "dirty_count (jr_dirties (sd_journal s')) a = int (length (filter (\<lambda>ch. dirtied ch = Some a) (jr_entries (sd_journal s'))))"
    if "a \<noteq> ripemd"
    using vundos_frame(2) [OF u that] that assms(3) by (simp add: dirties_of_def dirty_count_def or_else_def rev_filter [symmetric])
  moreover have "fst (GetAccount env a s') = fst (GetAccount env a s) \<and> fst (GetCode env a s') = fst (GetCode env a s) \<and>
       fst (GetState env a k s') = fst (GetState env a k s) \<and> fst (HasSelfDestructed env a s') = fst (HasSelfDestructed env a s)"
    if "\<forall>ch \<in> set (jr_entries (sd_journal s')). \<not> concerns a ch"
  proof -
    have "vw_objs (view env s) a = vw_objs (view env s') a" using vundos_frame(1) [OF u] that by simp
    then have "live (view env s') a = live (view env s) a" by (simp add: live_def del: view_fields(10))
    then show ?thesis by (simp add: reads_of_view [OF assms(1,2)] reads_of_view [OF assms(1) ok(1)])
  qed
  ultimately show ?thesis using ok by blast
qed

text \<open>A database without nodes, with a collision-free stand-in for the hash of an address.\<close>

lemma BytesToHash_snoc: "BytesToHash (xs @ [x]) = 256 * BytesToHash xs + ucast x"
  by (simp add: BytesToHash_def)

lemma unat_BytesToHash:
  "length xs \<le> 32 \<Longrightarrow> unat (BytesToHash xs) = foldl (\<lambda>n x. 256 * n + unat x) 0 xs \<and> unat (BytesToHash xs) < 256 ^ length xs"
proof (induction xs rule: rev_induct)
  case Nil
  then show ?case by (simp add: BytesToHash_def)
next
  case (snoc x xs)
  let ?h = "BytesToHash xs"
  have IH: "unat ?h = foldl (\<lambda>n x. 256 * n + unat x) 0 xs" "unat ?h < 256 ^ length xs" using snoc by auto
  have x: "unat x < 256" using unsigned_less [of x] by simp
  have "256 * unat ?h + unat x < 256 * 256 ^ length xs" using IH(2) x by linarith
  moreover have "(256::nat) * 256 ^ length xs \<le> 2 ^ 256"
  proof -
    have "(256::nat) * 256 ^ length xs = 2 ^ (8 * Suc (length xs))" by (simp add: power_add power_mult)
    also have "\<dots> \<le> 2 ^ 256" using snoc.prems by (intro power_increasing) auto
    finally show ?thesis .
  qed
  ultimately have "unat (256 * ?h + ucast x) = 256 * unat ?h + unat x"
    by (simp add: unat_word_ariths unsigned_ucast_eq take_bit_eq_mod)
  then show ?case using IH(1) \<open>256 * unat ?h + unat x < 256 * 256 ^ length xs\<close> by (simp add: BytesToHash_snoc)
qed

lemma last_digit:
  fixes a b c d :: nat
  assumes "256 * a + b = 256 * c + d" "b < 256" "d < 256"
  shows "a = c \<and> b = d"
proof -
  have "(256 * a + b) div 256 = (256 * c + d) div 256" "(256 * a + b) mod 256 = (256 * c + d) mod 256"
    using assms(1) by simp_all
  then show ?thesis using assms(2,3) by simp
qed

lemma BytesToHash_inj:
  assumes "length xs = length ys" "length xs \<le> 32" "BytesToHash xs = BytesToHash ys"
  shows "xs = ys"
  using assms
proof (induction xs arbitrary: ys rule: rev_induct)
  case Nil
  then show ?case by simp
next
  case (snoc x xs)
  then obtain zs z where ys: "ys = zs @ [z]" by (metis Suc_length_conv length_append_singleton rev_exhaust list.size(3) nat.distinct(1))
  let ?v = "\<lambda>xs. foldl (\<lambda>n x. 256 * n + unat x) 0 xs"
  have len: "length xs = length zs" "length xs \<le> 32" using snoc.prems ys by auto
  have "256 * ?v xs + unat x = 256 * ?v zs + unat z"
    using unat_BytesToHash [of "xs @ [x]"] unat_BytesToHash [of "zs @ [z]"] snoc.prems ys by simp
  moreover have "unat x < 256" "unat z < 256" using unsigned_less [of x] unsigned_less [of z] by simp_all
  ultimately have "?v xs = ?v zs" "unat x = unat z" using last_digit by blast+
  then have "BytesToHash xs = BytesToHash zs" "x = z"
    using unat_BytesToHash [of xs] unat_BytesToHash [of zs] len by (simp_all add: word_unat_eq_iff)
  then show ?case using snoc.IH [OF len] ys by simp
qed

definition plain_env :: stateEnv where
  "plain_env = \<lparr> se_keccak = BytesToHash, se_nodes = (\<lambda>_. None), se_emptyRoot = [], se_pruning = False, se_PruningBlockNumber = 0,
     se_ContractCode = (\<lambda>_. None), se_decode = (\<lambda>_. None), se_encode = (\<lambda>_. []) \<rparr>"

definition plain_state :: StateDB where
  "plain_state = \<lparr> sd_trie = empty_storage_trie plain_env, sd_snap = None, sd_snapDestructs = {},
     sd_stateObjects = [7 \<mapsto> newObject plain_env 7 (ExternallyOwnedAccount (newAccountCommon\<lparr> ac_balance := 5 \<rparr>))],
     sd_stateObjectsDirty = {}, sd_dbErr = None, sd_refund = 0, sd_thash = 1, sd_bhash = 2, sd_txIndex = 0, sd_logs = Map.empty,
     sd_logSize = 0, sd_preimages = Map.empty, sd_accessList = newAccessList, sd_transientStorage = Map.empty,
     sd_journal = \<lparr> jr_entries = [], jr_dirties = [] \<rparr>, sd_validRevisions = [], sd_nextRevisionId = 0 \<rparr>"

lemma plain_ok: "env_ok plain_env" "state_ok plain_env plain_state" "revs_ok plain_state"
proof -
  have "inj (\<lambda>a. BytesToHash (addr_bytes a))"
  proof (rule injI)
    fix a b assume "BytesToHash (addr_bytes a) = BytesToHash (addr_bytes b)"
    then have "addr_bytes a = addr_bytes b" by (intro BytesToHash_inj) (simp_all add: addr_bytes_def word_bytes_def)
    then show "a = b" by (simp add: addr_bytes_inj)
  qed
  then show "env_ok plain_env"
    by (auto simp: env_ok_def plain_env_def openStorageTrie_def NewSecureStorageTrie_def newTrie_def Let_def trie_inv_def resolveHash_def
        result_simps split: if_splits option.splits)
  show "state_ok plain_env plain_state"
    by (auto simp: state_ok_def plain_state_def empty_storage_trie_inv newObject_ok al_ok_def newAccessList_def split: if_splits)
  show "revs_ok plain_state" by (simp add: revs_ok_def plain_state_def)
qed

lemma plain_reads: "fst (GetBalance plain_env 7 plain_state) = 5" "\<not> fst (Exist plain_env 8 plain_state)"
  by (simp_all add: GetBalance_def Exist_def getStateObject_def getDeletedStateObject_def plain_state_def snap_lookup_def
      secure_TryGet_def TryGet_def Let_def key_fuel_def empty_storage_trie_def newObject_def newAccountCommon_def or_else_def
      numeral_eq_Suc)

theorem revert_to_snapshot_restores_witness:
  "\<exists>s1 s2. run_ops plain_env [OpSubBalance 7 5, OpCreateAccount 7, OpSetState 8 1 2, OpSnapshot, OpAddRefund 4, OpSelfDestruct 8]
      (snd (Snapshot plain_state)) = Some s1 \<and>
    RevertToSnapshot plain_env 0 s1 = Some s2 \<and> fst (GetBalance plain_env 7 s2) = 5 \<and> \<not> fst (Exist plain_env 8 s2)"
proof -
  let ?ops = "[OpSubBalance 7 5, OpCreateAccount 7, OpSetState 8 1 2, OpSnapshot, OpAddRefund 4, OpSelfDestruct 8]"
  obtain s1 where s1: "run_ops plain_env ?ops (snd (Snapshot plain_state)) = Some s1" by simp
  have "Snapshot plain_state = (0, snd (Snapshot plain_state))" by (simp add: Snapshot_def plain_state_def)
  then obtain s2 where "RevertToSnapshot plain_env 0 s1 = Some s2" "same_reads plain_env s2 plain_state"
    using revert_to_snapshot_restores [OF plain_ok _ s1] by auto
  then show ?thesis using s1 plain_reads by (auto simp: same_reads_def)
qed

theorem state_well_formed_witness:
  "\<exists>s'. run_ops plain_env [OpSubBalance 7 5, OpSnapshot, OpSetState 8 1 2, OpAddRefund 4] plain_state = Some s' \<and>
    state_ok plain_env s' \<and> revs_ok s' \<and>
    dirty_count (jr_dirties (sd_journal s')) 7 = int (length (filter (\<lambda>ch. dirtied ch = Some 7) (jr_entries (sd_journal s'))))"
proof -
  let ?ops = "[OpSubBalance 7 5, OpSnapshot, OpSetState 8 1 2, OpAddRefund 4]"
  obtain s' where s': "run_ops plain_env ?ops plain_state = Some s'" by simp
  have "sd_journal plain_state = \<lparr> jr_entries = [], jr_dirties = [] \<rparr>" "sd_validRevisions plain_state = []" "(7::address) \<noteq> ripemd"
    by (simp_all add: plain_state_def ripemd_def)
  then show ?thesis using state_well_formed [OF plain_ok(1,2) _ _ s', of 7] s' by blast
qed

end
