(* ===== verification/State_Balances.thy ===== *)
theory State_Balances
  imports State_Rollback
begin

text \<open>
  What the balance operations do to the balances of all accounts, read through \<open>GetBalance\<close>, and the total over a set of
  accounts. An account that does not exist reads as zero; crediting it creates it.
\<close>

definition balance :: "stateEnv \<Rightarrow> StateDB \<Rightarrow> address \<Rightarrow> int" where
  "balance env s a = fst (GetBalance env a s)"

lemma balance_view:
  assumes "env_ok env" "state_ok env s"
  shows "balance env s a = balance_or 0 (live (view env s) a)"
  unfolding balance_def account_reads(1) reads_of_view(2) [OF assms]
  by (cases "live (view env s) a") (simp_all add: balance_or_def)

lemma balance_cong:
  assumes "env_ok env" "state_ok env s" "state_ok env t" "vw_objs (view env s) a = vw_objs (view env t) a"
  shows "balance env s a = balance env t a"
  using assms(4) unfolding balance_view [OF assms(1,2)] balance_view [OF assms(1,3)] live_def by presburger

lemma balance_quiet:
  assumes "env_ok env" "state_ok env s" "quiet env s t"
  shows "balance env t a = balance env s a"
  using assms by (intro balance_cong) (auto simp: quiet_def)

lemma balance_only:
  assumes "env_ok env" "state_ok env s" "logged env s t xs" "only a xs" "b \<noteq> a"
  shows "balance env t b = balance env s b"
proof (rule balance_cong [OF assms(1) logged_ok [OF assms(3)] assms(2)])
  have "vundos env (sd_snap s) (rev xs) (view env t) = Some (view env s)" using assms(3) by (simp add: logged_def)
  moreover have "\<not> concerns b ch" if "ch \<in> set (rev xs)" for ch using that assms(4,5) by (auto simp: only_def)
  ultimately show "vw_objs (view env t) b = vw_objs (view env s) b" by (rule vundos_frame(1) [symmetric])
qed

lemma some_logged_ok: "some_logged env s t \<Longrightarrow> state_ok env t"
  by (auto simp: some_logged_def logged_def)

lemma balance_live:
  assumes "env_ok env" "live_object env a o1 s"
  shows "balance env s a = GetBalance_acc (so_account o1)"
proof -
  have "resolved env s a = Some o1" "\<not> so_deleted o1" using assms(2) by (auto simp: live_object_def resolved_def)
  then show ?thesis
    using assms(2) by (simp add: balance_view [OF assms(1)] live_object_def live_view balance_or_def oview_def)
qed

text \<open>Setting the balance of the object that is there, or touching it.\<close>

lemma balance_so_SetBalance:
  assumes "env_ok env" "live_object env a o1 s"
  shows "balance env (so_SetBalance n o1 s) b = (if b = a then n else balance env s b)"
    "state_ok env (so_SetBalance n o1 s)"
proof -
  let ?t = "so_SetBalance n o1 s"
  have o1: "state_ok env s" "\<not> so_deleted o1" "so_address o1 = a" using live_objectD [OF assms(2)] by auto
  show ok: "state_ok env ?t" using SetBalance_logged [OF assms(2)] logged_ok by blast
  have res: "resolved env ?t = (resolved env s)(a \<mapsto> so_setBalance n o1)"
    by (simp add: so_SetBalance_def resolved_set so_setBalance_def o1(3))
  have base: "sd_snap ?t = sd_snap s" "sd_snapDestructs ?t = sd_snapDestructs s"
    by (simp_all add: so_SetBalance_def setStateObject_def)
  show "balance env ?t b = (if b = a then n else balance env s b)"
  proof (cases "b = a")
    case True
    then show ?thesis
      using o1(2) by (simp add: balance_view [OF assms(1) ok] live_view res so_setBalance_def balance_or_def oview_def)
  next
    case False
    then have "live (view env ?t) b = live (view env s) b"
      unfolding live_view res base by simp
    then show ?thesis using False by (simp add: balance_view [OF assms(1) ok] balance_view [OF assms(1) o1(1)])
  qed
qed

lemma balance_so_touch:
  assumes "env_ok env" "state_ok env s"
  shows "balance env (so_touch o1 s) b = balance env s b" "state_ok env (so_touch o1 s)"
proof -
  show ok: "state_ok env (so_touch o1 s)" by (rule some_logged_ok [OF touch_logged [OF assms(2)]])
  have base: "sd_snap (so_touch o1 s) = sd_snap s" "sd_snapDestructs (so_touch o1 s) = sd_snapDestructs s"
    "resolved env (so_touch o1 s) = resolved env s" by (simp_all add: so_touch_def Let_def)
  have "live (view env (so_touch o1 s)) b = live (view env s) b" unfolding live_view base by simp
  then show "balance env (so_touch o1 s) b = balance env s b"
    by (simp add: balance_view [OF assms(1) ok] balance_view [OF assms])
qed

lemma balance_get_or_new:
  assumes "env_ok env" "state_ok env s" "GetOrNewStateObject env a s = (o1, s1)"
  shows "live_object env a o1 s1" "balance env s1 b = balance env s b" "GetBalance_acc (so_account o1) = balance env s a"
proof -
  obtain xs where g: "live_object env a o1 s1" "logged env s s1 xs" "only a xs"
    "GetBalance_acc (so_account o1) = balance_or 0 (live (view env s) a)"
    using get_or_new_state [OF assms(1,2), of a] assms(3) by (metis prod.inject)
  show "live_object env a o1 s1" by (rule g(1))
  show e: "GetBalance_acc (so_account o1) = balance env s a" by (simp add: g(4) balance_view [OF assms(1,2)])
  show "balance env s1 b = balance env s b"
    using balance_live [OF assms(1) g(1)] e balance_only [OF assms(1,2) g(2,3)] by (cases "b = a") simp_all
qed

theorem balance_ops:
  assumes "env_ok env" "state_ok env s"
  shows "balance env (AddBalance env a n s) b = balance env s b + (if b = a then n else 0)"
    "balance env (SubBalance env a n s) b = balance env s b - (if b = a then n else 0)"
    "balance env (SetBalance env a n s) b = (if b = a then n else balance env s b)"
    "balance env (IncNonce env a s) b = balance env s b"
    "state_ok env (AddBalance env a n s)" "state_ok env (SubBalance env a n s)" "state_ok env (IncNonce env a s)"
proof -
  obtain o1 s1 where g: "GetOrNewStateObject env a s = (o1, s1)" by fastforce
  note l = balance_get_or_new [OF assms g]
  have ok: "state_ok env s1" using l(1) by (simp add: live_object_def)
  note set = balance_so_SetBalance [OF assms(1) l(1)] and touch = balance_so_touch [OF assms(1) ok]
  show "balance env (AddBalance env a n s) b = balance env s b + (if b = a then n else 0)"
    "state_ok env (AddBalance env a n s)"
    using set touch l(2,3) ok by (auto simp: AddBalance_def g so_AddBalance_def)
  show "balance env (SubBalance env a n s) b = balance env s b - (if b = a then n else 0)"
    "state_ok env (SubBalance env a n s)"
    using set l(2,3) ok by (auto simp: SubBalance_def g so_SubBalance_def)
  show "balance env (SetBalance env a n s) b = (if b = a then n else balance env s b)"
    using set l(2) by (auto simp: SetBalance_def g)
  show inc: "state_ok env (IncNonce env a s)" by (rule some_logged_ok [OF nonce_ops_logged(1) [OF assms]])
  have "resolved env (IncNonce env a s) = (resolved env s1)(a \<mapsto> so_setNonce (GetNonce_acc (so_account o1) + 1) o1)"
    using live_objectD [OF l(1)] by (simp add: IncNonce_def g so_IncNonce_def so_SetNonce_def resolved_set so_setNonce_def)
  moreover have "resolved env s1 a = Some o1" using l(1) by (simp add: live_object_def resolved_def)
  moreover have "sd_snap (IncNonce env a s) = sd_snap s1" "sd_snapDestructs (IncNonce env a s) = sd_snapDestructs s1"
    by (simp_all add: IncNonce_def g so_IncNonce_def so_SetNonce_def setStateObject_def)
  ultimately have "balance_or 0 (live (view env (IncNonce env a s)) b) = balance_or 0 (live (view env s1) b)"
    unfolding live_view
    by (simp add: balance_or_def oview_def so_setNonce_def split: option.split)
  then show "balance env (IncNonce env a s) b = balance env s b"
    using l(2) by (simp add: balance_view [OF assms(1) inc] balance_view [OF assms(1) ok])
qed

text \<open>The total over a finite set of accounts.\<close>

definition total_balance :: "stateEnv \<Rightarrow> address set \<Rightarrow> StateDB \<Rightarrow> int" where
  "total_balance env A s = (\<Sum>a\<in>A. balance env s a)"

lemma total_ops:
  assumes "env_ok env" "state_ok env s" "finite A" "a \<in> A"
  shows "total_balance env A (AddBalance env a n s) = total_balance env A s + n"
    "total_balance env A (SubBalance env a n s) = total_balance env A s - n"
    "total_balance env A (IncNonce env a s) = total_balance env A s"
  using assms(3,4) by (simp_all add: total_balance_def balance_ops [OF assms(1,2)] sum.distrib sum_subtractf)

end
