(* ===== verification/State_Transition.thy ===== *)
theory State_Transition
  imports State_Balances Chain_Config
begin

text \<open>
  The state transition (\<open>blockchain/state_transition.go\<close>): a message buys its gas, runs, gets the rest back, and its fee goes
  to the account the fork rules name unless fees are deferred. \<open>Message\<close> is an interface of the code, so its methods are the
  fields of a record; \<open>Execute\<close>, which every transaction type implements on its own, is a field as well, and
  \<open>message_execution\<close> is what the transition relies on of it. \<open>Cancel_Execute\<close> is the implementation of the cancel transaction.
  The calls of the tracer and the log lines have no effect on the state and are left out.
\<close>

section \<open>Errors and receipts\<close>

datatype txErr =
    ErrDepth | ErrContractAddressCollision | ErrCodeStoreOutOfGas | ErrMaxCodeSizeExceeded | ErrOutOfGas | ErrWriteProtection
  | ErrExecutionReverted | ErrOpcodeComputationCostLimitReached | ErrAccountAlreadyExists | ErrNotProgramAccount_tx
  | ErrNotHumanReadableAddress | ErrFeeRatioOutOfRange | ErrAccountKeyFailNotUpdatable | ErrDifferentAccountKeyType
  | ErrAccountKeyNilUninitializable | ErrNotOnCurve | ErrZeroKeyWeight | ErrUnserializableKey | ErrDuplicatedKey
  | ErrWeightedSumOverflow | ErrUnsatisfiableThreshold | ErrZeroLength | ErrLengthTooLong | ErrNestedCompositeType
  | ErrLegacyTransactionMustBeWithLegacyKey | ErrDeprecated | ErrNotSupported | ErrInvalidCodeFormat
  | ErrTotalTimeLimitReached | ErrInsufficientBalance | ErrIntrinsicGas | ErrMaxInitCodeSizeExceeded | ErrNonceTooHigh
  | ErrNonceTooLow | errInsufficientBalanceForGas | errInsufficientBalanceForGasFeePayer | OtherError string

fun errTxFailed2receiptstatus :: "txErr option \<Rightarrow> u64 option" where
  "errTxFailed2receiptstatus None = Some 1"
| "errTxFailed2receiptstatus (Some ErrDepth) = Some 3"
| "errTxFailed2receiptstatus (Some ErrContractAddressCollision) = Some 4"
| "errTxFailed2receiptstatus (Some ErrCodeStoreOutOfGas) = Some 5"
| "errTxFailed2receiptstatus (Some ErrMaxCodeSizeExceeded) = Some 6"
| "errTxFailed2receiptstatus (Some ErrOutOfGas) = Some 7"
| "errTxFailed2receiptstatus (Some ErrWriteProtection) = Some 8"
| "errTxFailed2receiptstatus (Some ErrExecutionReverted) = Some 9"
| "errTxFailed2receiptstatus (Some ErrOpcodeComputationCostLimitReached) = Some 10"
| "errTxFailed2receiptstatus (Some ErrAccountAlreadyExists) = Some 11"
| "errTxFailed2receiptstatus (Some ErrNotProgramAccount_tx) = Some 12"
| "errTxFailed2receiptstatus (Some ErrNotHumanReadableAddress) = Some 13"
| "errTxFailed2receiptstatus (Some ErrFeeRatioOutOfRange) = Some 14"
| "errTxFailed2receiptstatus (Some ErrAccountKeyFailNotUpdatable) = Some 15"
| "errTxFailed2receiptstatus (Some ErrDifferentAccountKeyType) = Some 16"
| "errTxFailed2receiptstatus (Some ErrAccountKeyNilUninitializable) = Some 17"
| "errTxFailed2receiptstatus (Some ErrNotOnCurve) = Some 18"
| "errTxFailed2receiptstatus (Some ErrZeroKeyWeight) = Some 19"
| "errTxFailed2receiptstatus (Some ErrUnserializableKey) = Some 20"
| "errTxFailed2receiptstatus (Some ErrDuplicatedKey) = Some 21"
| "errTxFailed2receiptstatus (Some ErrWeightedSumOverflow) = Some 22"
| "errTxFailed2receiptstatus (Some ErrUnsatisfiableThreshold) = Some 23"
| "errTxFailed2receiptstatus (Some ErrZeroLength) = Some 24"
| "errTxFailed2receiptstatus (Some ErrLengthTooLong) = Some 25"
| "errTxFailed2receiptstatus (Some ErrNestedCompositeType) = Some 26"
| "errTxFailed2receiptstatus (Some ErrLegacyTransactionMustBeWithLegacyKey) = Some 27"
| "errTxFailed2receiptstatus (Some ErrDeprecated) = Some 28"
| "errTxFailed2receiptstatus (Some ErrNotSupported) = Some 29"
| "errTxFailed2receiptstatus (Some ErrInvalidCodeFormat) = Some 30"
| "errTxFailed2receiptstatus _ = None"

definition getReceiptStatusFromErrTxFailed :: "txErr option \<Rightarrow> u64" where
  "getReceiptStatusFromErrTxFailed e = (case errTxFailed2receiptstatus e of None \<Rightarrow> 2 | Some status \<Rightarrow> status)"

record ExecutionResult =
  UsedGas :: u64
  VmExecutionStatus :: u64
  ReturnData :: bytes

section \<open>Messages and the virtual machine's context\<close>

type_synonym execution = "u64 \<Rightarrow> u64 \<Rightarrow> int \<Rightarrow> StateDB \<Rightarrow> (bytes \<times> u64 \<times> txErr option) \<times> StateDB"

text \<open>\<open>msg_Execute blockNumber gas value\<close> returns the data, the gas that is left and the error, and changes the state.\<close>

record Message =
  msg_ValidatedSender :: address
  msg_ValidatedFeePayer :: address
  msg_ValidatedIntrinsicGas :: u64
  msg_FeeRatio :: "u8 \<times> bool"
  msg_To :: "address option"
  msg_GasTipCap :: int
  msg_GasFeeCap :: int
  msg_Gas :: u64
  msg_Value :: int
  msg_Nonce :: u64
  msg_CheckNonce :: bool
  msg_Data :: bytes
  msg_Execute :: execution
  msg_AccessList :: "(address \<times> hash list) list"

text \<open>What the transition reads of \<open>vm.EVM\<close>, the addresses of the active precompiled contracts included.\<close>

record evmContext =
  evm_Coinbase :: address
  evm_Rewardbase :: address
  evm_BlockNumber :: int
  evm_GasPrice :: int
  evm_ChainConfig :: ChainConfig
  evm_Prefetching :: bool
  evm_ActivePrecompiles :: "Rules \<Rightarrow> address list"

record StateTransition =
  tr_msg :: Message
  tr_gas :: u64
  tr_gasPrice :: int
  tr_gasTipCap :: int
  tr_gasFeeCap :: int
  tr_initialGas :: u64
  tr_value :: int
  tr_data :: bytes
  tr_state :: StateDB
  tr_evm :: evmContext

definition NewStateTransition :: "evmContext \<Rightarrow> Message \<Rightarrow> StateDB \<Rightarrow> StateTransition" where
  "NewStateTransition evm msg s =
     \<lparr> tr_msg = msg, tr_gas = 0, tr_gasPrice = evm_GasPrice evm, tr_gasTipCap = msg_GasTipCap msg, tr_gasFeeCap = msg_GasFeeCap msg,
       tr_initialGas = 0, tr_value = msg_Value msg, tr_data = msg_Data msg, tr_state = s, tr_evm = evm \<rparr>"

section \<open>Fees\<close>

definition CalcFeeWithRatio :: "u8 \<Rightarrow> int \<Rightarrow> int \<times> int" where
  "CalcFeeWithRatio feeRatio fee =
     (let feePayer = fee * uint feeRatio div 100; feeSender = fee - feePayer in (feePayer, feeSender))"

definition buyGas :: "stateEnv \<Rightarrow> StateTransition \<Rightarrow> txErr option \<times> StateTransition" where
  "buyGas env st =
     (let msg = tr_msg st; mgval = uint (msg_Gas msg) * tr_gasPrice st;
          feePayer = msg_ValidatedFeePayer msg; sender = msg_ValidatedSender msg; (feeRatio, isRatioTx) = msg_FeeRatio msg;
          bought = (\<lambda>s. (None, st\<lparr> tr_state := s, tr_gas := tr_gas st + msg_Gas msg, tr_initialGas := msg_Gas msg \<rparr>));
          (feePayerBalance, s1) = GetBalance env feePayer (tr_state st)
      in if isRatioTx then
           (let (feePayerFee, senderFee) = CalcFeeWithRatio feeRatio mgval in
            if feePayerBalance < feePayerFee then (Some errInsufficientBalanceForGasFeePayer, st\<lparr> tr_state := s1 \<rparr>)
            else (let (senderBalance, s2) = GetBalance env sender s1 in
                  if senderBalance < senderFee then (Some errInsufficientBalanceForGas, st\<lparr> tr_state := s2 \<rparr>)
                  else bought (SubBalance env sender senderFee (SubBalance env feePayer feePayerFee s2))))
         else if feePayerBalance < mgval then (Some errInsufficientBalanceForGasFeePayer, st\<lparr> tr_state := s1 \<rparr>)
         else bought (SubBalance env feePayer mgval s1))"

definition preCheck :: "stateEnv \<Rightarrow> StateTransition \<Rightarrow> txErr option \<times> StateTransition" where
  "preCheck env st =
     (let msg = tr_msg st in
      if evm_Prefetching (tr_evm st) then (None, st\<lparr> tr_gas := msg_Gas msg \<rparr>)
      else if msg_CheckNonce msg then
        (let (nonce, s1) = GetNonce env (msg_ValidatedSender msg) (tr_state st); st1 = st\<lparr> tr_state := s1 \<rparr> in
         if nonce < msg_Nonce msg then (Some ErrNonceTooHigh, st1)
         else if msg_Nonce msg < nonce then (Some ErrNonceTooLow, st1)
         else buyGas env st1)
      else buyGas env st)"

definition gasUsed :: "StateTransition \<Rightarrow> u64" where
  "gasUsed st = tr_initialGas st - tr_gas st"

definition refundGas :: "stateEnv \<Rightarrow> u64 \<Rightarrow> StateTransition \<Rightarrow> StateTransition" where
  "refundGas env refundQuotient st =
     (let refund = gasUsed st div refundQuotient;
          refund = (if sd_refund (tr_state st) < refund then sd_refund (tr_state st) else refund);
          gas = tr_gas st + refund; remaining = uint gas * tr_gasPrice st; msg = tr_msg st;
          feePayer = msg_ValidatedFeePayer msg; sender = msg_ValidatedSender msg; (feeRatio, isRatioTx) = msg_FeeRatio msg;
          s = (if isRatioTx then
                 (let (payerPart, senderPart) = CalcFeeWithRatio feeRatio remaining in
                  AddBalance env sender senderPart (AddBalance env feePayer payerPart (tr_state st)))
               else AddBalance env feePayer remaining (tr_state st))
      in st\<lparr> tr_gas := gas, tr_state := s \<rparr>)"

section \<open>The transition\<close>

definition CanTransfer :: "stateEnv \<Rightarrow> address \<Rightarrow> int \<Rightarrow> StateDB \<Rightarrow> bool \<times> StateDB" where
  "CanTransfer env a amount s = (let (b, s1) = GetBalance env a s in (amount \<le> b, s1))"

definition Prepare_state ::
    "Rules \<Rightarrow> address \<Rightarrow> address \<Rightarrow> address \<Rightarrow> address option \<Rightarrow> address list \<Rightarrow> (address \<times> hash list) list \<Rightarrow> StateDB \<Rightarrow> StateDB" where
  "Prepare_state rules sender feepayer coinbase dst precompiles lst s =
     (let s1 = (if IsKore rules then
                  fold AddAddressToAccessList
                    ([sender] @ (if feepayer = 0 then [] else [feepayer]) @ (case dst of None \<Rightarrow> [] | Some a \<Rightarrow> [a]) @ precompiles)
                    (s\<lparr> sd_accessList := newAccessList \<rparr>)
                else s);
          s2 = (if IsShanghai rules then AddAddressToAccessList coinbase s1 else s1);
          s3 = (if IsCancun rules then
                  fold (\<lambda>(a, keys) s. fold (AddSlotToAccessList a) keys (AddAddressToAccessList a s)) lst s2
                else s2)
      in s3\<lparr> sd_transientStorage := Map.empty \<rparr>)"

text \<open>The outer \<open>None\<close> is the panic of \<open>Governance.DeferredTxFee()\<close> on a governance configuration without rewards.\<close>

definition chain_DeferredTxFee :: "ChainConfig \<Rightarrow> bool option" where
  "chain_DeferredTxFee c = (case Governance c of None \<Rightarrow> Some False | Some g \<Rightarrow> map_option rc_DeferredTxFee (gc_Reward g))"

definition pay_fee :: "stateEnv \<Rightarrow> Rules \<Rightarrow> StateTransition \<Rightarrow> StateTransition option" where
  "pay_fee env rules st =
     (case chain_DeferredTxFee (evm_ChainConfig (tr_evm st)) of
        None \<Rightarrow> None
      | Some True \<Rightarrow> Some st
      | Some False \<Rightarrow>
          Some (st\<lparr> tr_state := AddBalance env (if IsMagma rules then evm_Rewardbase (tr_evm st) else evm_Coinbase (tr_evm st))
                                 (uint (gasUsed st) * tr_gasPrice st) (tr_state st) \<rparr>))"

definition TransitionDb :: "stateEnv \<Rightarrow> StateTransition \<Rightarrow> ((txErr + ExecutionResult) \<times> StateTransition) option" where
  "TransitionDb env st =
     (let (err, st1) = preCheck env st; msg = tr_msg st1; evm = tr_evm st1; amount = msg_ValidatedIntrinsicGas msg;
          rules = config_Rules (evm_ChainConfig evm) (Some (evm_BlockNumber evm)) in
      case err of
        Some e \<Rightarrow> Some (Inl e, st1)
      | None \<Rightarrow>
          if tr_gas st1 < amount then Some (Inl ErrIntrinsicGas, st1)
          else
            (let st2 = st1\<lparr> tr_gas := tr_gas st1 - amount \<rparr>;
                 (ok, s3) = (if 0 < msg_Value msg then CanTransfer env (msg_ValidatedSender msg) (msg_Value msg) (tr_state st2)
                             else (True, tr_state st2));
                 s4 = Prepare_state rules (msg_ValidatedSender msg) (msg_ValidatedFeePayer msg) (evm_Coinbase evm) (msg_To msg)
                        (evm_ActivePrecompiles evm rules) (msg_AccessList msg) s3
             in if \<not> ok then Some (Inl ErrInsufficientBalance, st2\<lparr> tr_state := s3 \<rparr>)
                else if IsShanghai rules \<and> msg_To msg = None \<and> 49152 < length (tr_data st2)
                  then Some (Inl ErrMaxInitCodeSizeExceeded, st2\<lparr> tr_state := s4 \<rparr>)
                else
                  (let ((ret, gas, vmerr), s5) = msg_Execute msg (word_of_int (evm_BlockNumber evm)) (tr_gas st2) (tr_value st2) s4;
                       st5 = st2\<lparr> tr_gas := gas, tr_state := s5 \<rparr>
                   in if vmerr = Some ErrTotalTimeLimitReached then Some (Inl ErrTotalTimeLimitReached, st5)
                      else
                        (case pay_fee env rules (refundGas env (if IsKore rules then 5 else 2) st5) of
                           None \<Rightarrow> None
                         | Some st6 \<Rightarrow>
                             Some (Inr \<lparr> UsedGas = gasUsed st6, VmExecutionStatus = getReceiptStatusFromErrTxFailed vmerr,
                                         ReturnData = ret \<rparr>, st6)))))"

text \<open>\<open>TxInternalDataCancel.Execute\<close>.\<close>

definition Cancel_Execute :: "stateEnv \<Rightarrow> address \<Rightarrow> execution" where
  "Cancel_Execute env sender blockNumber gas value s = (([], gas, None), IncNonce env sender s)"

section \<open>Balances along the transition\<close>

lemma CalcFeeWithRatio_sum: "CalcFeeWithRatio r fee = (p, q) \<Longrightarrow> p + q = fee"
  by (auto simp: CalcFeeWithRatio_def Let_def)

lemma CalcFeeWithRatio_nonneg:
  "CalcFeeWithRatio r fee = (p, q) \<Longrightarrow> 0 \<le> fee \<Longrightarrow> r \<le> 100 \<Longrightarrow> 0 \<le> p \<and> 0 \<le> q"
proof -
  assume c: "CalcFeeWithRatio r fee = (p, q)" and "0 \<le> fee" "r \<le> 100"
  then have "uint r \<le> 100" by (simp add: word_le_def)
  then have "fee * uint r \<le> fee * 100" using \<open>0 \<le> fee\<close> by (rule mult_left_mono)
  then have "fee * uint r div 100 \<le> fee * 100 div 100" by (rule zdiv_mono1) simp
  moreover have "0 \<le> fee * uint r div 100" using \<open>0 \<le> fee\<close> by (simp add: pos_imp_zdiv_nonneg_iff)
  ultimately show "0 \<le> p \<and> 0 \<le> q" using c \<open>0 \<le> fee\<close> by (auto simp: CalcFeeWithRatio_def Let_def)
qed

lemma balance_reads:
  assumes "env_ok env" "state_ok env s"
  shows "balance env (snd (GetBalance env a s)) b = balance env s b" "state_ok env (snd (GetBalance env a s))"
    "balance env (snd (GetNonce env a s)) b = balance env s b" "state_ok env (snd (GetNonce env a s))"
proof -
  have "snd (GetNonce env a s) = snd (GetBalance env a s)"
    by (simp add: GetNonce_def GetBalance_def split: prod.splits)
  moreover have q: "quiet env s (snd (GetBalance env a s))" by (rule reads_quiet(1) [OF assms])
  then have "state_ok env (snd (GetBalance env a s))" by (simp add: quiet_def)
  ultimately show "balance env (snd (GetBalance env a s)) b = balance env s b" "state_ok env (snd (GetBalance env a s))"
    "balance env (snd (GetNonce env a s)) b = balance env s b" "state_ok env (snd (GetNonce env a s))"
    using balance_quiet [OF assms q] by simp_all
qed

text \<open>What \<open>buyGas\<close> does, on every branch, in terms of the balances alone.\<close>

definition gas_value :: "StateTransition \<Rightarrow> int" where
  "gas_value st = uint (msg_Gas (tr_msg st)) * tr_gasPrice st"

definition fee_parts :: "Message \<Rightarrow> int \<Rightarrow> int \<times> int" where
  "fee_parts msg fee = (if snd (msg_FeeRatio msg) then CalcFeeWithRatio (fst (msg_FeeRatio msg)) fee else (fee, 0))"

definition charged :: "Message \<Rightarrow> int \<Rightarrow> address \<Rightarrow> int" where
  "charged msg fee a =
     (if a = msg_ValidatedFeePayer msg then fst (fee_parts msg fee) else 0) +
     (if a = msg_ValidatedSender msg then snd (fee_parts msg fee) else 0)"

definition affordable :: "stateEnv \<Rightarrow> Message \<Rightarrow> int \<Rightarrow> StateDB \<Rightarrow> txErr option" where
  "affordable env msg fee s =
     (if balance env s (msg_ValidatedFeePayer msg) < fst (fee_parts msg fee) then Some errInsufficientBalanceForGasFeePayer
      else if snd (msg_FeeRatio msg) \<and> balance env s (msg_ValidatedSender msg) < snd (fee_parts msg fee)
        then Some errInsufficientBalanceForGas
      else None)"

lemma buyGas_effect:
  assumes "env_ok env" "state_ok env (tr_state st)" "buyGas env st = (err, st')"
  shows "err = affordable env (tr_msg st) (gas_value st) (tr_state st)" "state_ok env (tr_state st')"
    "balance env (tr_state st') a =
       balance env (tr_state st) a - (if err = None then charged (tr_msg st) (gas_value st) a else 0)"
    "st' = (if err = None then st\<lparr> tr_state := tr_state st', tr_gas := tr_gas st + msg_Gas (tr_msg st), tr_initialGas := msg_Gas (tr_msg st) \<rparr>
            else st\<lparr> tr_state := tr_state st' \<rparr>)"
proof -
  let ?m = "tr_msg st" and ?s = "tr_state st"
  let ?p = "msg_ValidatedFeePayer ?m" and ?q = "msg_ValidatedSender ?m"
  let ?s1 = "snd (GetBalance env ?p ?s)"
  let ?s2 = "snd (GetBalance env ?q ?s1)"
  note b0 = balance_reads [OF assms(1,2)]
  note b1 = balance_reads [OF assms(1) b0(2)]
  note sub1 = balance_ops [OF assms(1) b0(2)] and sub2 = balance_ops [OF assms(1) b1(2)]
  note sub3 = balance_ops [OF assms(1) sub2(6)]
  have f: "fst (GetBalance env b t) = balance env t b" for b t by (simp add: balance_def)
  note B = assms(3) [unfolded buyGas_def Let_def case_prod_beta f gas_value_def [symmetric]]
  note defs = affordable_def charged_def fee_parts_def
  show "err = affordable env ?m (gas_value st) ?s"
    using B b0(1) by (auto simp: defs split: if_splits)
  show "state_ok env (tr_state st')"
    using B b0(2) b1(2) sub1(6) sub2(6) sub3(6) by (auto split: if_splits)
  show "balance env (tr_state st') a = balance env ?s a - (if err = None then charged ?m (gas_value st) a else 0)"
    using B by (auto simp: defs b0(1) b1(1) sub1(2) sub2(2) sub3(2) split: if_splits)
  show "st' = (if err = None then st\<lparr> tr_state := tr_state st', tr_gas := tr_gas st + msg_Gas ?m, tr_initialGas := msg_Gas ?m \<rparr>
            else st\<lparr> tr_state := tr_state st' \<rparr>)"
    using B by (auto split: if_splits)
qed

lemma total_charged:
  assumes "finite A" "msg_ValidatedFeePayer msg \<in> A" "msg_ValidatedSender msg \<in> A"
  shows "(\<Sum>a\<in>A. charged msg fee a) = fee"
  using assms CalcFeeWithRatio_sum [of "fst (msg_FeeRatio msg)" fee]
  by (auto simp: charged_def fee_parts_def sum.distrib intro: prod.collapse [symmetric])

lemma refundGas_effect:
  assumes "env_ok env" "state_ok env (tr_state st)"
  shows "state_ok env (tr_state (refundGas env q st))"
    "balance env (tr_state (refundGas env q st)) a =
       balance env (tr_state st) a + charged (tr_msg st) (uint (tr_gas (refundGas env q st)) * tr_gasPrice st) a"
    "tr_gas (refundGas env q st) = tr_gas st + min (gasUsed st div q) (sd_refund (tr_state st))"
    "tr_msg (refundGas env q st) = tr_msg st" "tr_gasPrice (refundGas env q st) = tr_gasPrice st"
    "tr_evm (refundGas env q st) = tr_evm st" "tr_initialGas (refundGas env q st) = tr_initialGas st"
proof -
  note add = balance_ops [OF assms]
  note add2 = balance_ops [OF assms(1) add(5)]
  show "state_ok env (tr_state (refundGas env q st))"
    by (simp add: refundGas_def Let_def case_prod_beta add(5) add2(5))
  show "balance env (tr_state (refundGas env q st)) a =
       balance env (tr_state st) a + charged (tr_msg st) (uint (tr_gas (refundGas env q st)) * tr_gasPrice st) a"
    by (simp add: refundGas_def Let_def case_prod_beta add(1) add2(1) charged_def fee_parts_def)
qed (auto simp: refundGas_def Let_def case_prod_beta min_def)

text \<open>Preparing the access list and clearing the transient storage leaves the accounts as they are.\<close>

lemma balance_same_objects:
  assumes "env_ok env" "state_ok env s" "state_ok env t" "resolved env t = resolved env s" "sd_snap t = sd_snap s"
    "sd_snapDestructs t = sd_snapDestructs s"
  shows "balance env t a = balance env s a"
  unfolding balance_view [OF assms(1,2)] balance_view [OF assms(1,3)] live_view assms(4-) by simp

lemma AddAddress_keeps:
  "resolved env (AddAddressToAccessList a s) = resolved env s" "sd_snap (AddAddressToAccessList a s) = sd_snap s"
  "sd_snapDestructs (AddAddressToAccessList a s) = sd_snapDestructs s"
  by (simp_all add: AddAddressToAccessList_def Let_def case_prod_beta)

lemma AddSlot_keeps:
  "resolved env (AddSlotToAccessList a k s) = resolved env s" "sd_snap (AddSlotToAccessList a k s) = sd_snap s"
  "sd_snapDestructs (AddSlotToAccessList a k s) = sd_snapDestructs s"
  by (simp_all add: AddSlotToAccessList_def Let_def case_prod_beta)

definition keeps_accounts :: "stateEnv \<Rightarrow> (StateDB \<Rightarrow> StateDB) \<Rightarrow> bool" where
  "keeps_accounts env f \<longleftrightarrow>
     (\<forall>s. resolved env (f s) = resolved env s \<and> sd_snap (f s) = sd_snap s \<and> sd_snapDestructs (f s) = sd_snapDestructs s \<and>
          (state_ok env s \<longrightarrow> state_ok env (f s)))"

lemma keeps_accounts_fold: "(\<And>x. x \<in> set xs \<Longrightarrow> keeps_accounts env (f x)) \<Longrightarrow> keeps_accounts env (fold f xs)"
  by (induction xs) (simp_all add: keeps_accounts_def)

lemma keeps_accounts_list [simp]: "keeps_accounts env (AddAddressToAccessList a)" "keeps_accounts env (AddSlotToAccessList a k)"
  using some_logged_ok [OF AddAddress_logged] some_logged_ok [OF AddSlot_logged]
  by (auto simp: keeps_accounts_def AddAddress_keeps AddSlot_keeps)

lemma keeps_accounts_comp: "keeps_accounts env f \<Longrightarrow> keeps_accounts env g \<Longrightarrow> keeps_accounts env (\<lambda>s. g (f s))"
  by (simp add: keeps_accounts_def)

lemma keeps_accounts_Prepare: "keeps_accounts env (Prepare_state rules sender feepayer coinbase dst precompiles lst)"
proof -
  have clear: "keeps_accounts env (\<lambda>s. s\<lparr> sd_accessList := newAccessList \<rparr>)"
    "keeps_accounts env (\<lambda>s. s\<lparr> sd_transientStorage := Map.empty \<rparr>)" "keeps_accounts env (\<lambda>s. s)"
    by (auto simp: keeps_accounts_def state_ok_def al_ok_def newAccessList_def)
  have branch: "keeps_accounts env f \<Longrightarrow> keeps_accounts env (\<lambda>s. if c then f s else s)" for c f
    by (simp add: keeps_accounts_def)
  have slots: "keeps_accounts env (\<lambda>s. fold (AddSlotToAccessList a) keys (AddAddressToAccessList a s))" for a keys
    by (rule keeps_accounts_comp [OF _ keeps_accounts_fold]) simp_all
  have "keeps_accounts env (\<lambda>s. if IsKore rules then
                  fold AddAddressToAccessList
                    ([sender] @ (if feepayer = 0 then [] else [feepayer]) @ (case dst of None \<Rightarrow> [] | Some a \<Rightarrow> [a]) @ precompiles)
                    (s\<lparr> sd_accessList := newAccessList \<rparr>)
                else s)"
    by (intro branch keeps_accounts_comp [OF clear(1)] keeps_accounts_fold) simp
  moreover have "keeps_accounts env (\<lambda>s. if IsShanghai rules then AddAddressToAccessList coinbase s else s)"
    by (intro branch) simp
  moreover have "keeps_accounts env (\<lambda>s. if IsCancun rules then
       fold (\<lambda>(a, keys) s. fold (AddSlotToAccessList a) keys (AddAddressToAccessList a s)) lst s else s)"
    by (intro branch keeps_accounts_fold) (auto intro: slots)
  ultimately show ?thesis
    unfolding Prepare_state_def Let_def using clear(2) by (simp only: keeps_accounts_def) simp
qed

lemma Prepare_balance:
  assumes "env_ok env" "state_ok env s"
  shows "state_ok env (Prepare_state rules sender feepayer coinbase dst precompiles lst s)"
    "balance env (Prepare_state rules sender feepayer coinbase dst precompiles lst s) a = balance env s a"
proof -
  note k = keeps_accounts_Prepare [of env rules sender feepayer coinbase dst precompiles lst, unfolded keeps_accounts_def, rule_format, of s]
  show ok: "state_ok env (Prepare_state rules sender feepayer coinbase dst precompiles lst s)" using k assms(2) by blast
  show "balance env (Prepare_state rules sender feepayer coinbase dst precompiles lst s) a = balance env s a"
    using balance_same_objects [OF assms ok] k by blast
qed

section \<open>Conservation\<close>

lemma word_part_bound:
  fixes g i u :: u64
  assumes "g \<le> i" "u \<le> i - g"
  shows "g + u \<le> i" "uint (g + u) + uint (i - (g + u)) = uint i"
proof -
  have d: "unat (i - g) = unat i - unat g" using assms(1) by (rule unat_sub)
  have u: "unat u \<le> unat i - unat g" using assms(2) by (simp add: word_le_nat_alt d)
  have "unat g \<le> unat i" "unat i < 2 ^ 64" using assms(1) unsigned_less [of i] by (simp_all add: word_le_nat_alt)
  then have s: "unat (g + u) = unat g + unat u" using u by (simp add: unat_word_ariths)
  show le: "g + u \<le> i" using u \<open>unat g \<le> unat i\<close> by (simp add: word_le_nat_alt s)
  then have "unat (i - (g + u)) + unat (g + u) = unat i" using unat_sub [OF le] by (simp add: word_le_nat_alt)
  then show "uint (g + u) + uint (i - (g + u)) = uint i" unfolding uint_nat by linarith
qed

lemma word_div_le: "(x :: u64) div y \<le> x"
  by (simp add: word_le_nat_alt unat_div div_le_dividend)

lemma total_sum:
  "(\<And>a. balance env t a = balance env s a + f a) \<Longrightarrow> total_balance env A t = total_balance env A s + sum f A"
  by (simp add: total_balance_def sum.distrib)

text \<open>Refund and fee, once the message has run.\<close>

lemma settle:
  assumes "env_ok env" "state_ok env (tr_state st)" "tr_gas st \<le> tr_initialGas st"
    "pay_fee env rules (refundGas env q st) = Some st'" "chain_DeferredTxFee (evm_ChainConfig (tr_evm st)) = Some deferred"
    and A: "finite A" "msg_ValidatedSender (tr_msg st) \<in> A" "msg_ValidatedFeePayer (tr_msg st) \<in> A"
      "evm_Coinbase (tr_evm st) \<in> A" "evm_Rewardbase (tr_evm st) \<in> A"
  shows "gasUsed st' \<le> tr_initialGas st" "state_ok env (tr_state st')"
    "total_balance env A (tr_state st') = total_balance env A (tr_state st) +
       (uint (tr_initialGas st) - (if deferred then uint (gasUsed st') else 0)) * tr_gasPrice st"
proof -
  let ?r = "refundGas env q st"
  note R = refundGas_effect [OF assms(1,2), of q]
  let ?u = "min (gasUsed st div q) (sd_refund (tr_state st))"
  have "?u \<le> tr_initialGas st - tr_gas st"
    using word_div_le [of "gasUsed st" q] by (auto simp: gasUsed_def min_def intro: order_trans)
  note w = word_part_bound [OF assms(3) this, folded R(3)]
  have used: "gasUsed st' = gasUsed ?r" "gasUsed ?r = tr_initialGas st - tr_gas ?r"
    using assms(4,5) by (auto simp: pay_fee_def gasUsed_def R(6,7) split: bool.splits)
  have tr: "total_balance env A (tr_state ?r) = total_balance env A (tr_state st) + uint (tr_gas ?r) * tr_gasPrice st"
    by (simp add: total_sum [OF R(2)] total_charged [OF A(1,3,2)])
  have gas: "uint (tr_gas ?r) = uint (tr_initialGas st) - uint (gasUsed st')" using w(2) by (simp add: used)
  show "gasUsed st' \<le> tr_initialGas st"
  proof -
    have "0 \<le> uint (tr_gas ?r)" by simp
    then show ?thesis using w(2) unfolding used word_le_def by linarith
  qed
  note add = total_ops [OF assms(1) R(1) A(1)] balance_ops(5) [OF assms(1) R(1)]
  show "state_ok env (tr_state st')"
    using assms(4,5) R(1) add(4) by (auto simp: pay_fee_def R(6) split: bool.splits)
  show "total_balance env A (tr_state st') = total_balance env A (tr_state st) +
       (uint (tr_initialGas st) - (if deferred then uint (gasUsed st') else 0)) * tr_gasPrice st"
  proof (cases deferred)
    case True
    then have "st' = ?r" using assms(4,5) by (simp add: pay_fee_def R(6))
    then show ?thesis using True tr gas by simp
  next
    case False
    then have "total_balance env A (tr_state st') = total_balance env A (tr_state ?r) + uint (gasUsed ?r) * tr_gasPrice st"
      using assms(4,5) A(4,5) by (auto simp: pay_fee_def R(5,6) add(1))
    then show ?thesis using False tr gas by (simp add: used algebra_simps)
  qed
qed

text \<open>What the transition relies on of \<open>Execute\<close>: it gives back no more gas than it got and keeps the state well formed.\<close>

locale message_execution =
  fixes env :: stateEnv and Execute :: execution
  assumes execute_gas: "env_ok env \<Longrightarrow> state_ok env s \<Longrightarrow> Execute n g v s = ((ret, g', err), s') \<Longrightarrow> g' \<le> g"
    and execute_ok: "env_ok env \<Longrightarrow> state_ok env s \<Longrightarrow> Execute n g v s = ((ret, g', err), s') \<Longrightarrow> state_ok env s'"
begin

lemma execute_within:
  assumes "env_ok env" "state_ok env s" "Execute n (i - k) v s = ((ret, g', err), s')" "k \<le> i"
  shows "g' \<le> i" "state_ok env s'"
proof -
  have "unat (i - k) = unat i - unat k" using assms(4) by (rule unat_sub)
  then show "g' \<le> i" using execute_gas [OF assms(1-3)] by (simp add: word_le_nat_alt)
  show "state_ok env s'" by (rule execute_ok [OF assms(1-3)])
qed

end

interpretation cancel: message_execution env "Cancel_Execute env sender" for env sender
  by unfold_locales (auto simp: Cancel_Execute_def balance_ops(7))

definition run_state :: "stateEnv \<Rightarrow> StateTransition \<Rightarrow> StateDB" where
  "run_state env st =
     (let msg = tr_msg st; evm = tr_evm st; rules = config_Rules (evm_ChainConfig evm) (Some (evm_BlockNumber evm)) in
      Prepare_state rules (msg_ValidatedSender msg) (msg_ValidatedFeePayer msg) (evm_Coinbase evm) (msg_To msg)
        (evm_ActivePrecompiles evm rules) (msg_AccessList msg)
        (if 0 < msg_Value msg then snd (CanTransfer env (msg_ValidatedSender msg) (msg_Value msg) (tr_state st)) else tr_state st))"

text \<open>The stages a transition has been through when it returns a result.\<close>

lemma TransitionDb_stages:
  assumes "TransitionDb env st = Some (Inr r, st')"
  obtains st1 ret gas vmerr s5 where "preCheck env st = (None, st1)" "msg_ValidatedIntrinsicGas (tr_msg st1) \<le> tr_gas st1"
    "msg_Execute (tr_msg st1) (word_of_int (evm_BlockNumber (tr_evm st1))) (tr_gas st1 - msg_ValidatedIntrinsicGas (tr_msg st1))
       (tr_value st1) (run_state env st1) = ((ret, gas, vmerr), s5)"
    "\<exists>rules q. pay_fee env rules (refundGas env q (st1\<lparr> tr_gas := gas, tr_state := s5 \<rparr>)) = Some st'"
    "r = \<lparr> UsedGas = gasUsed st', VmExecutionStatus = getReceiptStatusFromErrTxFailed vmerr, ReturnData = ret \<rparr>"
proof -
  obtain err st1 where p: "preCheck env st = (err, st1)" by fastforce
  let ?m = "tr_msg st1" and ?e = "tr_evm st1" and ?k = "msg_ValidatedIntrinsicGas (tr_msg st1)"
  let ?rules = "config_Rules (evm_ChainConfig ?e) (Some (evm_BlockNumber ?e))"
  obtain ret gas vmerr s5 where x:
    "msg_Execute ?m (word_of_int (evm_BlockNumber ?e)) (tr_gas st1 - ?k) (tr_value st1) (run_state env st1) = ((ret, gas, vmerr), s5)"
    by (metis prod.exhaust_sel)
  define f where "f = pay_fee env ?rules (refundGas env (if IsKore ?rules then 5 else 2) (st1\<lparr> tr_gas := gas, tr_state := s5 \<rparr>))"
  have err: "err = None" using assms by (cases err) (simp_all add: TransitionDb_def p Let_def)
  have k: "?k \<le> tr_gas st1" using assms by (simp add: TransitionDb_def p Let_def err split: if_splits)
  have t: "tr_value (st1\<lparr> tr_gas := g \<rparr>) = tr_value st1" "tr_state (st1\<lparr> tr_gas := g \<rparr>) = tr_state st1"
    "tr_gas (st1\<lparr> tr_gas := g \<rparr>) = g" "tr_data (st1\<lparr> tr_gas := g \<rparr>) = tr_data st1"
    "st1\<lparr> tr_gas := g, tr_gas := g', tr_state := s' \<rparr> = st1\<lparr> tr_gas := g', tr_state := s' \<rparr>" for g g' s'
    by simp_all
  have "f = Some st' \<and> r = \<lparr> UsedGas = gasUsed st', VmExecutionStatus = getReceiptStatusFromErrTxFailed vmerr, ReturnData = ret \<rparr>"
  proof (cases "0 < msg_Value ?m")
    case True
    note x' = x [unfolded run_state_def Let_def, simplified True if_True]
    show ?thesis
      using assms k True x' unfolding TransitionDb_def p err Let_def t f_def
      by (simp add: case_prod_beta split: if_splits option.splits)
  next
    case False
    note x' = x [unfolded run_state_def Let_def, simplified False if_False]
    show ?thesis
      using assms k False x' unfolding TransitionDb_def p err Let_def t f_def
      by (simp add: case_prod_beta split: if_splits option.splits)
  qed
  moreover from this have "\<exists>rules q. pay_fee env rules (refundGas env q (st1\<lparr> tr_gas := gas, tr_state := s5 \<rparr>)) = Some st'"
    unfolding f_def by blast
  ultimately show ?thesis using that [OF _ k x] p err by simp
qed

lemma preCheck_bought:
  assumes "env_ok env" "state_ok env (tr_state st)" "\<not> evm_Prefetching (tr_evm st)" "preCheck env st = (None, st1)"
  shows "state_ok env (tr_state st1)"
    "balance env (tr_state st1) a = balance env (tr_state st) a - charged (tr_msg st) (gas_value st) a"
    "st1 = st\<lparr> tr_state := tr_state st1, tr_gas := tr_gas st + msg_Gas (tr_msg st), tr_initialGas := msg_Gas (tr_msg st) \<rparr>"
proof -
  let ?s0 = "snd (GetNonce env (msg_ValidatedSender (tr_msg st)) (tr_state st))"
  have "\<exists>s0. buyGas env (st\<lparr> tr_state := s0 \<rparr>) = (None, st1) \<and> state_ok env s0 \<and> (\<forall>a. balance env s0 a = balance env (tr_state st) a)"
  proof (cases "msg_CheckNonce (tr_msg st)")
    case True
    then have "buyGas env (st\<lparr> tr_state := ?s0 \<rparr>) = (None, st1)"
      using assms(3,4) by (simp add: preCheck_def Let_def case_prod_beta split: if_splits)
    then show ?thesis using balance_reads(3,4) [OF assms(1,2)] by blast
  next
    case False
    then have "buyGas env (st\<lparr> tr_state := tr_state st \<rparr>) = (None, st1)" using assms(3,4) by (simp add: preCheck_def Let_def)
    then show ?thesis using assms(2) by blast
  qed
  then obtain s0 where s0: "buyGas env (st\<lparr> tr_state := s0 \<rparr>) = (None, st1)" "state_ok env s0"
    "\<And>a. balance env s0 a = balance env (tr_state st) a" by blast
  note b = buyGas_effect [OF assms(1) _ s0(1)]
  show "state_ok env (tr_state st1)" using b(2) s0(2) by simp
  show "balance env (tr_state st1) a = balance env (tr_state st) a - charged (tr_msg st) (gas_value st) a"
    using b(3) [of a] s0(2,3) by (simp add: gas_value_def)
  show "st1 = st\<lparr> tr_state := tr_state st1, tr_gas := tr_gas st + msg_Gas (tr_msg st), tr_initialGas := msg_Gas (tr_msg st) \<rparr>"
    using b(4) s0(2) by simp
qed

lemma run_state_balance:
  assumes "env_ok env" "state_ok env (tr_state st)"
  shows "state_ok env (run_state env st)" "balance env (run_state env st) a = balance env (tr_state st) a"
proof -
  let ?s = "if 0 < msg_Value (tr_msg st) then snd (CanTransfer env (msg_ValidatedSender (tr_msg st)) (msg_Value (tr_msg st)) (tr_state st))
    else tr_state st"
  have "state_ok env ?s" "balance env ?s a = balance env (tr_state st) a"
    using balance_reads(1,2) [OF assms] assms(2) by (simp_all add: CanTransfer_def case_prod_beta)
  then show "state_ok env (run_state env st)" "balance env (run_state env st) a = balance env (tr_state st) a"
    using Prepare_balance [OF assms(1)] by (simp_all add: run_state_def Let_def)
qed

text \<open>C8: A message that the transition accepts runs on a state in which exactly the price of its whole gas limit has been taken from its
  fee payer and its sender. Over any finite set of accounts that contains these and the two accounts a fee can go to, the
  transition then changes the total by what the execution changes it and, when fees are deferred to the end of the block, by
  the price of the gas used; otherwise the fee has been credited and nothing is lost. The gas used is at most the limit, and
  the receipt's status and data are those of the execution.\<close>

theorem TransitionDb_conserves:
  assumes "env_ok env" "state_ok env s" "message_execution env (msg_Execute msg)" "\<not> evm_Prefetching evm"
    and A: "finite A" "{msg_ValidatedSender msg, msg_ValidatedFeePayer msg, evm_Coinbase evm, evm_Rewardbase evm} \<subseteq> A"
    and T: "TransitionDb env (NewStateTransition evm msg s) = Some (Inr r, st')"
  shows "\<exists>s1 ret gas err s2 deferred. chain_DeferredTxFee (evm_ChainConfig evm) = Some deferred \<and> state_ok env s1 \<and>
    msg_Execute msg (word_of_int (evm_BlockNumber evm)) (msg_Gas msg - msg_ValidatedIntrinsicGas msg) (msg_Value msg) s1 =
      ((ret, gas, err), s2) \<and>
    total_balance env A s1 = total_balance env A s - uint (msg_Gas msg) * evm_GasPrice evm \<and>
    total_balance env A (tr_state st') = total_balance env A s + (total_balance env A s2 - total_balance env A s1) -
      (if deferred then uint (UsedGas r) * evm_GasPrice evm else 0) \<and>
    msg_ValidatedIntrinsicGas msg \<le> msg_Gas msg \<and> UsedGas r \<le> msg_Gas msg \<and>
    VmExecutionStatus r = getReceiptStatusFromErrTxFailed err \<and> ReturnData r = ret \<and> state_ok env (tr_state st')"
proof -
  let ?st = "NewStateTransition evm msg s" and ?k = "msg_ValidatedIntrinsicGas msg"
  have new: "tr_msg ?st = msg" "tr_evm ?st = evm" "tr_state ?st = s" "tr_gas ?st = 0" "tr_value ?st = msg_Value msg"
    "tr_gasPrice ?st = evm_GasPrice evm" by (simp_all add: NewStateTransition_def)
  obtain st1 ret gas err s2 rules q where st1: "preCheck env ?st = (None, st1)"
    and k: "msg_ValidatedIntrinsicGas (tr_msg st1) \<le> tr_gas st1"
    and x: "msg_Execute (tr_msg st1) (word_of_int (evm_BlockNumber (tr_evm st1))) (tr_gas st1 - msg_ValidatedIntrinsicGas (tr_msg st1))
       (tr_value st1) (run_state env st1) = ((ret, gas, err), s2)"
    and f: "pay_fee env rules (refundGas env q (st1\<lparr> tr_gas := gas, tr_state := s2 \<rparr>)) = Some st'"
    and r: "r = \<lparr> UsedGas = gasUsed st', VmExecutionStatus = getReceiptStatusFromErrTxFailed err, ReturnData = ret \<rparr>"
    using TransitionDb_stages [OF T] by metis
  note b = preCheck_bought [OF assms(1) _ _ st1, unfolded new, OF assms(2,4)]
  have s1: "tr_msg st1 = msg" "tr_evm st1 = evm" "tr_value st1 = msg_Value msg" "tr_gas st1 = msg_Gas msg"
    "tr_initialGas st1 = msg_Gas msg" "tr_gasPrice st1 = evm_GasPrice evm"
    by (subst b(3), simp add: new)+
  note x = x [unfolded s1] and k = k [unfolded s1] and run = run_state_balance [OF assms(1) b(1)]
  have g: "gas \<le> msg_Gas msg" "state_ok env s2"
    using message_execution.execute_within [OF assms(3,1) run(1) x k] by simp_all
  obtain deferred where d: "chain_DeferredTxFee (evm_ChainConfig evm) = Some deferred"
    using f by (auto simp: pay_fee_def refundGas_def Let_def case_prod_beta s1 split: option.splits)
  let ?st5 = "st1\<lparr> tr_gas := gas, tr_state := s2 \<rparr>"
  have st5: "tr_gas ?st5 = gas" "tr_state ?st5 = s2" "tr_msg ?st5 = msg" "tr_evm ?st5 = evm" "tr_initialGas ?st5 = msg_Gas msg"
    "tr_gasPrice ?st5 = evm_GasPrice evm" by (simp_all add: s1)
  note S = settle [OF assms(1) _ _ f _ A(1), unfolded st5, OF g(2,1) d]
  have bought: "total_balance env A (run_state env st1) = total_balance env A s - uint (msg_Gas msg) * evm_GasPrice evm"
  proof -
    have "balance env (run_state env st1) a = balance env s a + - charged msg (gas_value ?st) a" for a
      using run(2) [of a] b(2) [of a] by simp
    from total_sum [OF this] show ?thesis
      using total_charged [OF A(1)] A(2) by (simp add: sum_negf gas_value_def new)
  qed
  have "gasUsed st' \<le> msg_Gas msg" "state_ok env (tr_state st')"
    "total_balance env A (tr_state st') = total_balance env A s2 + (uint (msg_Gas msg) - (if deferred then uint (gasUsed st') else 0)) * evm_GasPrice evm"
    using S A(2) by simp_all
  then have "total_balance env A (tr_state st') = total_balance env A s + (total_balance env A s2 - total_balance env A (run_state env st1)) -
      (if deferred then uint (UsedGas r) * evm_GasPrice evm else 0) \<and> UsedGas r \<le> msg_Gas msg \<and>
    VmExecutionStatus r = getReceiptStatusFromErrTxFailed err \<and> ReturnData r = ret \<and> state_ok env (tr_state st')"
    using bought by (cases deferred) (simp_all add: r algebra_simps)
  then show ?thesis using d x bought k run(1) by blast
qed

text \<open>C24: For a non-negative gas price and a fee ratio of at most a hundred percent, buying the gas leaves an account that had a
  non-negative balance below zero in exactly one case: a transaction with a fee ratio whose fee payer is its own sender and
  whose balance covers each of the two parts but not their sum. \<open>buyGas\<close> checks the parts one by one and subtracts both.\<close>

theorem buyGas_overdraws_iff:
  assumes "env_ok env" "state_ok env (tr_state st)" "0 \<le> tr_gasPrice st" "fst (msg_FeeRatio (tr_msg st)) \<le> 100"
    and "buyGas env st = (None, st')"
  shows "(\<exists>a. 0 \<le> balance env (tr_state st) a \<and> balance env (tr_state st') a < 0) \<longleftrightarrow>
    snd (msg_FeeRatio (tr_msg st)) \<and> msg_ValidatedFeePayer (tr_msg st) = msg_ValidatedSender (tr_msg st) \<and>
    balance env (tr_state st) (msg_ValidatedSender (tr_msg st)) < uint (msg_Gas (tr_msg st)) * tr_gasPrice st"
proof -
  let ?m = "tr_msg st" and ?b = "balance env (tr_state st)"
  let ?p = "msg_ValidatedFeePayer ?m" and ?q = "msg_ValidatedSender ?m"
  obtain x y where xy: "CalcFeeWithRatio (fst (msg_FeeRatio ?m)) (gas_value st) = (x, y)" by fastforce
  have nonneg: "0 \<le> gas_value st" using assms(3) by (simp add: gas_value_def)
  note parts = CalcFeeWithRatio_nonneg [OF xy nonneg assms(4)] CalcFeeWithRatio_sum [OF xy]
  note e = buyGas_effect [OF assms(1,2,5)]
  have bal: "balance env (tr_state st') a = ?b a - charged ?m (gas_value st) a" for a using e(3) by simp
  show ?thesis
  proof (cases "snd (msg_FeeRatio ?m)")
    case True
    then have "x \<le> ?b ?p" "y \<le> ?b ?q" using e(1) by (auto simp: affordable_def fee_parts_def xy split: if_splits)
    then show ?thesis
      using True parts unfolding bal charged_def fee_parts_def xy gas_value_def [symmetric]
      by (auto split: if_splits)
  next
    case False
    then have "gas_value st \<le> ?b ?p" using e(1) by (auto simp: affordable_def fee_parts_def split: if_splits)
    then show ?thesis using False unfolding bal charged_def fee_parts_def by (auto split: if_splits)
  qed
qed

section \<open>Instances\<close>

definition plain_evm :: evmContext where
  "plain_evm = \<lparr> evm_Coinbase = 9, evm_Rewardbase = 9, evm_BlockNumber = 1, evm_GasPrice = 1,
     evm_ChainConfig =
       \<lparr> ChainID = None, IstanbulCompatibleBlock = None, LondonCompatibleBlock = None, EthTxTypeCompatibleBlock = None,
         MagmaCompatibleBlock = None, KoreCompatibleBlock = None, ShanghaiCompatibleBlock = None, CancunCompatibleBlock = None,
         KaiaCompatibleBlock = None, Kip103CompatibleBlock = None, Kip103ContractAddress = 0, Kip160CompatibleBlock = None,
         Kip160ContractAddress = 0, RandaoCompatibleBlock = None, RandaoRegistry = None, Gxhash = None, Clique = None,
         Istanbul = None, cfg_UnitPrice = 0, cfg_DeriveShaImpl = 0, Governance = None \<rparr>,
     evm_Prefetching = False, evm_ActivePrecompiles = (\<lambda>_. []) \<rparr>"

definition cancel_msg :: "u8 \<times> bool \<Rightarrow> u64 \<Rightarrow> Message" where
  "cancel_msg ratio gas = \<lparr> msg_ValidatedSender = 7, msg_ValidatedFeePayer = 7, msg_ValidatedIntrinsicGas = 3, msg_FeeRatio = ratio,
     msg_To = None, msg_GasTipCap = 1, msg_GasFeeCap = 1, msg_Gas = gas, msg_Value = 0, msg_Nonce = 0, msg_CheckNonce = False,
     msg_Data = [], msg_Execute = Cancel_Execute plain_env 7, msg_AccessList = [] \<rparr>"

lemma plain_balance: "balance plain_env plain_state 7 = 5"
  by (simp add: balance_def plain_reads)

lemma plain_buyGas:
  assumes "affordable plain_env (cancel_msg ratio gas) (uint gas) plain_state = None"
  shows "\<exists>st'. buyGas plain_env (NewStateTransition plain_evm (cancel_msg ratio gas) plain_state) = (None, st')"
proof -
  let ?st = "NewStateTransition plain_evm (cancel_msg ratio gas) plain_state"
  have st: "tr_msg ?st = cancel_msg ratio gas" "tr_state ?st = plain_state" "gas_value ?st = uint gas"
    by (simp_all add: NewStateTransition_def gas_value_def plain_evm_def cancel_msg_def)
  obtain e st' where b: "buyGas plain_env ?st = (e, st')" by fastforce
  then show ?thesis using buyGas_effect(1) [OF plain_ok(1) _ b] plain_ok(2) assms st by simp
qed

theorem TransitionDb_conserves_witness:
  "\<exists>r st'. TransitionDb plain_env (NewStateTransition plain_evm (cancel_msg (100, False) 5) plain_state) = Some (Inr r, st') \<and>
    UsedGas r \<le> 5 \<and> total_balance plain_env {7, 9} (tr_state st') = total_balance plain_env {7, 9} plain_state"
proof -
  let ?m = "cancel_msg (100, False) 5"
  let ?st = "NewStateTransition plain_evm ?m plain_state"
  have m: "msg_ValidatedSender ?m = 7" "msg_ValidatedFeePayer ?m = 7" "msg_Execute ?m = Cancel_Execute plain_env 7" "msg_Gas ?m = 5"
    "evm_Coinbase plain_evm = 9" "evm_Rewardbase plain_evm = 9" "chain_DeferredTxFee (evm_ChainConfig plain_evm) = Some False"
    by (simp_all add: cancel_msg_def plain_evm_def chain_DeferredTxFee_def)
  obtain st1 where b: "buyGas plain_env ?st = (None, st1)"
    using plain_buyGas [of "(100, False)" 5] by (auto simp: affordable_def fee_parts_def cancel_msg_def plain_balance)
  have p: "preCheck plain_env ?st = (None, st1)"
    using b by (simp add: preCheck_def Let_def NewStateTransition_def cancel_msg_def plain_evm_def)
  have f: "tr_msg st1 = ?m" "tr_evm st1 = plain_evm" "tr_gas st1 = 5"
    using preCheck_bought(3) [OF plain_ok(1) _ _ p] plain_ok(2)
    by (simp_all add: NewStateTransition_def cancel_msg_def plain_evm_def) (metis StateTransition.simps)+
  have e: "\<not> IsShanghai (config_Rules (evm_ChainConfig plain_evm) n)" "tr_evm (refundGas env q st) = tr_evm st" for n env q st
    by (simp_all add: config_Rules_def IsShanghaiForkEnabled_def isForked_def plain_evm_def refundGas_def Let_def case_prod_beta)
  have v: "msg_ValidatedIntrinsicGas ?m = 3" "msg_Value ?m = 0" by (simp_all add: cancel_msg_def)
  have "\<exists>r st'. TransitionDb plain_env ?st = Some (Inr r, st')"
    unfolding TransitionDb_def p Let_def case_prod_conv option.case f v m by (simp add: e f v m Cancel_Execute_def pay_fee_def)
  then obtain r st' where T: "TransitionDb plain_env ?st = Some (Inr r, st')" by blast
  have A: "finite {7, 9 :: address}" "{msg_ValidatedSender ?m, msg_ValidatedFeePayer ?m, evm_Coinbase plain_evm, evm_Rewardbase plain_evm} \<subseteq> {7, 9}"
    by (simp_all add: m)
  have E: "message_execution plain_env (msg_Execute ?m)" "\<not> evm_Prefetching plain_evm"
    using cancel.message_execution_axioms by (simp_all add: m plain_evm_def)
  obtain s1 s2 ret gas err where "state_ok plain_env s1"
    "Cancel_Execute plain_env 7 (word_of_int (evm_BlockNumber plain_evm)) (5 - msg_ValidatedIntrinsicGas ?m) (msg_Value ?m) s1 = ((ret, gas, err), s2)"
    "UsedGas r \<le> 5"
    "total_balance plain_env {7, 9} (tr_state st') = total_balance plain_env {7, 9} plain_state +
       (total_balance plain_env {7, 9} s2 - total_balance plain_env {7, 9} s1)"
    using TransitionDb_conserves [OF plain_ok(1,2) E A T] unfolding m by auto
  then show ?thesis using T total_ops(3) [OF plain_ok(1) _ A(1), of s1 7] by (auto simp: Cancel_Execute_def)
qed

theorem buyGas_overdraws_iff_witness:
  "\<exists>st'. buyGas plain_env (NewStateTransition plain_evm (cancel_msg (50, True) 8) plain_state) = (None, st') \<and>
    (\<exists>a. 0 \<le> balance plain_env plain_state a \<and> balance plain_env (tr_state st') a < 0)"
proof -
  let ?st = "NewStateTransition plain_evm (cancel_msg (50, True) 8) plain_state"
  obtain st' where b: "buyGas plain_env ?st = (None, st')"
    using plain_buyGas [of "(50, True)" 8] by (auto simp: affordable_def fee_parts_def CalcFeeWithRatio_def cancel_msg_def plain_balance)
  have st: "tr_msg ?st = cancel_msg (50, True) 8" "tr_state ?st = plain_state" "tr_gasPrice ?st = 1"
    "msg_FeeRatio (cancel_msg (50, True) 8) = (50, True)" "msg_Gas (cancel_msg (50, True) 8) = 8"
    "msg_ValidatedSender (cancel_msg (50, True) 8) = 7" "msg_ValidatedFeePayer (cancel_msg (50, True) 8) = 7"
    by (simp_all add: NewStateTransition_def plain_evm_def cancel_msg_def)
  note iff = buyGas_overdraws_iff [OF plain_ok(1) _ _ _ b, unfolded st plain_balance, OF plain_ok(2)]
  have "\<exists>a. 0 \<le> balance plain_env plain_state a \<and> balance plain_env (tr_state st') a < 0" using iff by simp
  then show ?thesis using b by blast
qed

end
