(* ===== verification/EVM_Analysis.thy ===== *)
theory EVM_Analysis
  imports Klaytn_Prelude
begin

text \<open>
  The jump analysis of the virtual machine (\<open>blockchain/vm/analysis.go\<close>, \<open>validJumpdest\<close> and \<open>isCode\<close> of
  \<open>blockchain/vm/contract.go\<close>): a bitmap of the bytes of a program that are arguments of \<open>PUSH\<close>, built eight bits at a time,
  cached by code hash, against the decoding of the program from its start. Positions are below the length of a slice plus 32
  and are natural numbers; an index out of range, which panics, is \<open>None\<close>.
\<close>

unbundle bit_operations_syntax

type_synonym bitvec = bytes

definition bitvec_set :: "nat \<Rightarrow> bitvec \<Rightarrow> bitvec option" where
  "bitvec_set pos bits =
     (if pos div 8 < length bits then Some (bits[pos div 8 := bits ! (pos div 8) OR drop_bit (pos mod 8) 0x80]) else None)"

definition bitvec_set8 :: "nat \<Rightarrow> bitvec \<Rightarrow> bitvec option" where
  "bitvec_set8 pos bits =
     (if pos div 8 < length bits then
        (let bits1 = bits[pos div 8 := bits ! (pos div 8) OR drop_bit (pos mod 8) 0xFF] in
         if pos div 8 + 1 < length bits1
         then Some (bits1[pos div 8 + 1 := bits1 ! (pos div 8 + 1) OR NOT (drop_bit (pos mod 8) 0xFF)]) else None)
      else None)"

definition codeSegment :: "nat \<Rightarrow> bitvec \<Rightarrow> bool option" where
  "codeSegment pos bits = (if pos div 8 < length bits then Some (bits ! (pos div 8) AND drop_bit (pos mod 8) 0x80 = 0) else None)"

text \<open>The two loops over the argument of a \<open>PUSH\<close>, by eights and then by ones.\<close>

fun mark_data :: "nat \<Rightarrow> nat \<Rightarrow> bitvec \<Rightarrow> (nat \<times> bitvec) option" where
  "mark_data numbits pc bits =
     (if 8 \<le> numbits then (case bitvec_set8 pc bits of None \<Rightarrow> None | Some bits1 \<Rightarrow> mark_data (numbits - 8) (pc + 8) bits1)
      else if 0 < numbits then (case bitvec_set pc bits of None \<Rightarrow> None | Some bits1 \<Rightarrow> mark_data (numbits - 1) (pc + 1) bits1)
      else Some (pc, bits))"

lemmas [simp del] = mark_data.simps

lemma mark_data_pc: "mark_data n pc bits = Some (pc', bits') \<Longrightarrow> pc' = pc + n"
  by (induction n pc bits rule: mark_data.induct) (subst (asm) (3) mark_data.simps, auto split: if_splits option.splits)

definition is_push :: "u8 \<Rightarrow> bool" where
  "is_push op \<longleftrightarrow> 0x60 \<le> op \<and> op \<le> 0x7f"

function codeBitmap_loop :: "bytes \<Rightarrow> nat \<Rightarrow> bitvec \<Rightarrow> bitvec option" where
  "codeBitmap_loop code pc bits =
     (if pc < length code then
        (let op = code ! pc in
         if is_push op then
           (case mark_data (unat (op - 0x60 + 1)) (pc + 1) bits of
              None \<Rightarrow> None | Some (pc1, bits1) \<Rightarrow> codeBitmap_loop code pc1 bits1)
         else codeBitmap_loop code (pc + 1) bits)
      else Some bits)"
  by pat_completeness auto
termination
  by (relation "measure (\<lambda>(code, pc, _). length code - pc)") (auto dest: mark_data_pc)

definition codeBitmap :: "bytes \<Rightarrow> bitvec option" where
  "codeBitmap code = codeBitmap_loop code 0 (replicate (length code div 8 + 1 + 4) 0)"

text \<open>\<open>ct_jumpdests\<close> is the map a contract shares with the contracts that call it.\<close>

record Contract =
  ct_jumpdests :: "hash \<rightharpoonup> bitvec"
  ct_analysis :: "bitvec option"
  ct_Code :: bytes
  ct_CodeHash :: hash

definition isCode :: "nat \<Rightarrow> Contract \<Rightarrow> (bool \<times> Contract) option" where
  "isCode udest c =
     (case ct_analysis c of
        Some analysis \<Rightarrow> map_option (\<lambda>b. (b, c)) (codeSegment udest analysis)
      | None \<Rightarrow>
          if ct_CodeHash c \<noteq> 0 then
            (case (case ct_jumpdests c (ct_CodeHash c) of
                     Some analysis \<Rightarrow> Some (analysis, ct_jumpdests c)
                   | None \<Rightarrow> map_option (\<lambda>analysis. (analysis, (ct_jumpdests c)(ct_CodeHash c \<mapsto> analysis))) (codeBitmap (ct_Code c))) of
               None \<Rightarrow> None
             | Some (analysis, jumpdests) \<Rightarrow>
                 map_option (\<lambda>b. (b, c\<lparr> ct_jumpdests := jumpdests, ct_analysis := Some analysis \<rparr>)) (codeSegment udest analysis))
          else
            (case codeBitmap (ct_Code c) of
               None \<Rightarrow> None
             | Some analysis \<Rightarrow> map_option (\<lambda>b. (b, c\<lparr> ct_analysis := Some analysis \<rparr>)) (codeSegment udest analysis)))"

definition validJumpdest :: "256 word \<Rightarrow> Contract \<Rightarrow> (bool \<times> Contract) option" where
  "validJumpdest dest c =
     (let udest = unat dest mod 2 ^ 64; overflow = 2 ^ 64 \<le> unat dest in
      if overflow \<or> length (ct_Code c) \<le> udest then Some (False, c)
      else if ct_Code c ! udest \<noteq> 0x5b then Some (False, c)
      else isCode udest c)"

section \<open>The bits\<close>

definition bit_at :: "bitvec \<Rightarrow> nat \<Rightarrow> bool" where
  "bit_at bits p = bit (bits ! (p div 8)) (7 - p mod 8)"

lemma bit_0x80: "k < 8 \<Longrightarrow> bit (drop_bit k (0x80 :: u8)) n \<longleftrightarrow> n = 7 - k"
  by (auto simp: bit_drop_bit_eq bit_simps less_Suc_eq numeral_eq_Suc)

lemma bit_0xFF: "bit (drop_bit k (0xFF :: u8)) n \<longleftrightarrow> k + n < 8"
  by (auto simp: bit_drop_bit_eq bit_simps less_Suc_eq numeral_eq_Suc)

text \<open>A position is the byte it is in and the place in that byte.\<close>

lemma same_bit:
  assumes "(p :: nat) div 8 = pos div 8"
  shows "7 - p mod 8 = 7 - pos mod 8 \<longleftrightarrow> p = pos"
proof
  have P: "p = 8 * (p div 8) + p mod 8" "p mod 8 < 8" "pos = 8 * (pos div 8) + pos mod 8" "pos mod 8 < 8" by simp_all
  assume "7 - p mod 8 = 7 - pos mod 8"
  then show "p = pos" using P assms by linarith
qed simp

lemma bitvec_set_bit:
  assumes "pos div 8 < length bits"
  shows "\<exists>bits1. bitvec_set pos bits = Some bits1 \<and> length bits1 = length bits \<and>
    (\<forall>p. p div 8 < length bits \<longrightarrow> bit_at bits1 p = (bit_at bits p \<or> p = pos))"
proof -
  let ?b = "bits[pos div 8 := bits ! (pos div 8) OR drop_bit (pos mod 8) 0x80]"
  have "bit_at ?b p = (bit_at bits p \<or> p = pos)" if "p div 8 < length bits" for p
  proof (cases "p div 8 = pos div 8")
    case True
    then show ?thesis using assms same_bit [OF True] by (simp add: bit_at_def bit_or_iff bit_0x80)
  next
    case False
    then show ?thesis using assms by (auto simp: bit_at_def)
  qed
  then show ?thesis using assms by (simp add: bitvec_set_def)
qed

lemma bitvec_set8_bit:
  assumes "pos div 8 + 1 < length bits"
  shows "\<exists>bits1. bitvec_set8 pos bits = Some bits1 \<and> length bits1 = length bits \<and>
    (\<forall>p. p div 8 < length bits \<longrightarrow> bit_at bits1 p = (bit_at bits p \<or> pos \<le> p \<and> p < pos + 8))"
proof -
  let ?q = "pos div 8" and ?m = "drop_bit (pos mod 8) (0xFF :: u8)"
  let ?b = "(bits[?q := bits ! ?q OR ?m])[?q + 1 := bits ! (?q + 1) OR NOT ?m]"
  have "bit_at ?b p = (bit_at bits p \<or> pos \<le> p \<and> p < pos + 8)" if "p div 8 < length bits" for p
  proof -
    have P: "p = 8 * (p div 8) + p mod 8" "p mod 8 < 8" "pos = 8 * ?q + pos mod 8" "pos mod 8 < 8" by simp_all
    consider "p div 8 = ?q" | "p div 8 = ?q + 1" | "p div 8 \<noteq> ?q" "p div 8 \<noteq> ?q + 1" by blast
    then show ?thesis
    proof cases
      case 1
      then have "pos \<le> p \<and> p < pos + 8 \<longleftrightarrow> pos mod 8 + (7 - p mod 8) < 8" using P by linarith
      then show ?thesis using assms 1 by (simp add: bit_at_def bit_or_iff bit_0xFF)
    next
      case 2
      then have "pos \<le> p \<and> p < pos + 8 \<longleftrightarrow> \<not> pos mod 8 + (7 - p mod 8) < 8" using P by linarith
      moreover have "7 - p mod 8 < 8" by linarith
      ultimately show ?thesis using assms 2 by (simp add: bit_at_def bit_or_iff bit_not_iff bit_0xFF)
    next
      case 3
      then have out: "\<not> (pos \<le> p \<and> p < pos + 8)" using P by linarith
      have same: "?b ! (p div 8) = bits ! (p div 8)" using 3 by simp
      show ?thesis unfolding bit_at_def same using out by blast
    qed
  qed
  then show ?thesis using assms by (simp add: bitvec_set8_def Let_def)
qed

lemma codeSegment_bit:
  assumes "p div 8 < length bits"
  shows "codeSegment p bits = Some (\<not> bit_at bits p)"
proof -
  let ?w = "bits ! (p div 8) AND drop_bit (p mod 8) 0x80"
  have "bit ?w n \<longleftrightarrow> n = 7 - p mod 8 \<and> bit_at bits p" for n by (auto simp: bit_and_iff bit_0x80 bit_at_def)
  moreover have "(?w = 0) = (\<forall>n. \<not> bit ?w n)" by (auto intro: bit_eqI)
  ultimately have "(?w = 0) = (\<not> bit_at bits p)" by simp
  then show ?thesis using assms by (simp add: codeSegment_def)
qed

lemma mark_data_bits:
  "(pc + n) div 8 < length bits \<Longrightarrow>
   \<exists>bits1. mark_data n pc bits = Some (pc + n, bits1) \<and> length bits1 = length bits \<and>
     (\<forall>p. p div 8 < length bits \<longrightarrow> bit_at bits1 p = (bit_at bits p \<or> pc \<le> p \<and> p < pc + n))"
proof (induction n pc bits rule: mark_data.induct)
  case (1 n pc bits)
  consider "8 \<le> n" | "0 < n" "n < 8" | "n = 0" by linarith
  then show ?case
  proof cases
    case 1
    then have "pc div 8 + 1 < length bits" using "1.prems" by linarith
    then obtain b1 where b1: "bitvec_set8 pc bits = Some b1" "length b1 = length bits"
      "\<And>p. p div 8 < length bits \<Longrightarrow> bit_at b1 p = (bit_at bits p \<or> pc \<le> p \<and> p < pc + 8)"
      using bitvec_set8_bit by blast
    have "pc + 8 + (n - 8) = pc + n" using 1 by simp
    then obtain b2 where b2: "mark_data (n - 8) (pc + 8) b1 = Some (pc + n, b2)" "length b2 = length bits"
      "\<And>p. p div 8 < length bits \<Longrightarrow> bit_at b2 p = (bit_at b1 p \<or> pc + 8 \<le> p \<and> p < pc + n)"
      using "1.IH"(1) [OF 1 b1(1)] "1.prems" b1(2) by auto
    have "bit_at b2 p = (bit_at bits p \<or> pc \<le> p \<and> p < pc + n)" if "p div 8 < length bits" for p
      using b1(3) [OF that] b2(3) [OF that] 1 by auto
    then show ?thesis using 1 b1(1) b2(1,2) by (simp add: mark_data.simps [of n])
  next
    case 2
    then have "pc div 8 < length bits" using "1.prems" by (meson div_le_mono le_add1 le_less_trans)
    then obtain b1 where b1: "bitvec_set pc bits = Some b1" "length b1 = length bits"
      "\<And>p. p div 8 < length bits \<Longrightarrow> bit_at b1 p = (bit_at bits p \<or> p = pc)"
      using bitvec_set_bit by blast
    have "pc + 1 + (n - 1) = pc + n" using 2 by simp
    then obtain b2 where b2: "mark_data (n - 1) (pc + 1) b1 = Some (pc + n, b2)" "length b2 = length bits"
      "\<And>p. p div 8 < length bits \<Longrightarrow> bit_at b2 p = (bit_at b1 p \<or> pc + 1 \<le> p \<and> p < pc + n)"
      using "1.IH"(2) [OF _ _ b1(1)] "1.prems" b1(2) 2 by auto
    have "bit_at b2 p = (bit_at bits p \<or> pc \<le> p \<and> p < pc + n)" if "p div 8 < length bits" for p
      using b1(3) [OF that] b2(3) [OF that] 2 by auto
    then show ?thesis using 2 b1(1) b2(1,2) by (simp add: mark_data.simps [of n])
  next
    case 3
    then show ?thesis by (auto simp: mark_data.simps [of 0])
  qed
qed

section \<open>The decoding of a program\<close>

text \<open>Decoding instruction by instruction from \<open>pc\<close>: does an instruction start at \<open>p\<close>?\<close>

definition push_size :: "u8 \<Rightarrow> nat" where
  "push_size op = (if is_push op then unat (op - 0x60 + 1) else 0)"

function starts_at :: "bytes \<Rightarrow> nat \<Rightarrow> nat \<Rightarrow> bool" where
  "starts_at code pc p = (if p \<le> pc then p = pc else starts_at code (pc + 1 + push_size (code ! pc)) p)"
  by pat_completeness auto
termination
  by (relation "measure (\<lambda>(code, pc, p). p - pc)") auto

lemmas [simp del] = starts_at.simps codeBitmap_loop.simps

lemma push_size_bound: "push_size op \<le> 32"
proof (cases "is_push op")
  case True
  then have "op - 0x60 + 1 \<le> 0x20" by (simp add: is_push_def) unat_arith
  then show ?thesis using True by (simp add: push_size_def word_le_nat_alt)
qed (simp add: push_size_def)

lemma starts_between: "pc < p \<Longrightarrow> p < pc + 1 + push_size (code ! pc) \<Longrightarrow> \<not> starts_at code pc p"
  by (subst starts_at.simps, subst starts_at.simps) simp

lemma starts_after: "pc + 1 + push_size (code ! pc) \<le> p \<Longrightarrow> starts_at code pc p = starts_at code (pc + 1 + push_size (code ! pc)) p"
  by (subst starts_at.simps) simp

lemma codeBitmap_loop_bits:
  assumes "length code div 8 + 4 < length bits"
  shows "\<exists>bits1. codeBitmap_loop code pc bits = Some bits1 \<and> length bits1 = length bits \<and>
     (\<forall>p < length code. bit_at bits1 p = (bit_at bits p \<or> pc \<le> p \<and> \<not> starts_at code pc p))"
  using assms
proof (induction code pc bits rule: codeBitmap_loop.induct)
  case (1 code pc bits)
  show ?case
  proof (cases "pc < length code")
    case False
    then show ?thesis by (simp add: codeBitmap_loop.simps)
  next
    case pc: True
    let ?n = "push_size (code ! pc)"
    have "(pc + 1 + ?n) div 8 < length bits" using pc "1.prems" push_size_bound [of "code ! pc"] by linarith
    then obtain b1 where b1: "mark_data ?n (pc + 1) bits = Some (pc + 1 + ?n, b1)" "length b1 = length bits"
      "\<And>p. p div 8 < length bits \<Longrightarrow> bit_at b1 p = (bit_at bits p \<or> pc + 1 \<le> p \<and> p < pc + 1 + ?n)"
      using mark_data_bits by blast
    have next_pc: "\<exists>bits1. codeBitmap_loop code (pc + 1 + ?n) b1 = Some bits1 \<and> length bits1 = length b1 \<and>
     (\<forall>p < length code. bit_at bits1 p = (bit_at b1 p \<or> pc + 1 + ?n \<le> p \<and> \<not> starts_at code (pc + 1 + ?n) p))"
    proof (cases "is_push (code ! pc)")
      case True
      then have n: "?n = unat (code ! pc - 0x60 + 1)" by (simp add: push_size_def)
      show ?thesis using "1.IH"(1) [OF pc HOL.refl True b1(1) [unfolded n] HOL.refl] b1(2) "1.prems" unfolding n by simp
    next
      case False
      then have "b1 = bits" using b1(1) by (simp add: push_size_def mark_data.simps)
      then show ?thesis using "1.IH"(2) [OF pc HOL.refl False] "1.prems" False by (simp add: push_size_def)
    qed
    then obtain b2 where b2: "codeBitmap_loop code (pc + 1 + ?n) b1 = Some b2" "length b2 = length bits"
      "\<And>p. p < length code \<Longrightarrow> bit_at b2 p = (bit_at b1 p \<or> pc + 1 + ?n \<le> p \<and> \<not> starts_at code (pc + 1 + ?n) p)"
      using b1(2) by auto
    have step: "codeBitmap_loop code pc bits = codeBitmap_loop code (pc + 1 + ?n) b1"
    proof (cases "is_push (code ! pc)")
      case True
      then have n: "?n = unat (code ! pc - 0x60 + 1)" by (simp add: push_size_def)
      show ?thesis using pc True b1(1) unfolding n by (subst codeBitmap_loop.simps) simp
    next
      case False
      then show ?thesis using pc b1(1) by (subst codeBitmap_loop.simps) (simp add: push_size_def mark_data.simps [of 0])
    qed
    have "bit_at b2 p = (bit_at bits p \<or> pc \<le> p \<and> \<not> starts_at code pc p)" if p: "p < length code" for p
    proof -
      have "p div 8 < length bits" using p "1.prems" by linarith
      then have "bit_at b2 p = (bit_at bits p \<or> pc + 1 \<le> p \<and> p < pc + 1 + ?n \<or> pc + 1 + ?n \<le> p \<and> \<not> starts_at code (pc + 1 + ?n) p)"
        using b1(3) b2(3) [OF p] by simp
      moreover have "starts_at code pc pc" by (simp add: starts_at.simps)
      ultimately show ?thesis
        using starts_between [of pc p code] starts_after [of pc code p] by (cases "p \<le> pc") (auto simp: not_le)
    qed
    then show ?thesis using step b2(1,2) by simp
  qed
qed

section \<open>Jump destinations\<close>

definition is_instruction :: "bytes \<Rightarrow> nat \<Rightarrow> bool" where
  "is_instruction code p \<longleftrightarrow> starts_at code 0 p"

lemma codeBitmap_bits:
  "\<exists>bits. codeBitmap code = Some bits \<and> (\<forall>p < length code. codeSegment p bits = Some (is_instruction code p))"
proof -
  let ?z = "replicate (length code div 8 + 1 + 4) (0 :: u8)"
  obtain bits where b: "codeBitmap_loop code 0 ?z = Some bits" "length bits = length ?z"
    "\<forall>p < length code. bit_at bits p = (bit_at ?z p \<or> 0 \<le> p \<and> \<not> starts_at code 0 p)"
    using codeBitmap_loop_bits [of code ?z 0] by auto
  have "codeSegment p bits = Some (is_instruction code p)" if p: "p < length code" for p
  proof -
    have q: "p div 8 < length ?z" using p by (simp add: div_le_mono le_imp_less_Suc less_imp_le trans_le_add1)
    then have "\<not> bit_at ?z p" by (simp add: bit_at_def del: replicate.simps replicate_Suc)
    then show ?thesis using codeSegment_bit [of p bits] b(2,3) q p by (simp add: is_instruction_def)
  qed
  then show ?thesis using b(1) by (auto simp: codeBitmap_def)
qed

text \<open>The caches hold analyses of codes without a collision of their hashes.\<close>

definition contract_ok :: "(bytes \<Rightarrow> hash) \<Rightarrow> bytes set \<Rightarrow> Contract \<Rightarrow> bool" where
  "contract_ok keccak U c \<longleftrightarrow>
     inj_on keccak U \<and> (ct_CodeHash c \<noteq> 0 \<longrightarrow> ct_Code c \<in> U \<and> ct_CodeHash c = keccak (ct_Code c)) \<and>
     (\<forall>a. ct_analysis c = Some a \<longrightarrow> codeBitmap (ct_Code c) = Some a) \<and>
     (\<forall>h a. ct_jumpdests c h = Some a \<longrightarrow> (\<exists>code \<in> U. keccak code = h \<and> codeBitmap code = Some a))"

lemma isCode_correct:
  assumes "contract_ok keccak U c" "p < length (ct_Code c)"
  shows "\<exists>c'. isCode p c = Some (is_instruction (ct_Code c) p, c') \<and> contract_ok keccak U c' \<and> ct_Code c' = ct_Code c"
proof -
  obtain bits where bits: "codeBitmap (ct_Code c) = Some bits" "codeSegment p bits = Some (is_instruction (ct_Code c) p)"
    using codeBitmap_bits assms(2) by blast
  have cached: "a = bits" if j: "ct_jumpdests c (ct_CodeHash c) = Some a" and h: "ct_CodeHash c \<noteq> 0" for a
  proof -
    obtain code where code: "code \<in> U" "keccak code = ct_CodeHash c" "codeBitmap code = Some a"
      using assms(1) j unfolding contract_ok_def by blast
    have "inj_on keccak U" "ct_Code c \<in> U" "ct_CodeHash c = keccak (ct_Code c)" using assms(1) h by (simp_all add: contract_ok_def)
    then have "code = ct_Code c" using code(1,2) by (auto dest: inj_onD)
    then show ?thesis using code(3) bits(1) by simp
  qed
  show ?thesis
  proof (cases "ct_analysis c")
    case (Some a)
    then have "a = bits" using assms(1) bits(1) by (simp add: contract_ok_def)
    then show ?thesis using Some bits(2) assms(1) by (simp add: isCode_def)
  next
    case None
    then show ?thesis
      using assms(1) bits cached
      by (cases "ct_jumpdests c (ct_CodeHash c)") (auto simp: isCode_def contract_ok_def)
  qed
qed

text \<open>C13: A jump is accepted exactly when its destination lies in the code, holds \<open>JUMPDEST\<close> and is the start of an instruction in
  the decoding of the program from its first byte. The bitmap is never written out of bounds, whatever the code ends with,
  the answer does not depend on which of the two caches holds the analysis, and the caches stay right for the next jump.\<close>

theorem validJumpdest_iff_instruction:
  assumes "contract_ok keccak U c" "length (ct_Code c) < 2 ^ 63"
  shows "\<exists>c'. validJumpdest dest c =
      Some (unat dest < length (ct_Code c) \<and> ct_Code c ! unat dest = 0x5b \<and> is_instruction (ct_Code c) (unat dest), c') \<and>
    contract_ok keccak U c' \<and> ct_Code c' = ct_Code c"
proof (cases "unat dest < length (ct_Code c)")
  case True
  then have "unat dest mod 2 ^ 64 = unat dest" "\<not> 2 ^ 64 \<le> unat dest" using assms(2) by simp_all
  then show ?thesis
    using isCode_correct [OF assms(1) True] True assms(1) by (auto simp: validJumpdest_def Let_def)
next
  case False
  have "2 ^ 64 \<le> unat dest \<or> length (ct_Code c) \<le> unat dest mod 2 ^ 64"
    using False by (cases "unat dest < 2 ^ 64") simp_all
  then show ?thesis using False assms(1) by (auto simp: validJumpdest_def Let_def)
qed

text \<open>The code \<open>PUSH1 0x5b JUMPDEST\<close> has a jump destination at 2 and none at 1.\<close>

theorem validJumpdest_iff_instruction_witness:
  "\<exists>c1 c2. let c = \<lparr> ct_jumpdests = Map.empty, ct_analysis = None, ct_Code = [0x60, 0x5b, 0x5b], ct_CodeHash = 5 \<rparr> in
    validJumpdest 1 c = Some (False, c1) \<and> validJumpdest 2 c = Some (True, c2)"
proof -
  let ?c = "\<lparr> ct_jumpdests = Map.empty, ct_analysis = None, ct_Code = [0x60, 0x5b, 0x5b], ct_CodeHash = 5 \<rparr>"
  have ok: "contract_ok (\<lambda>_. 5) {[0x60, 0x5b, 0x5b]} ?c" by (simp add: contract_ok_def)
  have "\<not> is_instruction [0x60, 0x5b, 0x5b] 1" "is_instruction [0x60, 0x5b, 0x5b] 2"
    by (simp_all add: is_instruction_def starts_at.simps [of _ 0] starts_at.simps [of _ "Suc (Suc 0)"] starts_at.simps [of _ 2]
        push_size_def is_push_def)
  then show ?thesis
    using validJumpdest_iff_instruction [OF ok, of 1] validJumpdest_iff_instruction [OF ok, of 2] by (auto simp: Let_def)
qed

end
