(* ===== verification/Spec2Isabelle.thy ===== *)
theory Spec2Isabelle
  imports Supply Istanbul_Backlog Istanbul_Views State_Transition EVM_Analysis
begin

text \<open>
  A verification development for the Klaytn node (Go sources under \<open>src/\<close>).

  \<^bold>\<open>Program and theories.\<close> The node runs an Istanbul BFT chain whose blocks pay a deferred reward, whose
  base fee moves with the load, and whose parameters are changed by governance. The theories follow the
  components, in the order in which they depend on each other:

  \<^item> \<open>Klaytn_Prelude\<close>: result type, words, big integers, association lists, the shared lemmas.
  \<^item> \<open>Chain_Config\<close> (\<open>params/config.go\<close>, \<open>params/governance_params.go\<close>): the chain configuration as a record
    with optional fields for pointers, the fork rules, compatibility checks, update intervals. Lemmas: the fork
    flags are cumulative, a compatible configuration never rewinds, the interval functions bracket a block.
  \<^item> \<open>Block_Types\<close> (\<open>blockchain/types\<close>): header record and the fee getters of transactions.
  \<^item> \<open>Base_Fee\<close> (\<open>consensus/misc/kip71.go\<close>): the base fee of the next block, with bounds and verification.
  \<^item> \<open>Gov_Params\<close> (\<open>params/governance_paramset.go\<close>): parsing, validation and merging of parameter sets.
  \<^item> \<open>Staking\<close>, \<open>Reward\<close>, \<open>Supply\<close> (\<open>reward/\<close>): staking information, block rewards, supply accumulation.
    Lemmas: conservation of value, agreement of the light and the full computation, bounds, correctness of the
    accumulated reward under every non-decreasing sequence of heads.
  \<^item> \<open>Validator_Set\<close> (\<open>consensus/istanbul/validator/\<close>): the default set and the weighted council, proposer
    selection, committees, the quorum.
  \<^item> \<open>Prque\<close> (\<open>common/prque/\<close>): the stack of blocks and the heap over it, shown to be a priority queue. The
    interfaces of \<open>container/heap\<close> and of a priority queue are locales, interpreted on the model.
  \<^item> \<open>Istanbul_Core\<close> (\<open>consensus/istanbul/core/\<close>): the engine as a record \<open>core\<close>, one definition per handler
    (\<open>handleRequest\<close>, \<open>handlePreprepare\<close>, \<open>handlePrepare\<close>, \<open>handleCommit\<close>, \<open>handleRoundChange\<close>,
    \<open>handleTimeoutMsg\<close>, \<open>handleFinalCommitted\<close>), \<open>handleEvent\<close> for one turn of the event loop. The backend is
    the record \<open>istanbulEnv\<close>; what the engine sends, posts and commits is appended to \<open>c_outbox\<close>.
  \<^item> \<open>Istanbul_Safety\<close>: the invariant of one engine (what it voted for, what it is locked on, what its message sets
    hold) and its preservation by every handler. \<open>Istanbul_Network\<close>: engines that exchange messages as a step
    relation, with faulty validators that send anything they can sign; agreement by rule induction.
    \<open>Istanbul_Backlog\<close>: the backlog of future messages loses nothing. \<open>Istanbul_Views\<close>: views never go back; the
    seal of the COMMIT for an old block.

  \<^item> \<open>Trie_Encoding\<close>, \<open>Trie_Nodes\<close> (\<open>storage/statedb/encoding.go\<close>, \<open>node.go\<close>, \<open>trie.go\<close>): the key encodings and the
    Merkle Patricia trie with nodes in memory or in the node database, which is an argument. \<open>Trie_Map\<close>,
    \<open>Trie_Delete\<close>: the canonical form (\<open>wf_trie\<close>), its preservation by insertion and deletion, lookup after any
    sequence of updates (through the locale \<open>key_value_store\<close>), and that the tree depends on the final values only.
  \<^item> \<open>RLP\<close> (\<open>rlp/\<close>): the encoder buffer with deferred list headers and the raw splitting functions; the buffer
    produces the recursive encoding, and splitting inverts it.

  \<^item> \<open>Accounts\<close> (\<open>blockchain/types/account/\<close>) and \<open>State_DB\<close> (\<open>blockchain/state/\<close>): accounts, state objects, journal,
    access list and transient storage as records, one definition per operation of \<open>StateDB\<close>, over the secure trie.
    \<open>State_View\<close>: what a state shows, independently of what has been loaded. \<open>State_Revert\<close>, \<open>State_Snapshots\<close>: undoing a
    journal entry as a function on views, and that every operation logs what it changes. \<open>State_Rollback\<close>: reverting to
    a snapshot restores every read; the journal stays well formed and names every change. Hypotheses: the nodes of the
    tries are present, and no two addresses have the same Keccak hash.
  \<^item> \<open>State_Balances\<close>: what the balance operations do to the balances of all accounts, and totals over a set of accounts.
    \<open>State_Transition\<close> (\<open>blockchain/state_transition.go\<close>): the transition of one message (\<open>preCheck\<close>, \<open>buyGas\<close>,
    \<open>TransitionDb\<close>, \<open>refundGas\<close>) on the state of \<open>State_DB\<close>. \<open>Execute\<close> is a method of the message; what the transition
    relies on of it is the locale \<open>message_execution\<close>, interpreted on the execution of a cancel transaction. Lemmas: no
    value is made or lost by fees and refunds, and when buying gas overdraws an account.
  \<^item> \<open>EVM_Analysis\<close> (\<open>blockchain/vm/analysis.go\<close>, \<open>contract.go\<close>): the bitmap of push data and its caches, against the
    decoding of the program from its first byte.

  \<^bold>\<open>Conventions.\<close> \<open>*big.Int\<close> is \<open>int\<close> (an option where the code tests for nil), \<open>uint64\<close> a 64-bit word,
  addresses and hashes words, byte slices lists of 8-bit words. Errors are values of a sum type; a panic is \<open>None\<close>
  or a constructor of its own. A Go map whose iteration order is visible is an association list. Code outside the
  sources (hashes, random numbers, contract calls) is a field of an environment record or an argument.
  Validators are values: the sharing of validator objects between a council and its copy is not visible.

  \<^bold>\<open>Fuel.\<close> The accumulation loop of the supply manager takes fuel; one unit per block plus one is shown to be
  enough. The loops that empty a priority queue take its size as fuel, and are shown to end within it. All other
  loops are structural or have a termination proof. Trie operations take two units per nibble and a constant, one for
  a reference and one for the node it stands for; the lemmas show that it never runs out.

  \<^bold>\<open>Assumptions of agreement.\<close> Messages of correct validators cannot be forged (\<open>authentic\<close>), a block hash
  determines its height and every block of one height has the same council, at most \<open>F\<close> members of a council are
  faulty, and the committee is the whole council (\<open>IsSubSet\<close> is false). They are hypotheses of the theorem, and a
  concrete run satisfies them.

  \<^bold>\<open>Not modelled.\<close> Networking, databases, RPC, command line, cryptography, generated contract bindings,
  floating-point computations (Gini coefficient, stake weights), goroutine scheduling except where stated. The
  interpreter of the virtual machine and the execution of the other transaction types: the state transition takes the
  execution of a message as a parameter. Writing the state to the tries (\<open>Finalise\<close>, \<open>Commit\<close>), which hashes nodes and
  goes through the databases. The transaction pool, the chain management and the consensus backends, whose work is
  goroutines, caches and signatures around the modelled operations; the governance engine, of which the parameter sets
  are modelled and the counting of votes through the database and contracts is not.
\<close>

end
